(* ===== verification/Mx_Strings.thy ===== *)
theory Mx_Strings
  imports Mx_Prelude
begin

text \<open>
  The string operations of the Rust standard library that the sources use, on UTF-8 byte
  sequences (a \<open>char\<close> of HOL is a byte): \<open>trim\<close>, \<open>rfind\<close>, \<open>parse::<u64>\<close>, decimal
  printing, \<open>to_ascii_lowercase\<close>, \<open>join\<close>, \<open>starts_with\<close> and \<open>replace\<close>.
\<close>

subsection \<open>Trimming\<close>

text \<open>The UTF-8 encodings of the code points with the \<open>White_Space\<close> property.\<close>

definition utf8_ws :: "string list" where
  "utf8_ws =
     [[CHR 0x09], [CHR 0x0A], [CHR 0x0B], [CHR 0x0C], [CHR 0x0D], [CHR 0x20],
      [CHR 0xC2, CHR 0x85], [CHR 0xC2, CHR 0xA0], [CHR 0xE1, CHR 0x9A, CHR 0x80],
      [CHR 0xE2, CHR 0x80, CHR 0x80], [CHR 0xE2, CHR 0x80, CHR 0x81], [CHR 0xE2, CHR 0x80, CHR 0x82],
      [CHR 0xE2, CHR 0x80, CHR 0x83], [CHR 0xE2, CHR 0x80, CHR 0x84], [CHR 0xE2, CHR 0x80, CHR 0x85],
      [CHR 0xE2, CHR 0x80, CHR 0x86], [CHR 0xE2, CHR 0x80, CHR 0x87], [CHR 0xE2, CHR 0x80, CHR 0x88],
      [CHR 0xE2, CHR 0x80, CHR 0x89], [CHR 0xE2, CHR 0x80, CHR 0x8A], [CHR 0xE2, CHR 0x80, CHR 0xA8],
      [CHR 0xE2, CHR 0x80, CHR 0xA9], [CHR 0xE2, CHR 0x80, CHR 0xAF], [CHR 0xE2, CHR 0x81, CHR 0x9F],
      [CHR 0xE3, CHR 0x80, CHR 0x80]]"

fun starts_with :: "'a list \<Rightarrow> 'a list \<Rightarrow> bool" where
  "starts_with s [] = True"
| "starts_with [] (p # ps) = False"
| "starts_with (c # cs) (p # ps) = (c = p \<and> starts_with cs ps)"

lemma starts_with_length: "starts_with s p \<Longrightarrow> length p \<le> length s"
  by (induction s p rule: starts_with.induct) auto

lemma starts_with_append [simp]: "starts_with (p @ s) p"
  by (induction p) auto

text \<open>Drops white-space units from the front, one at a time.\<close>

function strip_ws :: "string list \<Rightarrow> string \<Rightarrow> string" where
  "strip_ws ws s =
     (case find (\<lambda>w. w \<noteq> [] \<and> starts_with s w) ws of
        None \<Rightarrow> s
      | Some w \<Rightarrow> strip_ws ws (drop (length w) s))"
  by pat_completeness auto
termination
proof (relation "measure (length \<circ> snd)", goal_cases)
  case 1
  show ?case by simp
next
  case (2 ws s w)
  then have "w \<noteq> [] \<and> starts_with s w" by (auto dest: find_Some_mem)
  then show ?case using starts_with_length [of s w] by (cases w) auto
qed

declare strip_ws.simps [simp del]

definition trim_start :: "string \<Rightarrow> string" where
  "trim_start s = strip_ws utf8_ws s"

definition trim_end :: "string \<Rightarrow> string" where
  "trim_end s = rev (strip_ws (map rev utf8_ws) (rev s))"

definition trim :: "string \<Rightarrow> string" where
  "trim s = trim_end (trim_start s)"

text \<open>\<open>s.trim().is_empty()\<close>.\<close>

definition blank :: "string \<Rightarrow> bool" where
  "blank s \<longleftrightarrow> trim s = []"

lemma strip_ws_stop:
  "strip_ws ws (strip_ws ws s) = strip_ws ws s"
proof (induction ws s rule: strip_ws.induct)
  case (1 ws s)
  show ?case
  proof (cases "find (\<lambda>w. w \<noteq> [] \<and> starts_with s w) ws")
    case None
    then have "strip_ws ws s = s" by (subst strip_ws.simps) simp
    then show ?thesis by simp
  next
    case (Some w)
    then have "strip_ws ws s = strip_ws ws (drop (length w) s)" by (subst strip_ws.simps) simp
    then show ?thesis using "1.IH" [OF Some] by simp
  qed
qed

lemma strip_ws_suffix: "\<exists>p. s = p @ strip_ws ws s"
proof (induction ws s rule: strip_ws.induct)
  case (1 ws s)
  show ?case
  proof (cases "find (\<lambda>w. w \<noteq> [] \<and> starts_with s w) ws")
    case None
    then show ?thesis by (subst strip_ws.simps) simp
  next
    case (Some w)
    from "1.IH" [OF Some] obtain p where p: "drop (length w) s = p @ strip_ws ws (drop (length w) s)" ..
    have "strip_ws ws s = strip_ws ws (drop (length w) s)" using Some by (subst strip_ws.simps) simp
    then have "s = (take (length w) s @ p) @ strip_ws ws s" using p by (metis append.assoc append_take_drop_id)
    then show ?thesis ..
  qed
qed

lemma strip_ws_no_start:
  "\<forall>w \<in> set ws. w = [] \<or> hd w \<noteq> c \<Longrightarrow> strip_ws ws (c # s) = c # s"
proof (subst strip_ws.simps)
  assume "\<forall>w \<in> set ws. w = [] \<or> hd w \<noteq> c"
  then have "find (\<lambda>w. w \<noteq> [] \<and> starts_with (c # s) w) ws = None"
    unfolding find_None_iff_all
  proof (intro ballI)
    fix w
    assume *: "\<forall>w \<in> set ws. w = [] \<or> hd w \<noteq> c" "w \<in> set ws"
    then show "\<not> (w \<noteq> [] \<and> starts_with (c # s) w)" by (cases w) auto
  qed
  then show "(case find (\<lambda>w. w \<noteq> [] \<and> starts_with (c # s) w) ws of None \<Rightarrow> c # s
      | Some w \<Rightarrow> strip_ws ws (drop (length w) (c # s))) = c # s" by simp
qed

text \<open>A byte that neither begins nor ends a white-space unit.\<close>

definition solid :: "char \<Rightarrow> bool" where
  "solid c \<longleftrightarrow> (\<forall>w \<in> set utf8_ws. hd w \<noteq> c \<and> last w \<noteq> c)"

lemma strip_ws_Nil [simp]: "strip_ws ws [] = []"
proof -
  obtain p where "[] = p @ strip_ws ws []" using strip_ws_suffix by blast
  then show ?thesis by simp
qed

lemma trim_Nil [simp]: "trim [] = []"
  by (simp add: trim_def trim_start_def trim_end_def)

lemma trim_start_solid: "solid c \<Longrightarrow> trim_start (c # s) = c # s"
  unfolding trim_start_def by (rule strip_ws_no_start) (auto simp: solid_def)

lemma trim_end_solid: "solid c \<Longrightarrow> trim_end (s @ [c]) = s @ [c]"
proof -
  assume "solid c"
  then have "\<forall>w \<in> set (map rev utf8_ws). w = [] \<or> hd w \<noteq> c"
    by (auto simp: solid_def hd_rev)
  then have "strip_ws (map rev utf8_ws) (c # rev s) = c # rev s" by (rule strip_ws_no_start)
  then show ?thesis by (simp add: trim_end_def)
qed

lemma trim_end_prefix: "\<exists>q. s = trim_end s @ q"
proof -
  obtain p where "rev s = p @ strip_ws (map rev utf8_ws) (rev s)" using strip_ws_suffix by blast
  then have "s = rev (strip_ws (map rev utf8_ws) (rev s)) @ rev p" by (metis rev_append rev_rev_ident)
  then show ?thesis unfolding trim_end_def ..
qed

subsection \<open>Decimal numbers\<close>

definition is_ascii_digit :: "char \<Rightarrow> bool" where
  "is_ascii_digit c \<longleftrightarrow> 48 \<le> (of_char c :: nat) \<and> (of_char c :: nat) \<le> 57"

definition digit_val :: "char \<Rightarrow> nat" where
  "digit_val c = of_char c - 48"

text \<open>The accumulating loop of \<open>u64::from_str\<close>, with its overflow check on every digit.\<close>

fun parse_digits :: "nat \<Rightarrow> string \<Rightarrow> nat option" where
  "parse_digits acc [] = Some acc"
| "parse_digits acc (c # cs) =
     (if is_ascii_digit c \<and> acc * 10 + digit_val c < 2 ^ 64
      then parse_digits (acc * 10 + digit_val c) cs else None)"

text \<open>\<open>str::parse::<u64>\<close>: an optional plus sign, then at least one digit, below \<open>2^64\<close>.\<close>

definition parse_u64 :: "string \<Rightarrow> nat option" where
  "parse_u64 s =
     (case s of [] \<Rightarrow> None
      | c # cs \<Rightarrow> if c = CHR ''+'' then (if cs = [] then None else parse_digits 0 cs)
                else parse_digits 0 s)"

definition digit_char :: "nat \<Rightarrow> char" where
  "digit_char n = char_of (48 + n)"

text \<open>\<open>Display\<close> of an unsigned integer.\<close>

fun show_nat :: "nat \<Rightarrow> string" where
  "show_nat n = (if n < 10 then [digit_char n] else show_nat (n div 10) @ [digit_char (n mod 10)])"

declare show_nat.simps [simp del]

lemma digit_char_props:
  assumes "n < 10"
  shows "is_ascii_digit (digit_char n)" "digit_val (digit_char n) = n"
proof -
  have "(of_char (digit_char n) :: nat) = 48 + n"
    using assms by (simp add: digit_char_def)
  then show "is_ascii_digit (digit_char n)" "digit_val (digit_char n) = n"
    using assms by (simp_all add: is_ascii_digit_def digit_val_def)
qed

lemma parse_digits_append:
  "parse_digits a (s @ t) = (case parse_digits a s of None \<Rightarrow> None | Some b \<Rightarrow> parse_digits b t)"
  by (induction a s rule: parse_digits.induct) auto

lemma parse_digits_show: "n < 2 ^ 64 \<Longrightarrow> parse_digits 0 (show_nat n) = Some n"
proof (induction n rule: show_nat.induct)
  case (1 n)
  show ?case
  proof (cases "n < 10")
    case True
    then show ?thesis using "1.prems" by (subst show_nat.simps) (simp add: digit_char_props)
  next
    case False
    have "n div 10 < 2 ^ 64" using "1.prems" by linarith
    with False "1.IH" have "parse_digits 0 (show_nat (n div 10)) = Some (n div 10)" by simp
    moreover have "n div 10 * 10 + n mod 10 = n" by simp
    ultimately show ?thesis using False "1.prems"
      by (subst show_nat.simps) (simp add: parse_digits_append digit_char_props)
  qed
qed

lemma show_nat_digits: "\<forall>c \<in> set (show_nat n). is_ascii_digit c"
proof (induction n rule: show_nat.induct)
  case (1 n)
  then show ?case by (subst show_nat.simps) (auto simp: digit_char_props)
qed

lemma show_nat_nonempty: "show_nat n \<noteq> []"
  by (subst show_nat.simps) simp

lemma plus_not_digit: "\<not> is_ascii_digit CHR ''+''"
  by (simp add: is_ascii_digit_def)

lemma parse_u64_show: "n < 2 ^ 64 \<Longrightarrow> parse_u64 (show_nat n) = Some n"
proof -
  assume n: "n < 2 ^ 64"
  obtain c cs where s: "show_nat n = c # cs" using show_nat_nonempty by (cases "show_nat n") auto
  with show_nat_digits [of n] plus_not_digit have "c \<noteq> CHR ''+''" by auto
  with s parse_digits_show [OF n] show ?thesis by (simp add: parse_u64_def)
qed

lemma parse_digits_bound: "parse_digits a s = Some n \<Longrightarrow> a < 2 ^ 64 \<Longrightarrow> n < 2 ^ 64"
  by (induction a s rule: parse_digits.induct) (auto split: if_splits)

lemma parse_u64_bound: "parse_u64 s = Some n \<Longrightarrow> n < 2 ^ 64"
  by (auto simp: parse_u64_def simp del: parse_digits.simps
      split: list.splits if_splits dest!: parse_digits_bound)

subsection \<open>Searching, joining, lower case\<close>

text \<open>\<open>rfind(c)\<close>: the index of the last occurrence.\<close>

fun rfind_from :: "nat \<Rightarrow> char \<Rightarrow> string \<Rightarrow> nat option" where
  "rfind_from i c [] = None"
| "rfind_from i c (x # xs) =
     (case rfind_from (Suc i) c xs of Some j \<Rightarrow> Some j
      | None \<Rightarrow> if x = c then Some i else None)"

definition rfind :: "char \<Rightarrow> string \<Rightarrow> nat option" where
  "rfind c s = rfind_from 0 c s"

lemma rfind_from_None: "rfind_from i c s = None \<longleftrightarrow> c \<notin> set s"
  by (induction i c s rule: rfind_from.induct) (auto split: option.splits)

lemma rfind_from_append:
  "c \<notin> set t \<Longrightarrow> rfind_from i c (s @ c # t) = Some (i + length s)"
proof (induction s arbitrary: i)
  case Nil
  then have "rfind_from (Suc i) c t = None" by (simp add: rfind_from_None)
  then show ?case by simp
next
  case (Cons x s)
  then show ?case by simp
qed

lemma rfind_append: "c \<notin> set t \<Longrightarrow> rfind c (s @ c # t) = Some (length s)"
  by (simp add: rfind_def rfind_from_append)

lemma rfind_from_Some:
  "rfind_from i c s = Some j \<Longrightarrow> i \<le> j \<and> j < i + length s \<and> s ! (j - i) = c \<and> c \<notin> set (drop (Suc j - i) s)"
proof (induction i c s arbitrary: j rule: rfind_from.induct)
  case (1 i c)
  then show ?case by simp
next
  case (2 i c x xs)
  show ?case
  proof (cases "rfind_from (Suc i) c xs")
    case None
    then have "c \<notin> set xs" by (simp add: rfind_from_None)
    with None "2.prems" show ?thesis by (auto split: if_splits)
  next
    case (Some k)
    with "2.prems" have j: "j = k" by simp
    from "2.IH" [OF Some] have "Suc i \<le> k \<and> k < Suc i + length xs \<and> xs ! (k - Suc i) = c
        \<and> c \<notin> set (drop (Suc k - Suc i) xs)" .
    moreover from this have "k - i = Suc (k - Suc i)" "Suc k - i = Suc (Suc k - Suc i)" by linarith+
    ultimately show ?thesis by (simp add: j)
  qed
qed

fun join :: "string \<Rightarrow> string list \<Rightarrow> string" where
  "join sep [] = []"
| "join sep [x] = x"
| "join sep (x # xs) = x @ sep @ join sep xs"

definition ascii_lower :: "char \<Rightarrow> char" where
  "ascii_lower c =
     (if 65 \<le> (of_char c :: nat) \<and> (of_char c :: nat) \<le> 90 then char_of (of_char c + 32 :: nat) else c)"

definition to_ascii_lowercase :: "string \<Rightarrow> string" where
  "to_ascii_lowercase s = map ascii_lower s"

text \<open>\<open>split(c)\<close>: the pieces between the occurrences of a separator.\<close>

fun split_on :: "char \<Rightarrow> string \<Rightarrow> string list" where
  "split_on c [] = [[]]"
| "split_on c (x # xs) =
     (if x = c then [] # split_on c xs
      else (case split_on c xs of [] \<Rightarrow> [[x]] | p # ps \<Rightarrow> (x # p) # ps))"

text \<open>\<open>replace(from, to)\<close>: non-overlapping occurrences, left to right.\<close>

function str_replace :: "string \<Rightarrow> string \<Rightarrow> string \<Rightarrow> string" where
  "str_replace f t s =
     (if f \<noteq> [] \<and> starts_with s f then t @ str_replace f t (drop (length f) s)
      else (case s of [] \<Rightarrow> [] | c # cs \<Rightarrow> c # str_replace f t cs))"
  by pat_completeness auto
termination
proof (relation "measure (\<lambda>(f, t, s). length s)", goal_cases)
  case 1
  show ?case by simp
next
  case (2 f t s)
  then show ?case using starts_with_length [of s f] by (cases f) auto
next
  case (3 f t s c cs)
  then show ?case by simp
qed

declare str_replace.simps [simp del]

end
