(* ===== verification/Mx_Json.thy ===== *)
theory Mx_Json
  imports Mx_Strings
begin

text \<open>
  The JSON values the program passes around (\<open>serde_json::Value\<close>) with the accessors the
  sources use. An object is an association list; a number is an integer or an opaque
  fractional literal, which no accessor used here reads as an integer.
\<close>

datatype json =
    JNull
  | JBool bool
  | JInt int
  | JFloat string
  | JStr string
  | JArr "json list"
  | JObj "(string \<times> json) list"

definition j_get :: "json \<Rightarrow> string \<Rightarrow> json option" where
  "j_get v k = (case v of JObj m \<Rightarrow> map_of m k | _ \<Rightarrow> None)"

definition as_str :: "json \<Rightarrow> string option" where
  "as_str v = (case v of JStr s \<Rightarrow> Some s | _ \<Rightarrow> None)"

definition as_u64 :: "json \<Rightarrow> nat option" where
  "as_u64 v = (case v of JInt i \<Rightarrow> if 0 \<le> i \<and> i < 2 ^ 64 then Some (nat i) else None | _ \<Rightarrow> None)"

definition as_i64 :: "json \<Rightarrow> int option" where
  "as_i64 v = (case v of JInt i \<Rightarrow> if - (2 ^ 63) \<le> i \<and> i < 2 ^ 63 then Some i else None | _ \<Rightarrow> None)"

definition as_bool :: "json \<Rightarrow> bool option" where
  "as_bool v = (case v of JBool b \<Rightarrow> Some b | _ \<Rightarrow> None)"

definition as_array :: "json \<Rightarrow> json list option" where
  "as_array v = (case v of JArr xs \<Rightarrow> Some xs | _ \<Rightarrow> None)"

definition as_object :: "json \<Rightarrow> (string \<times> json) list option" where
  "as_object v = (case v of JObj m \<Rightarrow> Some m | _ \<Rightarrow> None)"

abbreviation j_nat :: "nat \<Rightarrow> json" where
  "j_nat n \<equiv> JInt (int n)"

text \<open>\<open>v.get(k).and_then(|x| x.as_str())\<close> and its siblings.\<close>

definition get_str :: "json \<Rightarrow> string \<Rightarrow> string option" where
  "get_str v k = Option.bind (j_get v k) as_str"

definition get_u64 :: "json \<Rightarrow> string \<Rightarrow> nat option" where
  "get_u64 v k = Option.bind (j_get v k) as_u64"

definition get_array :: "json \<Rightarrow> string \<Rightarrow> json list option" where
  "get_array v k = Option.bind (j_get v k) as_array"

definition opt_or :: "'a option \<Rightarrow> 'a \<Rightarrow> 'a" where
  "opt_or m d = (case m of Some x \<Rightarrow> x | None \<Rightarrow> d)"

lemma opt_or_simps [simp]: "opt_or (Some x) d = x" "opt_or None d = d"
  by (simp_all add: opt_or_def)

lemma as_str_simps [simp]: "as_str (JStr s) = Some s" "as_str (JObj m) = None" "as_str (JInt i) = None"
    "as_str (JArr a) = None" "as_str JNull = None" "as_str (JBool b) = None" "as_str (JFloat f) = None"
  by (simp_all add: as_str_def)

lemma as_str_Some [simp]: "as_str v = Some s \<longleftrightarrow> v = JStr s"
  by (cases v) (auto simp: as_str_def)

lemma as_array_Some [simp]: "as_array v = Some xs \<longleftrightarrow> v = JArr xs"
  by (cases v) (auto simp: as_array_def)

lemma as_object_Some [simp]: "as_object v = Some m \<longleftrightarrow> v = JObj m"
  by (cases v) (auto simp: as_object_def)

lemma as_u64_bound: "as_u64 v = Some n \<Longrightarrow> n < 2 ^ 64"
  by (cases v) (auto simp: as_u64_def nat_less_iff split: if_splits)

lemma as_u64_j_nat: "n < 2 ^ 64 \<Longrightarrow> as_u64 (j_nat n) = Some n"
  by (simp add: as_u64_def)

lemma get_u64_bound: "get_u64 v k = Some n \<Longrightarrow> n < 2 ^ 64"
  by (auto simp: get_u64_def bind_eq_Some_conv dest!: as_u64_bound)

end
