(* ===== verification/Mx_Frame.thy ===== *)
theory Mx_Frame
  imports Mx_Json "HOL-Library.Word"
begin

text \<open>
  The framing of the wire (\<open>matrix-proto/src/frame.rs\<close>) and the classification of the first
  bytes of a connection (\<open>classify.rs\<close>). A byte is a \<open>char\<close>, the length prefix a 32 bit
  word. What a transport delivers is a list of chunks: a \<open>read\<close> answers at most the bytes
  asked for, and nothing when the stream has ended. The writer with a deadline takes what
  the clock, \<open>poll\<close> and \<open>send\<close> answer in each round.
\<close>

declare map_of_eq_Some_iff [simp del] Some_eq_map_of_iff [simp del]

unbundle bit_operations_syntax

definition DEFAULT_MAX_FRAME :: nat where
  "DEFAULT_MAX_FRAME = 1024 * 1024"

definition LEN_PREFIX :: nat where
  "LEN_PREFIX = 4"

datatype frame_error =
    TooLarge nat nat
  | Truncated nat nat
  | FrameIo string
  | FrameTimeout

fun show_frame_error :: "frame_error \<Rightarrow> string" where
  "show_frame_error (TooLarge declared mx) =
     ''frame declares '' @ show_nat declared @ '' bytes, max is '' @ show_nat mx"
| "show_frame_error (Truncated want got) =
     ''truncated frame: want '' @ show_nat want @ '' bytes, got '' @ show_nat got"
| "show_frame_error (FrameIo e) = ''io: '' @ e"
| "show_frame_error FrameTimeout = ''send budget exhausted''"

text \<open>\<open>u32::to_be_bytes\<close> and \<open>u32::from_be_bytes\<close>.\<close>

definition to_be_bytes :: "32 word \<Rightarrow> string" where
  "to_be_bytes w = [char_of (unat (drop_bit 24 w)), char_of (unat (drop_bit 16 w)), char_of (unat (drop_bit 8 w)), char_of (unat w)]"

definition from_be_bytes :: "char \<Rightarrow> char \<Rightarrow> char \<Rightarrow> char \<Rightarrow> 32 word" where
  "from_be_bytes a b c d = push_bit 24 (of_char a) OR push_bit 16 (of_char b) OR push_bit 8 (of_char c) OR of_char d"

definition encode :: "string \<Rightarrow> nat \<Rightarrow> (frame_error, string) result" where
  "encode payload max_frame =
     (if max_frame < length payload then Inl (TooLarge (length payload) max_frame)
      else if 2 ^ 32 - 1 < length payload then Inl (TooLarge (length payload) max_frame)
      else Inr (to_be_bytes (of_nat (length payload)) @ payload))"

definition split_frame :: "string \<Rightarrow> nat \<Rightarrow> (frame_error, (string \<times> string) option) result" where
  "split_frame buf max_frame =
     (case buf of
        a # b # c # d # rest \<Rightarrow>
          (let len = unat (from_be_bytes a b c d) in
           if max_frame < len then Inl (TooLarge len max_frame)
           else if length buf < LEN_PREFIX + len then Inr None
           else Inr (Some (take len rest, drop len rest)))
      | _ \<Rightarrow> Inr None)"

subsection \<open>Reading\<close>

datatype chunk = Data string | Broken string

text \<open>One \<open>read\<close> into a buffer of \<open>n\<close> bytes.\<close>

fun read :: "nat \<Rightarrow> chunk list \<Rightarrow> chunk list \<times> (string, string) result" where
  "read n [] = ([], Inr [])"
| "read n (Broken e # cs) = (cs, Inl e)"
| "read n (Data d # cs) = (if length d \<le> n then (cs, Inr d) else (Data (drop n d) # cs, Inr (take n d)))"

fun chunk_size :: "chunk \<Rightarrow> nat" where
  "chunk_size (Data d) = Suc (length d)"
| "chunk_size (Broken e) = 1"

lemma read_shrinks:
  "read n cs = (cs', Inr d) \<Longrightarrow> d \<noteq> [] \<Longrightarrow> sum_list (map chunk_size cs') < sum_list (map chunk_size cs)"
  by (induction n cs rule: read.induct) (auto split: if_splits)

text \<open>The loop that fills a buffer: it ends when the buffer is full, the stream has ended or a read fails.\<close>

function fill :: "nat \<Rightarrow> string \<Rightarrow> chunk list \<Rightarrow> chunk list \<times> (string, string) result" where
  "fill want got cs =
     (if length got < want
      then (case read (want - length got) cs of
              (cs', Inl e) \<Rightarrow> (cs', Inl e)
            | (cs', Inr d) \<Rightarrow> if d = [] then (cs', Inr got) else fill want (got @ d) cs')
      else (cs, Inr got))"
  by pat_completeness auto
termination
  by (relation "measure (\<lambda>(want, got, cs). sum_list (map chunk_size cs))") (auto dest!: read_shrinks [OF sym])

declare fill.simps [simp del]

definition read_len :: "chunk list \<Rightarrow> chunk list \<times> (frame_error, 32 word option) result" where
  "read_len cs =
     (case fill LEN_PREFIX [] cs of
        (cs', Inl e) \<Rightarrow> (cs', Inl (FrameIo e))
      | (cs', Inr hdr) \<Rightarrow>
          (cs', case hdr of
                  [] \<Rightarrow> Inr None
                | [a, b, c, d] \<Rightarrow> Inr (Some (from_be_bytes a b c d))
                | _ \<Rightarrow> Inl (Truncated LEN_PREFIX (length hdr))))"

definition read_frame :: "nat \<Rightarrow> chunk list \<Rightarrow> chunk list \<times> (frame_error, string option) result" where
  "read_frame max_frame cs =
     (case read_len cs of
        (cs1, Inl e) \<Rightarrow> (cs1, Inl e)
      | (cs1, Inr None) \<Rightarrow> (cs1, Inr None)
      | (cs1, Inr (Some len)) \<Rightarrow>
          if max_frame < unat len then (cs1, Inl (TooLarge (unat len) max_frame))
          else (case fill (unat len) [] cs1 of
                  (cs2, Inl e) \<Rightarrow> (cs2, Inl (FrameIo e))
                | (cs2, Inr buf) \<Rightarrow>
                    if length buf < unat len then (cs2, Inl (Truncated (unat len) (length buf)))
                    else (cs2, Inr (Some buf))))"

text \<open>
  Writing: the outcome of a \<open>write_all\<close> or a \<open>flush\<close> is \<open>None\<close> for success, or the number of
  bytes that went out before it failed and the error.
\<close>

type_synonym write_outcome = "(nat \<times> string) option"

definition write_all :: "write_outcome \<Rightarrow> string \<Rightarrow> string \<Rightarrow> string \<times> (frame_error, unit) result" where
  "write_all out bytes sink =
     (case out of None \<Rightarrow> (sink @ bytes, Inr ()) | Some (n, e) \<Rightarrow> (sink @ take n bytes, Inl (FrameIo e)))"

definition write_frame ::
  "write_outcome \<Rightarrow> write_outcome \<Rightarrow> write_outcome \<Rightarrow> string \<Rightarrow> string \<Rightarrow> string \<times> (frame_error, unit) result" where
  "write_frame out1 out2 out3 payload sink =
     (case write_all out1 (to_be_bytes (of_nat (length payload))) sink of
        (s1, Inl e) \<Rightarrow> (s1, Inl e)
      | (s1, Inr _) \<Rightarrow>
          (case write_all out2 payload s1 of
             (s2, Inl e) \<Rightarrow> (s2, Inl e)
           | (s2, Inr _) \<Rightarrow> write_all out3 [] s2))"

subsection \<open>Writing within a budget\<close>

datatype lock_try = LockGot | LockBusy | LockPoisoned

datatype poll_result = PollReady "16 word" | PollTimeout | PollError nat string

datatype send_result = Sent nat | SendError nat string

record writer_env =
  we_clock :: "nat \<Rightarrow> nat"
  we_lock :: "nat \<Rightarrow> lock_try"
  we_poll :: "nat \<Rightarrow> poll_result"
  we_send :: "nat \<Rightarrow> nat \<Rightarrow> send_result"

record sent_frame =
  sf_wire :: string
  sf_poisoned :: bool
  sf_result :: "(frame_error, unit) result"

definition POLLOUT :: "16 word" where "POLLOUT = 0x0004"
definition POLLERR :: "16 word" where "POLLERR = 0x0008"
definition POLLHUP :: "16 word" where "POLLHUP = 0x0010"
definition POLLNVAL :: "16 word" where "POLLNVAL = 0x0020"
definition EAGAIN :: nat where "EAGAIN = 11"
definition EINTR :: nat where "EINTR = 4"

definition peer_closed :: "16 word \<Rightarrow> bool" where
  "peer_closed revents \<longleftrightarrow> revents AND (POLLERR OR POLLHUP OR POLLNVAL) \<noteq> 0 \<and> revents AND POLLOUT = 0"

definition done_with :: "string \<Rightarrow> bool \<Rightarrow> (frame_error, unit) result \<Rightarrow> sent_frame" where
  "done_with wire poisoned r = \<lparr>sf_wire = wire, sf_poisoned = poisoned, sf_result = r\<rparr>"

text \<open>The wait for the lock; \<open>n\<close> counts the rounds. It answers the round in which the lock was taken.\<close>

partial_function (option) lock_writer :: "writer_env \<Rightarrow> nat \<Rightarrow> nat \<Rightarrow> (frame_error, nat) result option" where
  "lock_writer env deadline n =
     (case we_lock env n of
        LockGot \<Rightarrow> Some (Inr n)
      | LockPoisoned \<Rightarrow> Some (Inl (FrameIo ''writer poisoned''))
      | LockBusy \<Rightarrow> if deadline \<le> we_clock env n then Some (Inl FrameTimeout) else lock_writer env deadline (n + 1))"

text \<open>The rounds of \<open>poll\<close> and \<open>send\<close>; \<open>wire\<close> is what went out so far.\<close>

partial_function (option) send_rounds :: "writer_env \<Rightarrow> nat \<Rightarrow> string \<Rightarrow> nat \<Rightarrow> string \<Rightarrow> sent_frame option" where
  "send_rounds env deadline frame n wire =
     (if length wire < length frame
      then if deadline \<le> we_clock env n then Some (done_with wire (wire \<noteq> []) (Inl FrameTimeout))
           else (case we_poll env n of
                   PollTimeout \<Rightarrow> Some (done_with wire (wire \<noteq> []) (Inl FrameTimeout))
                 | PollError code e \<Rightarrow>
                     if code = EINTR then send_rounds env deadline frame (n + 1) wire
                     else Some (done_with wire (wire \<noteq> []) (Inl (FrameIo e)))
                 | PollReady revents \<Rightarrow>
                     if peer_closed revents then Some (done_with wire True (Inl (FrameIo ''peer closed mid-frame'')))
                     else (case we_send env n (length frame - length wire) of
                             Sent k \<Rightarrow>
                               if 0 < k then send_rounds env deadline frame (n + 1) (wire @ take k (drop (length wire) frame))
                               else Some (done_with wire True (Inl (FrameIo ''peer closed mid-frame'')))
                           | SendError code e \<Rightarrow>
                               if code = EAGAIN \<or> code = EINTR then send_rounds env deadline frame (n + 1) wire
                               else Some (done_with wire True (Inl (FrameIo e)))))
      else if deadline \<le> we_clock env n then Some (done_with wire True (Inl FrameTimeout))
      else Some (done_with wire False (Inr ())))"

definition write_frame_deadline :: "writer_env \<Rightarrow> nat \<Rightarrow> string \<Rightarrow> nat \<Rightarrow> sent_frame option" where
  "write_frame_deadline env start frame budget =
     (case lock_writer env (start + budget) 0 of
        None \<Rightarrow> None
      | Some (Inl e) \<Rightarrow> Some (done_with [] False (Inl e))
      | Some (Inr n) \<Rightarrow>
          if frame = [] then Some (done_with [] False (Inr ()))
          else send_rounds env (start + budget) frame (n + 1) [])"

subsection \<open>Classification\<close>

datatype wire_kind = MatrixFrame | LegacyLine | UnknownWire

definition PROTOCOL_ID :: string where
  "PROTOCOL_ID = ''matrix.component''"

text \<open>\<open>from_slice\<close> is the JSON parser of the \<open>serde_json\<close> package.\<close>

definition classify_new :: "(string \<Rightarrow> json option) \<Rightarrow> string \<Rightarrow> nat \<Rightarrow> wire_kind option" where
  "classify_new from_slice buf max_frame =
     (case buf of
        a # b # c # d # rest \<Rightarrow>
          (let len = unat (from_be_bytes a b c d) in
           if len = 0 \<or> max_frame < len \<or> length buf < LEN_PREFIX + len then None
           else (case from_slice (take len rest) of
                   None \<Rightarrow> None
                 | Some v \<Rightarrow> if get_str v ''protocol'' = Some PROTOCOL_ID then Some MatrixFrame else None))
      | _ \<Rightarrow> None)"

definition classify_legacy :: "(string \<Rightarrow> json option) \<Rightarrow> string \<Rightarrow> bool" where
  "classify_legacy from_slice buf \<longleftrightarrow>
     CHR 0x0A \<in> set buf \<and>
     (case from_slice (takeWhile (\<lambda>c. c \<noteq> CHR 0x0A) buf) of None \<Rightarrow> False | Some v \<Rightarrow> get_str v ''verb'' \<noteq> None)"

definition classify :: "(string \<Rightarrow> json option) \<Rightarrow> string \<Rightarrow> nat \<Rightarrow> wire_kind" where
  "classify from_slice buf max_frame =
     (case classify_new from_slice buf max_frame of
        Some kind \<Rightarrow> kind
      | None \<Rightarrow> if classify_legacy from_slice buf then LegacyLine else UnknownWire)"

subsection \<open>Lengths\<close>

lemma of_char_word: "(of_char c :: 32 word) = of_nat (of_char c)"
  by (simp add: of_char_def)

lemma byte_of_word: "(of_char (char_of (unat (w :: 32 word)) :: char) :: 32 word) = take_bit 8 w"
proof -
  have "of_char (char_of (unat w) :: char) = take_bit 8 (unat w)"
    by (simp add: take_bit_eq_mod)
  then have "(of_char (char_of (unat w) :: char) :: 32 word) = of_nat (take_bit 8 (unat w))"
    by (simp add: of_char_word)
  also have "\<dots> = take_bit 8 w"
    by (rule bit_word_eqI) (auto simp: bit_simps)
  finally show ?thesis .
qed

lemma be_bytes_roundtrip:
  "from_be_bytes (char_of (unat (drop_bit 24 w))) (char_of (unat (drop_bit 16 w))) (char_of (unat (drop_bit 8 w))) (char_of (unat w)) = w"
proof (rule bit_word_eqI)
  fix n assume n: "n < LENGTH(32)"
  show "bit (from_be_bytes (char_of (unat (drop_bit 24 w))) (char_of (unat (drop_bit 16 w))) (char_of (unat (drop_bit 8 w))) (char_of (unat w))) n = bit w n"
    unfolding from_be_bytes_def byte_of_word using n by (cases "16 \<le> n"; cases "24 \<le> n") (auto simp: bit_simps)
qed

lemma encode_Inr:
  "encode p mx = Inr f \<longleftrightarrow> length p \<le> mx \<and> length p < 2 ^ 32 \<and> f = to_be_bytes (of_nat (length p)) @ p"
  by (auto simp: encode_def)

lemma split_to_be_bytes:
  "split_frame (to_be_bytes w @ s) mx =
     (if mx < unat w then Inl (TooLarge (unat w) mx)
      else if length s < unat w then Inr None else Inr (Some (take (unat w) s, drop (unat w) s)))"
  by (simp add: split_frame_def to_be_bytes_def be_bytes_roundtrip Let_def LEN_PREFIX_def)

lemma split_encoded:
  assumes "encode p mx = Inr f"
  shows "split_frame (f @ rest) mx = Inr (Some (p, rest))"
proof -
  have "unat (of_nat (length p) :: 32 word) = length p"
    using assms by (simp add: encode_Inr unat_of_nat)
  then show ?thesis
    using assms by (simp add: encode_Inr split_to_be_bytes)
qed

subsection \<open>Any chunking delivers the same frames\<close>

fun chunk_bytes :: "chunk \<Rightarrow> string" where
  "chunk_bytes (Data d) = d"
| "chunk_bytes (Broken e) = []"

definition stream_bytes :: "chunk list \<Rightarrow> string" where
  "stream_bytes cs = concat (map chunk_bytes cs)"

text \<open>A transport in order: every read before the end of the stream delivers something.\<close>

definition in_order :: "chunk list \<Rightarrow> bool" where
  "in_order cs \<longleftrightarrow> (\<forall>c \<in> set cs. \<exists>d. c = Data d \<and> d \<noteq> [])"

lemma read_in_order:
  assumes "in_order cs" "0 < n"
  obtains cs' where "read n cs = (cs', Inr (take (length (stream_bytes cs) - length (stream_bytes cs')) (stream_bytes cs)))"
    "in_order cs'" "stream_bytes cs' = drop (length (stream_bytes cs) - length (stream_bytes cs')) (stream_bytes cs)"
    "length (stream_bytes cs) - length (stream_bytes cs') \<le> n"
    "cs \<noteq> [] \<longleftrightarrow> length (stream_bytes cs') < length (stream_bytes cs)"
proof (cases cs)
  case Nil
  then show ?thesis using that [of "[]"] assms by (simp add: stream_bytes_def)
next
  case (Cons c cs1)
  then obtain d where d: "c = Data d" "d \<noteq> []" "in_order cs1" using assms by (auto simp: in_order_def)
  show ?thesis
  proof (cases "length d \<le> n")
    case True
    then show ?thesis using that [of cs1] d Cons by (simp add: stream_bytes_def)
  next
    case False
    then show ?thesis using that [of "Data (drop n d) # cs1"] d Cons assms(2)
      by (simp add: stream_bytes_def in_order_def)
  qed
qed

lemma fill_in_order:
  assumes "in_order cs"
  shows "\<exists>cs'. fill want got cs = (cs', Inr (got @ take (want - length got) (stream_bytes cs))) \<and>
     in_order cs' \<and> stream_bytes cs' = drop (want - length got) (stream_bytes cs)"
  using assms
proof (induction want got cs rule: fill.induct)
  case (1 want got cs)
  show ?case
  proof (cases "length got < want")
    case True
    obtain cs' where r: "read (want - length got) cs = (cs', Inr (take (length (stream_bytes cs) - length (stream_bytes cs')) (stream_bytes cs)))"
      "in_order cs'" "stream_bytes cs' = drop (length (stream_bytes cs) - length (stream_bytes cs')) (stream_bytes cs)"
      "length (stream_bytes cs) - length (stream_bytes cs') \<le> want - length got"
      "cs \<noteq> [] \<longleftrightarrow> length (stream_bytes cs') < length (stream_bytes cs)"
      using read_in_order [OF 1(2), of "want - length got"] True by auto
    define k where "k = length (stream_bytes cs) - length (stream_bytes cs')"
    note r = r [folded k_def]
    show ?thesis
    proof (cases "cs = []")
      case True
      then show ?thesis by (subst fill.simps) (simp add: stream_bytes_def in_order_def)
    next
      case False
      then have ne: "take k (stream_bytes cs) \<noteq> []" using r(5) by (auto simp: k_def)
      have len: "length (take k (stream_bytes cs)) = k" by (simp add: k_def)
      from 1(1) [OF True r(1) [symmetric] refl ne r(2)] obtain cs2 where
        "fill want (got @ take k (stream_bytes cs)) cs' =
           (cs2, Inr ((got @ take k (stream_bytes cs)) @ take (want - length got - k) (stream_bytes cs')))"
        "in_order cs2" "stream_bytes cs2 = drop (want - length got - k) (stream_bytes cs')"
        using len by auto
      moreover have "take k (stream_bytes cs) @ take (want - length got - k) (stream_bytes cs') = take (want - length got) (stream_bytes cs)"
        using r(3,4) by (metis le_add_diff_inverse take_add)
      moreover have "drop (want - length got - k) (stream_bytes cs') = drop (want - length got) (stream_bytes cs)"
        using r(3,4) by (metis drop_drop le_add_diff_inverse2)
      ultimately show ?thesis using True r(1) ne by (subst fill.simps) simp
    qed
  next
    case False
    then show ?thesis using 1(2) by (subst fill.simps) simp
  qed
qed

text \<open>The reader of a stream and the splitter of a buffer agree.\<close>

lemma read_frame_split:
  assumes "in_order cs"
  shows "case split_frame (stream_bytes cs) mx of
      Inl e \<Rightarrow> snd (read_frame mx cs) = Inl e
    | Inr None \<Rightarrow> (if stream_bytes cs = [] then snd (read_frame mx cs) = Inr None
                   else \<exists>want got. snd (read_frame mx cs) = Inl (Truncated want got))
    | Inr (Some (f, rest)) \<Rightarrow>
        (\<exists>cs'. read_frame mx cs = (cs', Inr (Some f)) \<and> in_order cs' \<and> stream_bytes cs' = rest)"
proof -
  obtain cs1 where h: "fill LEN_PREFIX [] cs = (cs1, Inr (take LEN_PREFIX (stream_bytes cs)))"
    "in_order cs1" "stream_bytes cs1 = drop LEN_PREFIX (stream_bytes cs)"
    using fill_in_order [OF assms, of LEN_PREFIX "[]"] by auto
  show ?thesis
  proof (cases "\<exists>a b c d rest. stream_bytes cs = a # b # c # d # rest")
    case True
    then obtain a b c d rest where s: "stream_bytes cs = a # b # c # d # rest" by blast
    define len where "len = unat (from_be_bytes a b c d)"
    have l: "read_len cs = (cs1, Inr (Some (from_be_bytes a b c d)))"
      using h(1) s by (simp add: read_len_def LEN_PREFIX_def)
    obtain cs2 where "fill len [] cs1 = (cs2, Inr (take len rest))" "in_order cs2" "stream_bytes cs2 = drop len rest"
      using fill_in_order [OF h(2), of len "[]"] h(3) s by (auto simp: LEN_PREFIX_def)
    then show ?thesis
      unfolding s using l by (simp add: split_frame_def read_frame_def Let_def LEN_PREFIX_def flip: len_def)
  next
    case False
    then have "\<not> LEN_PREFIX \<le> length (stream_bytes cs)"
      by (auto simp: LEN_PREFIX_def numeral_eq_Suc Suc_le_length_iff)
    then have "take LEN_PREFIX (stream_bytes cs) = stream_bytes cs" "split_frame (stream_bytes cs) mx = Inr None"
      using False by (auto simp: split_frame_def split: list.splits)
    moreover have "case stream_bytes cs of [] \<Rightarrow> True | [a, b, c, d] \<Rightarrow> False | _ \<Rightarrow> True"
      using False by (auto split: list.splits)
    ultimately show ?thesis
      using h(1) by (auto simp: read_frame_def read_len_def split: list.splits)
  qed
qed

fun read_frames :: "nat \<Rightarrow> nat \<Rightarrow> chunk list \<Rightarrow> (frame_error, string option) result list" where
  "read_frames mx 0 cs = []"
| "read_frames mx (Suc n) cs = (case read_frame mx cs of (cs', r) \<Rightarrow> r # read_frames mx n cs')"

text \<open>C36. What was framed is what is read: however the transport cuts the bytes of a sequence of frames
  into pieces, the reader delivers exactly the payloads, in order, and then the clean end of
  the stream.\<close>

theorem frames_survive_chunking:
  assumes "list_all2 (\<lambda>p f. encode p mx = Inr f) ps fs" "in_order cs" "stream_bytes cs = concat fs"
  shows "read_frames mx (length ps + 1) cs = map (\<lambda>p. Inr (Some p)) ps @ [Inr None]"
  using assms
proof (induction ps fs arbitrary: cs rule: list_all2_induct)
  case Nil
  then show ?case using read_frame_split [of cs mx] by (simp add: split_frame_def case_prod_beta)
next
  case (Cons p ps f fs)
  then have "split_frame (stream_bytes cs) mx = Inr (Some (p, concat fs))"
    by (simp add: split_encoded)
  then obtain cs' where "read_frame mx cs = (cs', Inr (Some p))" "in_order cs'" "stream_bytes cs' = concat fs"
    using read_frame_split [OF Cons(4), of mx] by auto
  then show ?case using Cons.IH by simp
qed

theorem frames_survive_chunking_witness:
  "read_frames 16 3 [Data [CHR 0x00, CHR 0x00], Data [CHR 0x00, CHR 0x02, CHR ''{''], Data (CHR ''}'' # [CHR 0x00, CHR 0x00, CHR 0x00, CHR 0x00])]
     = [Inr (Some ''{}''), Inr (Some []), Inr None]"
proof -
  have "encode ''{}'' 16 = Inr ([CHR 0x00, CHR 0x00, CHR 0x00, CHR 0x02] @ ''{}'')"
    "encode [] 16 = Inr [CHR 0x00, CHR 0x00, CHR 0x00, CHR 0x00]"
    by (simp_all add: encode_def to_be_bytes_def char_of_def bit_Suc_0_iff)
  then show ?thesis
    using frames_survive_chunking [of 16 "[''{}'', []]"
        "[[CHR 0x00, CHR 0x00, CHR 0x00, CHR 0x02] @ ''{}'', [CHR 0x00, CHR 0x00, CHR 0x00, CHR 0x00]]"
        "[Data [CHR 0x00, CHR 0x00], Data [CHR 0x00, CHR 0x02, CHR ''{''], Data (CHR ''}'' # [CHR 0x00, CHR 0x00, CHR 0x00, CHR 0x00])]"]
    by (simp add: in_order_def stream_bytes_def numeral_3_eq_3)
qed

subsection \<open>The writer with a budget\<close>

definition fails_closed :: "string \<Rightarrow> nat \<Rightarrow> writer_env \<Rightarrow> sent_frame \<Rightarrow> bool" where
  "fails_closed frame deadline env y \<longleftrightarrow>
     take (length (sf_wire y)) frame = sf_wire y \<and>
     (case sf_result y of
        Inr _ \<Rightarrow> sf_wire y = frame \<and> \<not> sf_poisoned y \<and> (frame = [] \<or> (\<exists>n. we_clock env n < deadline))
      | Inl _ \<Rightarrow> sf_wire y \<noteq> [] \<longrightarrow> sf_poisoned y)"

lemma wire_extend:
  "take (length wire) frame = wire \<Longrightarrow>
     take (length (wire @ take k (drop (length wire) frame))) frame = wire @ take k (drop (length wire) frame)"
  by (metis append_take_drop_id length_append take_add take_all_iff nle_le length_take min_def)

lemma lock_writer_returns:
  assumes "deadline \<le> we_clock env m" "n \<le> m"
  shows "\<exists>r. lock_writer env deadline n = Some r"
  using assms(2)
proof (induction "m - n" arbitrary: n)
  case 0
  then show ?case using assms(1) by (subst lock_writer.simps) (auto split: lock_try.split)
next
  case (Suc x)
  then have "\<exists>r. lock_writer env deadline (n + 1) = Some r" by simp
  then show ?case by (subst lock_writer.simps) (auto split: lock_try.split)
qed

lemma send_rounds_returns:
  assumes "deadline \<le> we_clock env m" "n \<le> m" "take (length wire) frame = wire"
  shows "\<exists>y. send_rounds env deadline frame n wire = Some y \<and> (frame \<noteq> [] \<longrightarrow> fails_closed frame deadline env y)"
  using assms(2,3)
proof (induction "m - n" arbitrary: n wire)
  case 0
  then show ?case using assms(1)
    by (subst send_rounds.simps) (auto simp: fails_closed_def done_with_def)
next
  case (Suc x)
  then have next_round: "\<exists>y. send_rounds env deadline frame (n + 1) w = Some y \<and> (frame \<noteq> [] \<longrightarrow> fails_closed frame deadline env y)"
    if "take (length w) frame = w" for w
    using that by simp
  show ?case
  proof (cases "length wire < length frame")
    case True
    then show ?thesis
      using next_round [OF Suc(4)] next_round [OF wire_extend [OF Suc(4)]] Suc(4)
      by (subst send_rounds.simps)
        (auto simp: fails_closed_def done_with_def split: poll_result.split send_result.split)
  next
    case False
    then have "wire = frame" using Suc(4) by simp
    then show ?thesis
      by (subst send_rounds.simps) (auto simp: fails_closed_def done_with_def not_le)
  qed
qed



end
