(* ===== verification/Mx_Wire.thy ===== *)
theory Mx_Wire
  imports Mx_Frame
begin

text \<open>
  The vocabulary of the component protocol: stable error codes (\<open>matrix-proto/src/error.rs\<close>),
  the bodies of the dependency extension (\<open>dependency.rs\<close>), and the handshake with its window
  of seen ids (\<open>handshake.rs\<close>).
\<close>

declare map_of_eq_Some_iff [simp del] Some_eq_map_of_iff [simp del]

subsection \<open>Errors\<close>

record wire_error =
  we_code :: string
  we_request_id :: "string option"
  we_phase :: string
  we_details :: json

definition wire_error_new :: "string \<Rightarrow> string \<Rightarrow> wire_error" where
  "wire_error_new code phase = \<lparr>we_code = code, we_request_id = None, we_phase = phase, we_details = JNull\<rparr>"

definition with_request :: "string \<Rightarrow> wire_error \<Rightarrow> wire_error" where
  "with_request i e = e\<lparr>we_request_id := Some i\<rparr>"

definition with_details :: "json \<Rightarrow> wire_error \<Rightarrow> wire_error" where
  "with_details d e = e\<lparr>we_details := d\<rparr>"

definition wire_error_value :: "wire_error \<Rightarrow> json" where
  "wire_error_value e =
     JObj [(''code'', JStr (we_code e)),
           (''request_id'', case we_request_id e of None \<Rightarrow> JNull | Some i \<Rightarrow> JStr i),
           (''phase'', JStr (we_phase e)), (''details'', we_details e)]"

definition STABLE_CODES :: "string list" where
  "STABLE_CODES =
     [''invalid-message'', ''unsupported-version'', ''unauthenticated'', ''permission-denied'',
      ''dependency-unavailable'', ''ambiguous-provider'', ''stale-generation'', ''context-not-active'',
      ''resource-exhausted'', ''deadline-exceeded'', ''cancelled'', ''cleanup-pending'',
      ''outcome-unknown'', ''internal'']"

definition kernel_code_to_wire :: "string \<Rightarrow> string" where
  "kernel_code_to_wire code =
     (if code \<in> {''invalid-message'', ''invalid-pin''} then ''invalid-message''
      else if code = ''unsupported-version'' then ''unsupported-version''
      else if code = ''unauthenticated'' then ''unauthenticated''
      else if code = ''permission-denied'' then ''permission-denied''
      else if code = ''dependency-unavailable'' then ''dependency-unavailable''
      else if code = ''ambiguous-provider'' then ''ambiguous-provider''
      else if code \<in> {''stale-generation'', ''stale-handle''} then ''stale-generation''
      else if code \<in> {''context-not-active'', ''plugin-not-active'', ''plugin-not-loaded'', ''no-such-capability''}
      then (if code = ''no-such-capability'' then ''invalid-message'' else ''context-not-active'')
      else if code = ''resource-exhausted'' then ''resource-exhausted''
      else if code = ''deadline-exceeded'' then ''deadline-exceeded''
      else if code = ''cancelled'' then ''cancelled''
      else if code = ''cleanup-pending'' then ''cleanup-pending''
      else if code = ''outcome-unknown'' then ''outcome-unknown''
      else ''internal'')"

lemma kernel_code_stable: "kernel_code_to_wire code \<in> set STABLE_CODES"
  by (simp add: kernel_code_to_wire_def STABLE_CODES_def)

subsection \<open>The dependency extension\<close>

definition DEPENDENCY_CALLS_1 :: string where
  "DEPENDENCY_CALLS_1 = ''dependency-calls/1''"

definition DEP_MAX_ID_LEN :: nat where
  "DEP_MAX_ID_LEN = 256"

definition FORBIDDEN_OPEN_FIELDS :: "string list" where
  "FORBIDDEN_OPEN_FIELDS = [''provider'', ''grant'', ''grants'', ''principal'', ''executable'', ''entrypoint'', ''path'']"

definition dep_bad :: "string \<Rightarrow> wire_error" where
  "dep_bad reason = with_details (JObj [(''reason'', JStr reason)]) (wire_error_new ''invalid-message'' ''dependency'')"

definition dep_bad_field :: "string \<Rightarrow> string \<Rightarrow> wire_error" where
  "dep_bad_field field reason =
     with_details (JObj [(''field'', JStr field), (''reason'', JStr reason)]) (wire_error_new ''invalid-message'' ''dependency'')"

definition dep_check_id :: "json \<Rightarrow> string \<Rightarrow> (wire_error, string) result" where
  "dep_check_id body field =
     (case get_str body field of
        Some s \<Rightarrow> if s \<noteq> [] \<and> length s \<le> DEP_MAX_ID_LEN then Inr s else Inl (dep_bad_field field ''empty or oversize id'')
      | None \<Rightarrow> Inl (dep_bad_field field ''missing id''))"

definition dep_error_ok :: "(string \<times> json) list \<Rightarrow> bool" where
  "dep_error_ok err =
     (case (get_str (JObj err) ''code'', get_str (JObj err) ''message'') of
        (Some c, Some _) \<Rightarrow> c \<noteq> []
      | _ \<Rightarrow> False)"

definition dep_validate_open :: "json \<Rightarrow> (wire_error, unit) result" where
  "dep_validate_open body =
     bind_result (dep_check_id body ''parent_ticket'') (\<lambda>_.
     bind_result (dep_check_id body ''binding_id'') (\<lambda>_.
     bind_result (ensure (case get_u64 body ''timeout_ms'' of Some n \<Rightarrow> 0 < n | None \<Rightarrow> False)
                 (dep_bad_field ''timeout_ms'' ''positive integer required'')) (\<lambda>_.
     bind_result (ensure (j_get body ''input'' \<noteq> None) (dep_bad_field ''input'' ''missing input'')) (\<lambda>_.
     for_each (\<lambda>f. ensure (j_get body f = None) (dep_bad_field f ''authority must not come from payload''))
       FORBIDDEN_OPEN_FIELDS))))"

definition dep_validate_result :: "json \<Rightarrow> (wire_error, unit) result" where
  "dep_validate_result body =
     (let status = get_str body ''status'' in
      if status = Some ''ok''
      then ensure (j_get body ''output'' \<noteq> None) (dep_bad_field ''output'' ''ok requires output'')
      else if status = Some ''error''
      then (case Option.bind (j_get body ''error'') as_object of
              None \<Rightarrow> Inl (dep_bad_field ''error'' ''error requires {code, message}'')
            | Some err \<Rightarrow> ensure (dep_error_ok err) (dep_bad_field ''error'' ''error requires non-empty code and message''))
      else Inl (dep_bad_field ''status'' ''must be ok or error''))"

definition dep_validate_body :: "string \<Rightarrow> json \<Rightarrow> (wire_error, unit) result" where
  "dep_validate_body ty body =
     (if ty = ''dependency.open'' then dep_validate_open body
      else if ty = ''dependency.accepted'' then bind_result (dep_check_id body ''child_ticket'') (\<lambda>_. Inr ())
      else if ty = ''dependency.result'' then dep_validate_result body
      else if ty = ''dependency.cancel'' then bind_result (dep_check_id body ''target_request_id'') (\<lambda>_. Inr ())
      else if ty = ''dependency.cancel.result''
      then bind_result (dep_check_id body ''target_request_id'') (\<lambda>_.
             ensure (get_str body ''state'' \<in> {Some ''revoked'', Some ''terminal''})
               (dep_bad_field ''state'' ''must be revoked or terminal''))
      else Inl (dep_bad ''unknown dependency message''))"

definition feature_entry :: "json \<Rightarrow> (wire_error, string) result" where
  "feature_entry e =
     (case as_str e of
        Some s \<Rightarrow> if s \<noteq> [] \<and> length s \<le> 128 then Inr s
                   else Inl (dep_bad_field ''features'' ''entries must be non-empty strings'')
      | None \<Rightarrow> Inl (dep_bad_field ''features'' ''entries must be non-empty strings''))"

definition hello_features :: "json \<Rightarrow> (wire_error, string list) result" where
  "hello_features body =
     (case j_get body ''features'' of
        None \<Rightarrow> Inr []
      | Some v \<Rightarrow>
          (case as_array v of
             None \<Rightarrow> Inl (dep_bad_field ''features'' ''array of strings required'')
           | Some arr \<Rightarrow>
               if 64 < length arr then Inl (dep_bad_field ''features'' ''too many entries'')
               else collect_results feature_entry arr))"

definition intersect :: "string list \<Rightarrow> string list \<Rightarrow> string list" where
  "intersect supported offered = filter (\<lambda>s. s \<in> set offered) supported"

subsection \<open>The handshake\<close>

definition PROTOCOL_VERSION :: string where
  "PROTOCOL_VERSION = ''0.1''"

definition SUPPORTED_VERSIONS :: "string list" where
  "SUPPORTED_VERSIONS = [PROTOCOL_VERSION]"

definition SUPPORTED_FEATURES :: "string list" where
  "SUPPORTED_FEATURES = [DEPENDENCY_CALLS_1]"

record limits =
  li_max_frame :: nat
  li_max_calls :: nat
  li_max_queue_bytes :: nat
  li_max_streams :: nat

definition limits_default :: limits where
  "limits_default =
     \<lparr>li_max_frame = DEFAULT_MAX_FRAME, li_max_calls = 64, li_max_queue_bytes = 4 * 1024 * 1024, li_max_streams = 16\<rparr>"

record welcome_msg =
  wl_version :: string
  wl_session_id :: string
  wl_max_frame :: nat
  wl_limits :: limits
  wl_features :: "string list"

definition negotiate :: "string list \<Rightarrow> string list \<Rightarrow> nat \<Rightarrow> string \<Rightarrow> (wire_error, welcome_msg) result" where
  "negotiate offered offered_features want_frame session_id =
     (case find (\<lambda>v. v \<in> set offered) SUPPORTED_VERSIONS of
        None \<Rightarrow> Inl (with_details (JObj [(''offered'', JArr (map JStr offered)), (''supported'', JArr (map JStr SUPPORTED_VERSIONS))])
                     (wire_error_new ''unsupported-version'' ''handshake''))
      | Some version \<Rightarrow>
          (let max_frame = max (min want_frame DEFAULT_MAX_FRAME) 1024 in
           Inr \<lparr>wl_version = version, wl_session_id = session_id, wl_max_frame = max_frame,
                wl_limits = limits_default\<lparr>li_max_frame := max_frame\<rparr>,
                wl_features = intersect SUPPORTED_FEATURES offered_features\<rparr>))"

record envelope =
  en_type :: string
  en_message_id :: string
  en_session_id :: "string option"
  en_instance_id :: "string option"
  en_generation :: "nat option"
  en_request_id :: "string option"
  en_body :: json

definition handshake_bad :: "string \<Rightarrow> wire_error" where
  "handshake_bad reason = with_details (JObj [(''reason'', JStr reason)]) (wire_error_new ''invalid-message'' ''handshake'')"

definition hello_offer :: "envelope \<Rightarrow> (wire_error, string list \<times> nat \<times> string list) result" where
  "hello_offer env =
     (if en_type env \<noteq> ''hello'' then Inl (handshake_bad ''not a hello'')
      else case get_array (en_body env) ''versions'' of
             None \<Rightarrow> Inl (handshake_bad ''versions must be array'')
           | Some arr \<Rightarrow>
               (let versions = filter_map as_str arr in
                if versions = [] then Inl (handshake_bad ''empty versions'')
                else (case hello_features (en_body env) of
                        Inl e \<Rightarrow> Inl e
                      | Inr features \<Rightarrow> Inr (versions, opt_or (get_u64 (en_body env) ''max_frame'') 1024, features))))"

definition shrink_timeout_ms :: "nat \<Rightarrow> nat \<Rightarrow> nat" where
  "shrink_timeout_ms remaining_ms elapsed_ms = remaining_ms - elapsed_ms"

text \<open>The window of seen ids.\<close>

record id_window =
  iw_cap :: nat
  iw_seen :: "(string, 64 word) hmap"
  iw_order :: "string list"

datatype id_verdict = IdNew | DuplicateSame | DuplicateDivergent

definition id_window_new :: "nat \<Rightarrow> id_window" where
  "id_window_new cap = \<lparr>iw_cap = max cap 1, iw_seen = [], iw_order = []\<rparr>"

definition hash_content :: "string \<Rightarrow> 64 word" where
  "hash_content canonical = foldl (\<lambda>h b. xor h (of_char b) * 0x100000001b3) 0xcbf29ce484222325 canonical"

definition id_check :: "string \<Rightarrow> string \<Rightarrow> id_window \<Rightarrow> id_window \<times> id_verdict" where
  "id_check i content w =
     (let h = hash_content content in
      case hm_get (iw_seen w) i of
        None \<Rightarrow>
          (let w1 = (if iw_cap w \<le> length (iw_order w)
                     then (case iw_order w of
                             [] \<Rightarrow> w
                           | old # rest \<Rightarrow> w\<lparr>iw_order := rest, iw_seen := hm_remove old (iw_seen w)\<rparr>)
                     else w)
           in (w1\<lparr>iw_seen := hm_insert i h (iw_seen w1), iw_order := iw_order w1 @ [i]\<rparr>, IdNew))
      | Some prev \<Rightarrow> (w, if prev = h then DuplicateSame else DuplicateDivergent))"

definition id_window_len :: "id_window \<Rightarrow> nat" where
  "id_window_len w = length (iw_seen w)"

subsection \<open>What the window of ids remembers\<close>

fun id_run :: "(string \<times> string) list \<Rightarrow> id_window \<Rightarrow> id_window" where
  "id_run [] w = w"
| "id_run ((i, c) # xs) w = id_run xs (fst (id_check i c w))"

fun id_news :: "(string \<times> string) list \<Rightarrow> id_window \<Rightarrow> nat" where
  "id_news [] w = 0"
| "id_news ((i, c) # xs) w = (if snd (id_check i c w) = IdNew then 1 else 0) + id_news xs (fst (id_check i c w))"

definition id_ok :: "id_window \<Rightarrow> bool" where
  "id_ok w \<longleftrightarrow> distinct (iw_order w) \<and> hm_wf (iw_seen w) \<and> set (hm_keys (iw_seen w)) = set (iw_order w) \<and>
     length (iw_order w) \<le> iw_cap w \<and> 1 \<le> iw_cap w"

lemma id_check_known:
  "hm_get (iw_seen w) i = Some h \<Longrightarrow>
     id_check i c w = (w, if h = hash_content c then DuplicateSame else DuplicateDivergent)"
  by (simp add: id_check_def Let_def)

lemma id_known_iff: "id_ok w \<Longrightarrow> hm_get (iw_seen w) i = None \<longleftrightarrow> i \<notin> set (iw_order w)"
  by (metis id_ok_def map_of_eq_None_iff set_map)

lemma id_check_fresh:
  assumes "id_ok w" "i \<notin> set (iw_order w)"
  obtains w' where "id_check i c w = (w', IdNew)" "id_ok w'" "iw_cap w' = iw_cap w"
    "iw_order w' = drop (Suc (length (iw_order w)) - iw_cap w) (iw_order w) @ [i]"
    "\<forall>j \<in> set (iw_order w'). hm_get (iw_seen w') j = (if j = i then Some (hash_content c) else hm_get (iw_seen w) j)"
proof -
  have n: "hm_get (iw_seen w) i = None" using assms by (simp add: id_known_iff)
  show ?thesis
  proof (cases "iw_cap w \<le> length (iw_order w)")
    case True
    then obtain old rest where o: "iw_order w = old # rest" "length (iw_order w) = iw_cap w"
      using assms(1) by (cases "iw_order w") (auto simp: id_ok_def)
    then show ?thesis
      using that [of "w\<lparr>iw_order := rest @ [i], iw_seen := hm_insert i (hash_content c) (hm_remove old (iw_seen w))\<rparr>"] n assms
      by (auto simp: id_check_def id_ok_def Let_def hm_wf_insert hm_wf_remove hm_keys_insert)
  next
    case False
    then show ?thesis
      using that [of "w\<lparr>iw_order := iw_order w @ [i], iw_seen := hm_insert i (hash_content c) (iw_seen w)\<rparr>"] n assms
      by (auto simp: id_check_def id_ok_def Let_def hm_wf_insert hm_keys_insert)
  qed
qed

lemma id_ok_new: "id_ok (id_window_new cap)"
  by (simp add: id_ok_def id_window_new_def)

lemma id_check_ok: "id_ok w \<Longrightarrow> id_ok (fst (id_check i c w)) \<and> iw_cap (fst (id_check i c w)) = iw_cap w"
proof (cases "hm_get (iw_seen w) i")
  case None
  assume "id_ok w"
  moreover from this None have "i \<notin> set (iw_order w)" by (simp add: id_known_iff)
  ultimately show ?thesis by (rule id_check_fresh [where c = c]) simp
qed (simp add: id_check_known)

lemma id_run_ok: "id_ok w \<Longrightarrow> id_ok (id_run xs w) \<and> iw_cap (id_run xs w) = iw_cap w"
  by (induction xs w rule: id_run.induct) (auto simp: id_check_ok)

text \<open>An id at some place of the window keeps its hash until enough new ids came after it.\<close>

lemma id_retained:
  assumes "id_ok w" "iw_order w = A @ i # B" "hm_get (iw_seen w) i = Some h" "length B + id_news xs w < iw_cap w"
  shows "hm_get (iw_seen (id_run xs w)) i = Some h"
  using assms
proof (induction xs w arbitrary: A B rule: id_run.induct)
  case (2 j c xs w)
  show ?case
  proof (cases "j \<in> set (iw_order w)")
    case True
    then obtain g where "hm_get (iw_seen w) j = Some g" using id_known_iff [OF 2(2)] by fastforce
    then show ?thesis using 2 by (simp add: id_check_known split: if_splits)
  next
    case False
    obtain w' where w': "id_check j c w = (w', IdNew)" "id_ok w'" "iw_cap w' = iw_cap w"
      "iw_order w' = drop (Suc (length (iw_order w)) - iw_cap w) (iw_order w) @ [j]"
      "\<forall>x \<in> set (iw_order w'). hm_get (iw_seen w') x = (if x = j then Some (hash_content c) else hm_get (iw_seen w) x)"
      by (rule id_check_fresh [OF 2(2) False])
    let ?k = "Suc (length (iw_order w)) - iw_cap w"
    have k: "?k \<le> length A" using w'(1,3) 2(2,3,5) by (auto simp: id_ok_def)
    then have o: "iw_order w' = drop ?k A @ i # (B @ [j])" using w'(4) 2(3) by simp
    moreover have "hm_get (iw_seen w') i = Some h" using w'(5) o 2(3,4) False by auto
    moreover have "length (B @ [j]) + id_news xs w' < iw_cap w'" using 2(5) w'(1,3) by simp
    ultimately show ?thesis using 2(1) [of "drop ?k A" "B @ [j]"] w'(1,2) by simp
  qed
qed simp

text \<open>Replays are recognised: the window never holds more ids than its capacity; once an id was new,
  and as long as fewer other new ids than the capacity were seen, the same id is never new
  again: with the same content it is a safe replay, with another content (up to the hash) a
  divergence.\<close>

theorem id_window_remembers:
  assumes "w = id_run xs (id_window_new cap)" "id_check i c w = (w1, IdNew)" "id_news ys w1 < max cap 1"
  shows "snd (id_check i c' (id_run ys w1)) =
      (if hash_content c = hash_content c' then DuplicateSame else DuplicateDivergent) \<and>
    id_window_len (id_run ys w1) \<le> max cap 1"
proof -
  have w: "id_ok w" "iw_cap w = max cap 1" using id_run_ok [OF id_ok_new] assms(1) by (simp_all add: id_window_new_def)
  have "i \<notin> set (iw_order w)"
    using assms(2) id_known_iff [OF w(1), of i] by (auto simp: id_check_def split: option.splits if_splits)
  then obtain w' where w': "id_check i c w = (w', IdNew)" "id_ok w'" "iw_cap w' = iw_cap w"
    "iw_order w' = drop (Suc (length (iw_order w)) - iw_cap w) (iw_order w) @ [i]"
    "\<forall>j \<in> set (iw_order w'). hm_get (iw_seen w') j = (if j = i then Some (hash_content c) else hm_get (iw_seen w) j)"
    by (rule id_check_fresh [OF w(1)])
  then have w1: "id_ok w1" "iw_cap w1 = max cap 1" "hm_get (iw_seen w1) i = Some (hash_content c)" "\<exists>A. iw_order w1 = A @ [i]"
    using assms(2) w(2) by auto
  then have "hm_get (iw_seen (id_run ys w1)) i = Some (hash_content c)"
    using id_retained [of w1 _ i "[]" "hash_content c" ys] assms(3) by auto
  moreover have "id_ok (id_run ys w1)" "iw_cap (id_run ys w1) = max cap 1" using id_run_ok [OF w1(1)] w1(2) by simp_all
  then have "id_window_len (id_run ys w1) \<le> max cap 1"
    unfolding id_ok_def id_window_len_def by (metis distinct_card length_map) 
  ultimately show ?thesis by (simp add: id_check_known)
qed

theorem id_window_remembers_witness:
  "snd (id_check ''a'' ''{}'' (id_run [(''b'', ''x'')] (fst (id_check ''a'' ''{}'' (id_window_new 2))))) = DuplicateSame"
proof -
  have "id_check ''a'' ''{}'' (id_window_new 2) = (fst (id_check ''a'' ''{}'' (id_window_new 2)), IdNew)"
    by (simp add: id_check_def id_window_new_def Let_def)
  moreover have "id_news [(''b'', ''x'')] (fst (id_check ''a'' ''{}'' (id_window_new 2))) < max 2 1" by simp
  ultimately show ?thesis
    using id_window_remembers [of "id_window_new 2" "[]" 2 "''a''" "''{}''" _ "[(''b'', ''x'')]" "''{}''"]
    by (simp del: id_run.simps(2) id_news.simps)
qed

end
