(* ===== verification/Mx_Envelope.thy ===== *)
theory Mx_Envelope
  imports Mx_Wire "HOL-Library.Code_Target_Nat"
begin

text \<open>
  The envelope of the component protocol (\<open>matrix-proto/src/envelope.rs\<close>): the scanner that
  bounds the nesting and refuses duplicate keys before the text is parsed, and the schema of
  every message type. Texts are UTF-8 byte strings; positions of the source are the suffixes
  that start there. The JSON parser itself (\<open>serde_json\<close>) and the texts of its errors are
  parameters.
\<close>

declare map_of_eq_Some_iff [simp del] Some_eq_map_of_iff [simp del]

definition MAX_DEPTH :: nat where
  "MAX_DEPTH = 32"

definition TYPES :: "string list" where
  "TYPES =
     [''hello'', ''welcome'', ''reject'', ''component.register'', ''registered'',
      ''lifecycle.prepare'', ''lifecycle.activate'', ''lifecycle.quiesce'', ''lifecycle.dispose'',
      ''lifecycle.result'', ''capability.changed'', ''resource.acquire'', ''resource.release'', ''resource.result'',
      ''call.open'', ''call.accepted'', ''call.result'', ''call.error'', ''call.cancel'', ''call.cancel.result'',
      ''stream.data'', ''stream.credit'', ''stream.end'', ''session.heartbeat'', ''session.renew'', ''session.close'',
      ''inspect.request'', ''inspect.result'',
      ''dependency.open'', ''dependency.accepted'', ''dependency.result'', ''dependency.cancel'', ''dependency.cancel.result'',
      ''event.deliver'']"

subsection \<open>The scanner\<close>

definition framing_bad :: "string \<Rightarrow> wire_error" where
  "framing_bad reason = with_details (JObj [(''reason'', JStr reason)]) (wire_error_new ''invalid-message'' ''framing'')"

definition ticked :: "char \<Rightarrow> string" where
  "ticked c = [CHR 0x27, c, CHR 0x27]"

datatype scan_ctx = CtxObj | CtxArr

record scan_frame =
  sc_ctx :: scan_ctx
  sc_keys :: "string list"
  sc_expect_key :: bool

text \<open>The top of the stack comes first.\<close>

record scan_state =
  ss_stack :: "scan_frame list"
  ss_depth :: nat
  ss_root_seen :: bool

definition json_ws :: "char \<Rightarrow> bool" where
  "json_ws c \<longleftrightarrow> c \<in> {CHR '' '', CHR 0x09, CHR 0x0A, CHR 0x0D}"

definition skip_ws :: "string \<Rightarrow> string" where
  "skip_ws s = dropWhile json_ws s"

text \<open>The number of bytes of a character, from its first byte.\<close>

definition lead_len :: "char \<Rightarrow> nat" where
  "lead_len c = (let n = (of_char c :: nat) in if n < 0x80 then 1 else if n < 0xE0 then 2 else if n < 0xF0 then 3 else 4)"

text \<open>\<open>char::from_u32\<close> and \<open>String::push\<close>, for code points below 0x10000.\<close>

definition utf8_of :: "nat \<Rightarrow> string" where
  "utf8_of cp =
     (if cp < 0x80 then [char_of cp]
      else if cp < 0x800 then [char_of (0xC0 + cp div 0x40), char_of (0x80 + cp mod 0x40)]
      else [char_of (0xE0 + cp div 0x1000), char_of (0x80 + cp div 0x40 mod 0x40), char_of (0x80 + cp mod 0x40)])"

definition is_surrogate :: "nat \<Rightarrow> bool" where
  "is_surrogate cp \<longleftrightarrow> 0xD800 \<le> cp \<and> cp < 0xE000"

definition hex_val :: "char \<Rightarrow> nat option" where
  "hex_val c =
     (let n = (of_char c :: nat) in
      if 48 \<le> n \<and> n \<le> 57 then Some (n - 48)
      else if 65 \<le> n \<and> n \<le> 70 then Some (n - 55)
      else if 97 \<le> n \<and> n \<le> 102 then Some (n - 87) else None)"

fun parse_hex :: "nat \<Rightarrow> string \<Rightarrow> nat option" where
  "parse_hex acc [] = Some acc"
| "parse_hex acc (c # cs) = (case hex_val c of None \<Rightarrow> None | Some d \<Rightarrow> parse_hex (acc * 16 + d) cs)"

text \<open>\<open>u32::from_str_radix(hex, 16)\<close> on four bytes: a leading plus sign is allowed.\<close>

definition hex4 :: "string \<Rightarrow> nat option" where
  "hex4 s = (case s of c # cs \<Rightarrow> if c = CHR ''+'' then parse_hex 0 cs else parse_hex 0 s | [] \<Rightarrow> None)"

definition unescape :: "char \<Rightarrow> char option" where
  "unescape e =
     (if e \<in> {CHR 0x22, CHR 0x5C, CHR ''/''} then Some e
      else if e = CHR ''b'' then Some (CHR 0x08) else if e = CHR ''f'' then Some (CHR 0x0C)
      else if e = CHR ''n'' then Some (CHR 0x0A) else if e = CHR ''r'' then Some (CHR 0x0D)
      else if e = CHR ''t'' then Some (CHR 0x09) else None)"

text \<open>A character or an escape of a string, at a byte that is not the closing quote.\<close>

definition read_item :: "char \<Rightarrow> string \<Rightarrow> (string \<times> string) option" where
  "read_item c cs =
     (if c = CHR 0x5C
      then (case cs of
              [] \<Rightarrow> None
            | e # es \<Rightarrow>
                if e = CHR ''u''
                then (if length es < 4 then None
                      else case hex4 (take 4 es) of
                             None \<Rightarrow> None
                           | Some cp \<Rightarrow> if is_surrogate cp then None else Some (utf8_of cp, drop 4 es))
                else map_option (\<lambda>x. ([x], es)) (unescape e))
      else Some (take (lead_len c) (c # cs), drop (lead_len c) (c # cs)))"

lemma read_item_shorter: "read_item c cs = Some (b, rest) \<Longrightarrow> length rest < Suc (length cs)"
  by (auto simp: read_item_def lead_len_def Let_def split: list.splits if_splits option.splits)

text \<open>The rest of a string after its opening quote.\<close>

function read_string :: "string \<Rightarrow> string \<Rightarrow> (string \<times> string) option" where
  "read_string out s =
     (case s of
        [] \<Rightarrow> None
      | c # cs \<Rightarrow>
          if c = CHR 0x22 then Some (out, cs)
          else (case read_item c cs of None \<Rightarrow> None | Some (b, rest) \<Rightarrow> read_string (out @ b) rest))"
  by pat_completeness auto
termination
  by (relation "measure (\<lambda>(out, s). length s)") (auto dest!: read_item_shorter)

declare read_string.simps [simp del]

lemma read_string_shorter: "read_string out s = Some (r, t) \<Longrightarrow> length t < length s"
proof (induction out s rule: read_string.induct)
  case (1 out s)
  then obtain c cs where s: "s = c # cs" by (cases s) (simp_all add: read_string.simps)
  show ?case
  proof (cases "c = CHR 0x22")
    case True
    then show ?thesis using 1(2) s by (simp add: read_string.simps)
  next
    case False
    then obtain b rest where i: "read_item c cs = Some (b, rest)" "read_string (out @ b) rest = Some (r, t)"
      using 1(2) s by (subst (asm) read_string.simps) (auto split: option.splits)
    then have "length t < length rest" using 1(1) s False by blast
    then show ?thesis using read_item_shorter [OF i(1)] s by simp
  qed
qed

definition num_char :: "char \<Rightarrow> bool" where
  "num_char c \<longleftrightarrow> is_ascii_digit c \<or> c \<in> {CHR ''.'', CHR ''e'', CHR ''E'', CHR ''+'', CHR ''-''}"

definition skip_literal :: "string \<Rightarrow> string option" where
  "skip_literal s =
     (if starts_with s ''true'' then Some (drop 4 s)
      else if starts_with s ''false'' then Some (drop 5 s)
      else if starts_with s ''null'' then Some (drop 4 s)
      else (let s1 = (if starts_with s ''-'' then drop 1 s else s)
            in if takeWhile num_char s1 = [] then None else Some (dropWhile num_char s1)))"

definition set_expect :: "bool \<Rightarrow> scan_frame list \<Rightarrow> scan_frame list" where
  "set_expect b st = (case st of [] \<Rightarrow> [] | f # fs \<Rightarrow> f\<lparr>sc_expect_key := b\<rparr> # fs)"

definition in_obj :: "scan_frame list \<Rightarrow> bool" where
  "in_obj st = (case st of [] \<Rightarrow> False | f # fs \<Rightarrow> sc_ctx f = CtxObj)"

definition expecting_key :: "scan_frame list \<Rightarrow> bool" where
  "expecting_key st = (case st of [] \<Rightarrow> False | f # fs \<Rightarrow> sc_ctx f = CtxObj \<and> sc_expect_key f)"

text \<open>An opening bracket: where it may stand, and the frame it pushes.\<close>

definition scan_open :: "scan_ctx \<Rightarrow> string \<Rightarrow> scan_state \<Rightarrow> (wire_error, scan_state) result" where
  "scan_open ctx unexpected st =
     (if MAX_DEPTH < ss_depth st + 1 then Inl (framing_bad ''max depth exceeded'')
      else bind_result
        (if ss_stack st = []
         then (if ss_root_seen st then Inl (framing_bad ''trailing data'') else Inr (st\<lparr>ss_root_seen := True\<rparr>))
         else if expecting_key (ss_stack st) then Inl (framing_bad unexpected)
         else if in_obj (ss_stack st) then Inr (st\<lparr>ss_stack := set_expect False (ss_stack st)\<rparr>)
         else Inr st)
        (\<lambda>st1. Inr (st1\<lparr>ss_depth := ss_depth st + 1,
           ss_stack := \<lparr>sc_ctx = ctx, sc_keys = [], sc_expect_key = (ctx = CtxObj)\<rparr> # ss_stack st1\<rparr>)))"

definition scan_close :: "scan_ctx \<Rightarrow> scan_state \<Rightarrow> (wire_error, scan_state) result" where
  "scan_close want st =
     (case ss_stack st of
        f # fs \<Rightarrow>
          if sc_ctx f = want
          then Inr (st\<lparr>ss_depth := ss_depth st - 1, ss_stack := (if in_obj fs then set_expect False fs else fs)\<rparr>)
          else Inl (framing_bad ''unbalanced close'')
      | [] \<Rightarrow> Inl (framing_bad ''unbalanced close''))"

definition scan_string :: "scan_state \<Rightarrow> string \<Rightarrow> (wire_error, scan_state \<times> string) result" where
  "scan_string st cs =
     (case read_string [] cs of
        None \<Rightarrow> Inl (framing_bad ''bad string'')
      | Some (key, after) \<Rightarrow>
          (let s = skip_ws after in
           case ss_stack st of
             [] \<Rightarrow> Inr (st\<lparr>ss_root_seen := True\<rparr>, s)
           | f # fs \<Rightarrow>
               if sc_ctx f = CtxObj \<and> sc_expect_key f
               then (case s of
                       c # rest \<Rightarrow>
                         if c = CHR '':''
                         then (if key \<in> set (sc_keys f) then Inl (framing_bad ''duplicate key'')
                               else Inr (st\<lparr>ss_stack := f\<lparr>sc_keys := key # sc_keys f, sc_expect_key := False\<rparr> # fs\<rparr>, rest))
                         else Inl (framing_bad (''expected '' @ ticked (CHR '':'')))
                     | [] \<Rightarrow> Inl (framing_bad (''expected '' @ ticked (CHR '':''))))
               else Inr (st, s)))"

definition scan_comma :: "scan_state \<Rightarrow> (wire_error, scan_state) result" where
  "scan_comma st =
     (if ss_stack st = [] then Inl (framing_bad (''stray '' @ ticked (CHR '','')))
      else Inr (if in_obj (ss_stack st) then st\<lparr>ss_stack := set_expect True (ss_stack st)\<rparr> else st))"

definition scan_literal :: "scan_state \<Rightarrow> string \<Rightarrow> (wire_error, scan_state \<times> string) result" where
  "scan_literal st s =
     (case skip_literal s of
        None \<Rightarrow> Inl (framing_bad ''bad literal'')
      | Some rest \<Rightarrow>
          if ss_stack st = [] then Inr (st\<lparr>ss_root_seen := True\<rparr>, rest)
          else if expecting_key (ss_stack st) then Inl (framing_bad ''expected string key'')
          else Inr (if in_obj (ss_stack st) then st\<lparr>ss_stack := set_expect False (ss_stack st)\<rparr> else st, rest))"

text \<open>One round of the loop, at a byte that is not white space.\<close>

definition scan_step :: "scan_state \<Rightarrow> char \<Rightarrow> string \<Rightarrow> (wire_error, scan_state \<times> string) result" where
  "scan_step st c cs =
     (if c = CHR ''{'' then bind_result (scan_open CtxObj (''unexpected '' @ ticked (CHR ''{'')) st) (\<lambda>st'. Inr (st', cs))
      else if c = CHR ''['' then bind_result (scan_open CtxArr (''unexpected '' @ ticked (CHR ''['')) st) (\<lambda>st'. Inr (st', cs))
      else if c = CHR ''}'' then bind_result (scan_close CtxObj st) (\<lambda>st'. Inr (st', cs))
      else if c = CHR '']'' then bind_result (scan_close CtxArr st) (\<lambda>st'. Inr (st', cs))
      else if c = CHR 0x22 then scan_string st cs
      else if c = CHR '','' then bind_result (scan_comma st) (\<lambda>st'. Inr (st', cs))
      else if c = CHR '':'' then Inl (framing_bad (''stray '' @ ticked (CHR '':'')))
      else scan_literal st (c # cs))"

text \<open>Every round consumes at least one byte.\<close>

lemma skip_ws_length: "length (skip_ws s) \<le> length s"
  by (simp add: skip_ws_def length_dropWhile_le)

lemma skip_literal_shorter: "skip_literal s = Some t \<Longrightarrow> length t < length s"
proof -
  assume a: "skip_literal s = Some t"
  have d: "length (dropWhile num_char u) < length u" if "takeWhile num_char u \<noteq> []" for u
    using that by (cases u) (auto simp: le_imp_less_Suc length_dropWhile_le split: if_splits)
  have e: "s \<noteq> []" using a by (auto simp: skip_literal_def)
  show ?thesis using a d [of s] d [of "drop 1 s"] e
    by (auto simp: skip_literal_def Let_def split: if_splits)
qed

lemma scan_step_shorter: "scan_step st c cs = Inr (st', t) \<Longrightarrow> length t < Suc (length cs)"
proof -
  have "length t < Suc (length cs)" if i: "scan_string st cs = Inr (st', t)"
  proof -
    obtain key after where "read_string [] cs = Some (key, after)" "t = skip_ws after \<or> skip_ws after = CHR '':'' # t"
      using i by (auto simp: scan_string_def Let_def split: option.splits list.splits if_splits)
    then show ?thesis using read_string_shorter [of "[]" cs key after] skip_ws_length [of after] by auto
  qed
  moreover have "scan_literal st (c # cs) = Inr (st', t) \<Longrightarrow> length t < Suc (length cs)"
    by (auto simp: scan_literal_def dest!: skip_literal_shorter split: option.splits if_splits)
  ultimately show "scan_step st c cs = Inr (st', t) \<Longrightarrow> length t < Suc (length cs)"
    by (auto simp: scan_step_def split: if_splits)
qed

function scan_loop :: "scan_state \<Rightarrow> string \<Rightarrow> (wire_error, unit) result" where
  "scan_loop st s =
     (case skip_ws s of
        [] \<Rightarrow> if ss_stack st \<noteq> [] \<or> \<not> ss_root_seen st then Inl (framing_bad ''incomplete document'') else Inr ()
      | c # cs \<Rightarrow> (case scan_step st c cs of Inl e \<Rightarrow> Inl e | Inr (st', t) \<Rightarrow> scan_loop st' t))"
  by pat_completeness auto
termination
proof (relation "measure (\<lambda>(st, s). length s)")
  fix st :: scan_state and s c cs y st' t
  assume "skip_ws s = c # cs" "scan_step st c cs = Inr y" "(st', t) = y"
  then show "((st', t), st, s) \<in> measure (\<lambda>(st, s). length s)"
    using scan_step_shorter [of st c cs st' t] skip_ws_length [of s] by auto
qed simp

declare scan_loop.simps [simp del]

definition scan_structure :: "string \<Rightarrow> (wire_error, unit) result" where
  "scan_structure s = scan_loop \<lparr>ss_stack = [], ss_depth = 0, ss_root_seen = False\<rparr> s"
text \<open>\<open>str::from_utf8\<close>: the well-formed byte sequences of the Unicode standard.\<close>

definition in_range :: "nat \<Rightarrow> nat \<Rightarrow> char \<Rightarrow> bool" where
  "in_range a b c \<longleftrightarrow> a \<le> (of_char c :: nat) \<and> (of_char c :: nat) \<le> b"

fun valid_utf8 :: "string \<Rightarrow> bool" where
  "valid_utf8 [] = True"
| "valid_utf8 (a # s) =
     (if in_range 0x00 0x7F a then valid_utf8 s
      else case s of
             [] \<Rightarrow> False
           | b # s1 \<Rightarrow>
               if in_range 0xC2 0xDF a then in_range 0x80 0xBF b \<and> valid_utf8 s1
               else case s1 of
                      [] \<Rightarrow> False
                    | c # s2 \<Rightarrow>
                        if in_range 0xE0 0xEF a
                        then in_range (if a = CHR 0xE0 then 0xA0 else 0x80) (if a = CHR 0xED then 0x9F else 0xBF) b \<and>
                             in_range 0x80 0xBF c \<and> valid_utf8 s2
                        else case s2 of
                               [] \<Rightarrow> False
                             | d # s3 \<Rightarrow>
                                 in_range 0xF0 0xF4 a \<and>
                                 in_range (if a = CHR 0xF0 then 0x90 else 0x80) (if a = CHR 0xF4 then 0x8F else 0xBF) b \<and>
                                 in_range 0x80 0xBF c \<and> in_range 0x80 0xBF d \<and> valid_utf8 s3)"

text \<open>\<open>utf8_msg\<close> and \<open>from_str\<close> stand for the text of a UTF-8 error and for the JSON parser.\<close>

definition scan_raw :: "(string \<Rightarrow> string) \<Rightarrow> (string \<Rightarrow> (string, json) result) \<Rightarrow> string \<Rightarrow> (wire_error, json) result" where
  "scan_raw utf8_msg from_str raw =
     (if \<not> valid_utf8 raw then Inl (framing_bad (utf8_msg raw))
      else bind_result (scan_structure raw) (\<lambda>_.
             case from_str raw of Inl e \<Rightarrow> Inl (framing_bad e) | Inr v \<Rightarrow> Inr v))"

subsection \<open>The schema\<close>

definition identity_fields :: "string list" where
  "identity_fields = [''message_id'', ''session_id'', ''instance_id'', ''generation'']"

definition required_top :: "string \<Rightarrow> (string list \<times> bool) option" where
  "required_top ty =
     (if ty \<in> {''hello'', ''reject'', ''inspect.request'', ''inspect.result''} then Some ([''message_id'', ''body''], False)
      else if ty \<in> {''welcome'', ''component.register'', ''capability.changed''}
      then Some ([''message_id'', ''session_id'', ''body''], False)
      else if ty \<in> {''registered'', ''stream.data'', ''stream.credit'', ''stream.end'', ''event.deliver''}
      then Some (identity_fields @ [''body''], False)
      else if ty \<in> {''lifecycle.prepare'', ''lifecycle.activate'', ''lifecycle.quiesce'', ''lifecycle.dispose'', ''lifecycle.result'',
                    ''resource.acquire'', ''resource.release'', ''resource.result'',
                    ''call.open'', ''call.accepted'', ''call.result'', ''call.error'', ''call.cancel'', ''call.cancel.result'',
                    ''dependency.open'', ''dependency.accepted'', ''dependency.result'', ''dependency.cancel'',
                    ''dependency.cancel.result''}
      then Some (identity_fields @ [''request_id'', ''body''], False)
      else if ty \<in> {''session.heartbeat'', ''session.renew'', ''session.close''}
      then Some ([''message_id'', ''session_id''], True)
      else None)"

definition BODY_FIELDS :: "(string \<times> string list) list" where
  "BODY_FIELDS =
     [(''hello'', [''versions'', ''max_frame'', ''client'']),
      (''welcome'', [''version'', ''max_frame'', ''limits'']),
      (''reject'', [''code'', ''reason'']),
      (''component.register'', [''manifest'']),
      (''registered'', [''logical'']),
      (''lifecycle.prepare'', [''operation_id'', ''manifest'', ''bindings'']),
      (''lifecycle.activate'', [''operation_id'', ''manifest'', ''bindings'']),
      (''lifecycle.quiesce'', [''operation_id'', ''deadline_ms'']),
      (''lifecycle.dispose'', [''operation_id'', ''deadline_ms'']),
      (''lifecycle.result'', [''operation_id'', ''status'']),
      (''capability.changed'', [''revision'', ''change'']),
      (''resource.acquire'', [''operation_id'', ''kind'', ''label'']),
      (''resource.release'', [''operation_id'', ''handle'']),
      (''resource.result'', [''operation_id'', ''status'']),
      (''call.open'', [''ticket'', ''capability'', ''input'']),
      (''call.accepted'', [''ticket'']),
      (''call.result'', [''ticket'', ''status'']),
      (''call.error'', [''ticket'', ''error'']),
      (''call.cancel'', [''ticket'', ''reason'']),
      (''call.cancel.result'', [''ticket'', ''status'']),
      (''dependency.open'', [''parent_ticket'', ''binding_id'', ''timeout_ms'', ''input'']),
      (''dependency.accepted'', [''child_ticket'']),
      (''dependency.result'', [''status'']),
      (''dependency.cancel'', [''target_request_id'']),
      (''dependency.cancel.result'', [''target_request_id'', ''state'']),
      (''stream.data'', [''stream_id'', ''seq'', ''payload'']),
      (''stream.credit'', [''stream_id'', ''bytes'']),
      (''stream.end'', [''stream_id'', ''status'']),
      (''inspect.request'', [''query'']),
      (''inspect.result'', [''result'']),
      (''event.deliver'', [''topic'', ''payload''])]"

definition required_body :: "string \<Rightarrow> string list" where
  "required_body ty = opt_or (hm_get BODY_FIELDS ty) []"

definition envelope_bad :: "(string \<times> json) list \<Rightarrow> wire_error" where
  "envelope_bad details = with_details (JObj details) (wire_error_new ''invalid-message'' ''envelope'')"

definition decimal_u64 :: "json \<Rightarrow> string \<Rightarrow> (wire_error, nat) result" where
  "decimal_u64 v field =
     (case Option.bind (as_str v) parse_u64 of
        Some n \<Rightarrow> Inr n
      | None \<Rightarrow> Inl (envelope_bad [(''field'', JStr field), (''reason'', JStr ''decimal string expected'')]))"

definition top_field :: "json \<Rightarrow> string \<Rightarrow> (wire_error, json) result" where
  "top_field v f = (case j_get v f of Some x \<Rightarrow> Inr x | None \<Rightarrow> Inl (envelope_bad [(''missing'', JStr f)]))"

definition top_str :: "json \<Rightarrow> string \<Rightarrow> string \<Rightarrow> (wire_error, string) result" where
  "top_str v f reason =
     bind_result (top_field v f) (\<lambda>x. case as_str x of Some s \<Rightarrow> Inr s | None \<Rightarrow> Inl (envelope_bad [(''reason'', JStr reason)]))"

definition opt_decimal :: "json \<Rightarrow> string \<Rightarrow> (wire_error, nat option) result" where
  "opt_decimal v f =
     (case j_get v f of None \<Rightarrow> Inr None | Some x \<Rightarrow> bind_result (decimal_u64 x f) (\<lambda>n. Inr (Some n)))"

definition validate_envelope_body :: "json \<Rightarrow> string \<Rightarrow> bool \<Rightarrow> (wire_error, json) result" where
  "validate_envelope_body v ty body_optional =
     (if body_optional then Inr (opt_or (j_get v ''body'') JNull)
      else bind_result (top_field v ''body'') (\<lambda>body.
             bind_result (ensure (as_object body \<noteq> None) (envelope_bad [(''reason'', JStr ''body must be object'')])) (\<lambda>_.
             bind_result (for_each (\<lambda>f. ensure (j_get body f \<noteq> None)
                            (envelope_bad [(''type'', JStr ty), (''missing_body'', JStr f)])) (required_body ty)) (\<lambda>_.
             Inr body))))"

definition validate_envelope :: "json \<Rightarrow> (wire_error, envelope) result" where
  "validate_envelope v =
     bind_result (ensure (as_object v \<noteq> None) (envelope_bad [(''reason'', JStr ''object expected'')])) (\<lambda>_.
     bind_result (top_field v ''protocol'') (\<lambda>protocol.
     bind_result (ensure (as_str protocol = Some PROTOCOL_ID) (envelope_bad [(''reason'', JStr ''unknown protocol'')])) (\<lambda>_.
     bind_result (top_str v ''version'' ''version must be string'') (\<lambda>version.
     bind_result (ensure (version = PROTOCOL_VERSION)
        (with_details (JObj [(''got'', JStr version), (''want'', JStr PROTOCOL_VERSION)])
          (wire_error_new ''unsupported-version'' ''handshake''))) (\<lambda>_.
     bind_result (top_str v ''type'' ''type must be string'') (\<lambda>ty.
     bind_result (case required_top ty of Some r \<Rightarrow> Inr r | None \<Rightarrow> Inl (envelope_bad [(''unknown_type'', JStr ty)])) (\<lambda>(req_top, body_optional).
     bind_result (for_each (\<lambda>f. bind_result (top_field v f) (\<lambda>_. Inr ())) req_top) (\<lambda>_.
     bind_result (top_str v ''message_id'' ''message_id must be string'') (\<lambda>message_id.
     bind_result (ensure (message_id \<noteq> []) (envelope_bad [(''reason'', JStr ''empty message_id'')])) (\<lambda>_.
     bind_result (opt_decimal v ''generation'') (\<lambda>generation.
     bind_result (opt_decimal v ''instance_id'') (\<lambda>_.
     bind_result (validate_envelope_body v ty body_optional) (\<lambda>body.
     Inr \<lparr>en_type = ty, en_message_id = message_id, en_session_id = get_str v ''session_id'',
          en_instance_id = get_str v ''instance_id'', en_generation = generation,
          en_request_id = get_str v ''request_id'', en_body = body\<rparr>)))))))))))))"

definition parse_frame_payload ::
  "(string \<Rightarrow> string) \<Rightarrow> (string \<Rightarrow> (string, json) result) \<Rightarrow> string \<Rightarrow> (wire_error, envelope) result" where
  "parse_frame_payload utf8_msg from_str raw = bind_result (scan_raw utf8_msg from_str raw) validate_envelope"
subsection \<open>What an accepted envelope has\<close>

lemma required_top_types: "required_top ty = Some r \<Longrightarrow> ty \<in> set TYPES"
  by (auto simp: required_top_def TYPES_def split: if_splits)

lemma decimal_u64_Inr: "decimal_u64 v f = Inr n \<longleftrightarrow> (\<exists>s. as_str v = Some s \<and> parse_u64 s = Some n)"
  by (auto simp: decimal_u64_def bind_eq_Some_conv split: option.splits)

lemma opt_decimal_Inr:
  "opt_decimal v f = Inr g \<longleftrightarrow>
     (case j_get v f of None \<Rightarrow> g = None | Some x \<Rightarrow> \<exists>s n. as_str x = Some s \<and> parse_u64 s = Some n \<and> g = Some n)"
  by (auto simp: opt_decimal_def decimal_u64_Inr split: option.splits)

lemma top_field_Inr: "top_field v f = Inr x \<longleftrightarrow> j_get v f = Some x"
  by (simp add: top_field_def split: option.splits)

lemma top_str_Inr: "top_str v f r = Inr s \<longleftrightarrow> get_str v f = Some s"
  by (auto simp: top_str_def top_field_Inr get_str_def bind_eq_Some_conv split: option.splits)

text \<open>The identity that the type of an envelope asks for is there, and the fields of its body.\<close>

definition identified :: "envelope \<Rightarrow> bool" where
  "identified en =
     (case required_top (en_type en) of
        None \<Rightarrow> False
      | Some (required, body_optional) \<Rightarrow>
          (''generation'' \<in> set required \<longrightarrow> (case en_generation en of Some g \<Rightarrow> g < 2 ^ 64 | None \<Rightarrow> False)) \<and>
          (''instance_id'' \<in> set required \<longrightarrow> (case en_instance_id en of Some s \<Rightarrow> parse_u64 s \<noteq> None | None \<Rightarrow> False)) \<and>
          (\<not> body_optional \<longrightarrow> list_all (\<lambda>f. j_get (en_body en) f \<noteq> None) (required_body (en_type en))))"

lemma validate_envelope_Inr:
  assumes "validate_envelope v = Inr en"
  shows "en_type en \<in> set TYPES \<and> en_message_id en \<noteq> [] \<and> identified en"
proof -
  obtain ty required body_optional message_id generation body iid where
    ty: "required_top ty = Some (required, body_optional)" and
    top: "\<forall>f \<in> set required. \<exists>x. j_get v f = Some x" and
    m: "message_id \<noteq> []" and g: "opt_decimal v ''generation'' = Inr generation" and i: "opt_decimal v ''instance_id'' = Inr iid" and
    b: "validate_envelope_body v ty body_optional = Inr body" and
    en: "en = \<lparr>en_type = ty, en_message_id = message_id, en_session_id = get_str v ''session_id'',
          en_instance_id = get_str v ''instance_id'', en_generation = generation,
          en_request_id = get_str v ''request_id'', en_body = body\<rparr>"
    using assms unfolding validate_envelope_def by (auto simp: top_field_Inr split: option.splits)
  have "''generation'' \<in> set required \<Longrightarrow> \<exists>n. generation = Some n \<and> n < 2 ^ 64"
    using top g parse_u64_bound by (fastforce simp: opt_decimal_Inr split: option.splits)
  moreover have "''instance_id'' \<in> set required \<Longrightarrow> \<exists>s n. get_str v ''instance_id'' = Some s \<and> parse_u64 s = Some n"
    using top i by (fastforce simp: opt_decimal_Inr get_str_def split: option.splits)
  moreover have "\<not> body_optional \<Longrightarrow> list_all (\<lambda>f. j_get body f \<noteq> None) (required_body ty)"
    using b by (auto simp: validate_envelope_body_def list_all_iff)
  ultimately show ?thesis using ty m required_top_types [OF ty] by (auto simp: en identified_def)
qed

text \<open>C39. A frame that is accepted is a well typed envelope, whatever bytes arrive and whatever the JSON parser makes of
  them: the bytes were UTF-8 and passed the structural scan, the type is one of the protocol's, the message has an id, and
  the identity the type demands is there: the generation as a 64-bit number, the instance as a decimal, and every field
  that the body of that type must have.\<close>

theorem accepted_envelope_typed:
  assumes "parse_frame_payload utf8_msg from_str raw = Inr en"
  shows "valid_utf8 raw \<and> scan_structure raw = Inr () \<and> en_type en \<in> set TYPES \<and> en_message_id en \<noteq> [] \<and> identified en"
  using assms validate_envelope_Inr
  by (auto simp: parse_frame_payload_def scan_raw_def split: if_splits sum.splits)

definition open_call_json :: json where
  "open_call_json = JObj
     [(''protocol'', JStr ''matrix.component''), (''version'', JStr ''0.1''), (''type'', JStr ''call.open''),
      (''message_id'', JStr ''m''), (''session_id'', JStr ''s''), (''instance_id'', JStr ''7''), (''generation'', JStr ''3''),
      (''request_id'', JStr ''r''),
      (''body'', JObj [(''ticket'', JStr ''t''), (''capability'', JStr ''c@1''), (''input'', JNull)])]"

theorem accepted_envelope_typed_witness:
  "\<exists>en. parse_frame_payload (\<lambda>_. []) (\<lambda>_. Inr open_call_json) ''{}'' = Inr en \<and> en_type en \<in> set TYPES \<and> identified en"
proof -
  let ?r = "parse_frame_payload (\<lambda>_. []) (\<lambda>_. Inr open_call_json) ''{}''"
  have "\<not> isl ?r" by code_simp
  then obtain en where "?r = Inr en" by (cases ?r) auto
  then show ?thesis using accepted_envelope_typed by blast
qed

end
