(* ===== verification/Mx_Scanner.thy ===== *)
theory Mx_Scanner
  imports Mx_Envelope
begin

text \<open>
  The scanner of the envelope against a grammar of JSON texts: concrete syntax trees with their
  white space, their text, their nesting and the keys of their objects. On the text of a tree
  the scanner accepts exactly when the nesting is within the bound and no object repeats a key.
\<close>

declare map_of_eq_Some_iff [simp del] Some_eq_map_of_iff [simp del]

subsection \<open>Concrete syntax\<close>

datatype str_item = Plain string | Escaped char | Unicode string

fun item_text :: "str_item \<Rightarrow> string" where
  "item_text (Plain b) = b"
| "item_text (Escaped c) = [CHR 0x5C, c]"
| "item_text (Unicode h) = CHR 0x5C # CHR ''u'' # h"

fun item_value :: "str_item \<Rightarrow> string" where
  "item_value (Plain b) = b"
| "item_value (Escaped c) = (case unescape c of None \<Rightarrow> [] | Some x \<Rightarrow> [x])"
| "item_value (Unicode h) = (case hex4 h of None \<Rightarrow> [] | Some cp \<Rightarrow> utf8_of cp)"

text \<open>A character of the text, a simple escape, or four hexadecimal digits of a code point.\<close>

fun item_ok :: "str_item \<Rightarrow> bool" where
  "item_ok (Plain b) = (b \<noteq> [] \<and> hd b \<noteq> CHR 0x22 \<and> hd b \<noteq> CHR 0x5C \<and> length b = lead_len (hd b))"
| "item_ok (Escaped c) = (unescape c \<noteq> None)"
| "item_ok (Unicode h) = (length h = 4 \<and> (case hex4 h of None \<Rightarrow> False | Some cp \<Rightarrow> \<not> is_surrogate cp))"

type_synonym str_text = "str_item list"

definition str_text :: "str_text \<Rightarrow> string" where
  "str_text is = concat (map item_text is)"

definition str_value :: "str_text \<Rightarrow> string" where
  "str_value is = concat (map item_value is)"

text \<open>White space is written out where the grammar allows it.\<close>

datatype jdoc =
    DLit string
  | DStr str_text
  | DArr string jelems
  | DObj string jmembs
and jelems = ENil | ECons string jdoc string jelems
and jmembs = MNil | MCons string str_text string string jdoc string jmembs

primrec doc_text :: "jdoc \<Rightarrow> string" and elems_text :: "jelems \<Rightarrow> string" and membs_text :: "jmembs \<Rightarrow> string" where
  "doc_text (DLit s) = s"
| "doc_text (DStr is) = CHR 0x22 # str_text is @ [CHR 0x22]"
| "doc_text (DArr w es) = CHR ''['' # w @ elems_text es @ [CHR '']'']"
| "doc_text (DObj w ms) = CHR ''{'' # w @ membs_text ms @ [CHR ''}'']"
| "elems_text ENil = []"
| "elems_text (ECons w1 d w2 es) = w1 @ doc_text d @ w2 @ (if es = ENil then [] else CHR '','' # elems_text es)"
| "membs_text MNil = []"
| "membs_text (MCons w1 k w2 w3 d w4 ms) =
     w1 @ CHR 0x22 # str_text k @ CHR 0x22 # w2 @ CHR '':'' # w3 @ doc_text d @ w4 @
     (if ms = MNil then [] else CHR '','' # membs_text ms)"

text \<open>A superset of the literals and numbers of JSON.\<close>

definition literal_text :: "string \<Rightarrow> bool" where
  "literal_text s \<longleftrightarrow>
     s \<in> {''true'', ''false'', ''null''} \<or>
     (s \<noteq> [] \<and> s \<noteq> ''-'' \<and> list_all num_char s \<and> (is_ascii_digit (hd s) \<or> hd s = CHR ''-''))"

definition ws_text :: "string \<Rightarrow> bool" where
  "ws_text s \<longleftrightarrow> list_all json_ws s"

primrec doc_ok :: "jdoc \<Rightarrow> bool" and elems_ok :: "jelems \<Rightarrow> bool" and membs_ok :: "jmembs \<Rightarrow> bool" where
  "doc_ok (DLit s) = literal_text s"
| "doc_ok (DStr is) = list_all item_ok is"
| "doc_ok (DArr w es) = (ws_text w \<and> elems_ok es)"
| "doc_ok (DObj w ms) = (ws_text w \<and> membs_ok ms)"
| "elems_ok ENil = True"
| "elems_ok (ECons w1 d w2 es) = (ws_text w1 \<and> doc_ok d \<and> ws_text w2 \<and> elems_ok es)"
| "membs_ok MNil = True"
| "membs_ok (MCons w1 k w2 w3 d w4 ms) =
     (ws_text w1 \<and> list_all item_ok k \<and> ws_text w2 \<and> ws_text w3 \<and> doc_ok d \<and> ws_text w4 \<and> membs_ok ms)"

primrec nesting :: "jdoc \<Rightarrow> nat" and nesting_elems :: "jelems \<Rightarrow> nat" and nesting_membs :: "jmembs \<Rightarrow> nat" where
  "nesting (DLit s) = 0"
| "nesting (DStr is) = 0"
| "nesting (DArr w es) = Suc (nesting_elems es)"
| "nesting (DObj w ms) = Suc (nesting_membs ms)"
| "nesting_elems ENil = 0"
| "nesting_elems (ECons w1 d w2 es) = max (nesting d) (nesting_elems es)"
| "nesting_membs MNil = 0"
| "nesting_membs (MCons w1 k w2 w3 d w4 ms) = max (nesting d) (nesting_membs ms)"

primrec memb_keys :: "jmembs \<Rightarrow> string list" where
  "memb_keys MNil = []"
| "memb_keys (MCons w1 k w2 w3 d w4 ms) = str_value k # memb_keys ms"

primrec unique_keys :: "jdoc \<Rightarrow> bool" and unique_elems :: "jelems \<Rightarrow> bool" and unique_membs :: "jmembs \<Rightarrow> bool" where
  "unique_keys (DLit s) = True"
| "unique_keys (DStr is) = True"
| "unique_keys (DArr w es) = unique_elems es"
| "unique_keys (DObj w ms) = (distinct (memb_keys ms) \<and> unique_membs ms)"
| "unique_elems ENil = True"
| "unique_elems (ECons w1 d w2 es) = (unique_keys d \<and> unique_elems es)"
| "unique_membs MNil = True"
| "unique_membs (MCons w1 k w2 w3 d w4 ms) = (unique_keys d \<and> unique_membs ms)"

subsection \<open>Tokens\<close>

lemma json_ws_special [simp]:
  "\<not> json_ws (CHR 0x22)" "\<not> json_ws (CHR '','')" "\<not> json_ws (CHR '':'')" "\<not> json_ws (CHR ''['')" "\<not> json_ws (CHR '']'')"
  "\<not> json_ws (CHR ''{'')" "\<not> json_ws (CHR ''}'')"
  by (simp_all add: json_ws_def)

lemma skip_ws_append: "ws_text w \<Longrightarrow> skip_ws (w @ s) = skip_ws s"
  by (auto simp: skip_ws_def ws_text_def list_all_iff dropWhile_append1 dropWhile_append2)

lemma skip_ws_stop: "\<not> json_ws c \<Longrightarrow> skip_ws (c # s) = c # s"
  by (simp add: skip_ws_def)

lemma scan_loop_ws: "ws_text w \<Longrightarrow> scan_loop st (w @ s) = scan_loop st s"
  by (subst (1 2) scan_loop.simps) (simp add: skip_ws_append)

lemma scan_loop_step:
  "\<not> json_ws c \<Longrightarrow> scan_loop st (c # s) = (case scan_step st c s of Inl e \<Rightarrow> Inl e | Inr (st', t) \<Rightarrow> scan_loop st' t)"
  by (subst scan_loop.simps) (simp add: skip_ws_stop)

lemma scan_loop_skip: "scan_loop st (skip_ws s) = scan_loop st s"
  by (subst (1 2) scan_loop.simps) (simp add: skip_ws_def)

lemma unescape_u: "unescape (CHR ''u'') = None"
  by code_simp

lemma read_item_text:
  assumes "item_ok x" "item_text x = c # cs"
  shows "c \<noteq> CHR 0x22" "read_item c (cs @ rest) = Some (item_value x, rest)"
proof -
  show "c \<noteq> CHR 0x22" using assms by (cases x) auto
  show "read_item c (cs @ rest) = Some (item_value x, rest)"
  proof (cases x)
    case (Plain b)
    then have "b = c # cs" "lead_len c = length (c # cs)" "c \<noteq> CHR 0x5C" using assms by auto
    then show ?thesis using Plain by (simp add: read_item_def)
  next
    case (Escaped e)
    then obtain y where "c = CHR 0x5C" "cs = [e]" "unescape e = Some y" "e \<noteq> CHR ''u''"
      using assms unescape_u by fastforce
    then show ?thesis using Escaped by (simp add: read_item_def)
  next
    case (Unicode h)
    then obtain cp where "c = CHR 0x5C" "cs = CHR ''u'' # h" "length h = 4" "hex4 h = Some cp" "\<not> is_surrogate cp"
      using assms by (auto split: option.splits)
    then show ?thesis using Unicode by (simp add: read_item_def)
  qed
qed

lemma item_text_nonempty: "item_ok x \<Longrightarrow> item_text x \<noteq> []"
  by (cases x) auto

lemma read_string_text:
  "list_all item_ok is \<Longrightarrow> read_string out (str_text is @ CHR 0x22 # rest) = Some (out @ str_value is, rest)"
proof (induction "is" arbitrary: out)
  case Nil
  then show ?case by (subst read_string.simps) (simp add: str_text_def str_value_def)
next
  case (Cons x xs)
  obtain c cs where x: "item_text x = c # cs" using Cons(2) item_text_nonempty by (cases "item_text x") auto
  note r = read_item_text(1) [OF _ x] read_item_text(2) [OF _ x, where rest = "str_text xs @ CHR 0x22 # rest"]
  have "str_text (x # xs) @ CHR 0x22 # rest = c # cs @ str_text xs @ CHR 0x22 # rest"
    using x by (simp add: str_text_def)
  moreover have "out @ str_value (x # xs) = (out @ item_value x) @ str_value xs" by (simp add: str_value_def)
  ultimately show ?case using Cons r by (subst read_string.simps) simp
qed

text \<open>After a value comes nothing that could continue a number.\<close>

definition delimited :: "string \<Rightarrow> bool" where
  "delimited s \<longleftrightarrow> s = [] \<or> \<not> num_char (hd s)"

lemma not_num_char [simp]:
  "\<not> num_char (CHR '','')" "\<not> num_char (CHR '']'')" "\<not> num_char (CHR ''}'')" "\<not> num_char (CHR ''t'')" "\<not> num_char (CHR ''f'')" "\<not> num_char (CHR ''n'')"
  by (simp_all add: num_char_def is_ascii_digit_def)

lemma ws_not_num: "json_ws c \<Longrightarrow> \<not> num_char c"
  by (auto simp: json_ws_def num_char_def is_ascii_digit_def)

lemma delimited_ws: "ws_text w \<Longrightarrow> delimited s \<Longrightarrow> delimited (w @ s)"
  by (cases w) (auto simp: delimited_def ws_text_def ws_not_num)

lemma delimited_Cons [simp]: "delimited (c # s) \<longleftrightarrow> \<not> num_char c"
  by (simp add: delimited_def)

lemma skip_number:
  assumes "list_all num_char u" "u \<noteq> []" "delimited rest"
  shows "takeWhile num_char (u @ rest) \<noteq> [] \<and> dropWhile num_char (u @ rest) = rest"
  using assms by (cases u; cases rest) (auto simp: list_all_iff delimited_def)

lemma skip_literal_text:
  assumes "literal_text s" "delimited rest"
  shows "skip_literal (s @ rest) = Some rest"
proof (cases "s \<in> {''true'', ''false'', ''null''}")
  case True
  then show ?thesis by (auto simp: skip_literal_def)
next
  case False
  then have n: "s \<noteq> []" "s \<noteq> ''-''" "list_all num_char s" "is_ascii_digit (hd s) \<or> hd s = CHR ''-''"
    using assms(1) by (auto simp: literal_text_def)
  obtain c u where s: "s = c # u" using n(1) by (cases s) auto
  have "c \<noteq> CHR ''t''" "c \<noteq> CHR ''f''" "c \<noteq> CHR ''n''" using n(3) s by auto
  moreover have "takeWhile num_char (s @ rest) \<noteq> [] \<and> dropWhile num_char (s @ rest) = rest"
    by (rule skip_number [OF n(3,1) assms(2)])
  moreover have "c = CHR ''-'' \<Longrightarrow> takeWhile num_char (u @ rest) \<noteq> [] \<and> dropWhile num_char (u @ rest) = rest"
    using n s by (intro skip_number [OF _ _ assms(2)]) auto
  ultimately show ?thesis using s by (auto simp: skip_literal_def Let_def)
qed
subsection \<open>Values\<close>

text \<open>A value is expected, and what is left of the state when it was read.\<close>

definition value_pos :: "scan_state \<Rightarrow> bool" where
  "value_pos st =
     (ss_depth st \<le> MAX_DEPTH \<and>
      (case ss_stack st of [] \<Rightarrow> \<not> ss_root_seen st | f # fs \<Rightarrow> sc_ctx f = CtxObj \<longrightarrow> \<not> sc_expect_key f))"

definition after_value :: "scan_state \<Rightarrow> scan_state" where
  "after_value st = (if ss_stack st = [] then st\<lparr>ss_root_seen := True\<rparr> else st)"

definition push :: "scan_ctx \<Rightarrow> scan_state \<Rightarrow> scan_state" where
  "push ctx st = (after_value st)\<lparr>ss_depth := ss_depth st + 1,
     ss_stack := \<lparr>sc_ctx = ctx, sc_keys = [], sc_expect_key = (ctx = CtxObj)\<rparr> # ss_stack st\<rparr>"

definition no_key :: "scan_frame list \<Rightarrow> bool" where
  "no_key fs = (case fs of [] \<Rightarrow> True | f # _ \<Rightarrow> sc_ctx f = CtxObj \<longrightarrow> \<not> sc_expect_key f)"

lemma set_expect_same: "no_key fs \<Longrightarrow> in_obj fs \<Longrightarrow> set_expect False fs = fs"
  by (cases fs) (auto simp: no_key_def in_obj_def set_expect_def)

lemma value_pos_no_key: "value_pos st \<Longrightarrow> no_key (ss_stack st)"
  by (auto simp: value_pos_def no_key_def split: list.splits)

lemma scan_open_value:
  assumes "value_pos st"
  shows "scan_open ctx u st = (if ss_depth st < MAX_DEPTH then Inr (push ctx st) else Inl (framing_bad ''max depth exceeded''))"
  using assms set_expect_same [OF value_pos_no_key [OF assms]]
  by (auto simp: scan_open_def push_def after_value_def bind_result_def value_pos_def expecting_key_def
      split: list.splits)

lemma scan_close_frame:
  assumes "no_key fs" "ss_stack st = f # fs" "sc_ctx f = ctx"
  shows "scan_close ctx st = Inr (st\<lparr>ss_depth := ss_depth st - 1, ss_stack := fs\<rparr>)"
  using assms set_expect_same [OF assms(1)] by (simp add: scan_close_def)

lemma close_push:
  assumes "value_pos st" "ss_stack (push ctx st) = f # fs" "sc_ctx f' = ctx"
  shows "scan_close ctx ((push ctx st)\<lparr>ss_stack := f' # fs\<rparr>) = Inr (after_value st)"
  using assms scan_close_frame [of fs "(push ctx st)\<lparr>ss_stack := f' # fs\<rparr>" f' ctx] value_pos_no_key [OF assms(1)]
  by (simp add: push_def after_value_def)

lemma literal_head:
  assumes "literal_text s"
  obtains c u where "s = c # u" "\<not> json_ws c" "c \<notin> {CHR ''{'', CHR ''['', CHR ''}'', CHR '']'', CHR 0x22, CHR '','', CHR '':''}"
proof -
  obtain c u where s: "s = c # u" using assms by (cases s) (auto simp: literal_text_def)
  have "num_char c \<or> c \<in> {CHR ''t'', CHR ''f'', CHR ''n''}" using assms s by (auto simp: literal_text_def)
  then have "\<not> json_ws c" "c \<notin> {CHR ''{'', CHR ''['', CHR ''}'', CHR '']'', CHR 0x22, CHR '','', CHR '':''}"
    by (auto simp: num_char_def is_ascii_digit_def json_ws_def)
  then show thesis using that s by blast
qed

lemma scan_literal_value:
  assumes "value_pos st" "literal_text s" "delimited rest"
  shows "scan_loop st (s @ rest) = scan_loop (after_value st) rest"
proof -
  obtain c u where s: "s = c # u" "\<not> json_ws c" "c \<notin> {CHR ''{'', CHR ''['', CHR ''}'', CHR '']'', CHR 0x22, CHR '','', CHR '':''}"
    using literal_head [OF assms(2)] .
  have "scan_literal st (s @ rest) = Inr (after_value st, rest)"
    using assms(1) skip_literal_text [OF assms(2,3)] set_expect_same [OF value_pos_no_key [OF assms(1)]]
    by (auto simp: scan_literal_def after_value_def value_pos_def expecting_key_def split: list.splits)
  then show ?thesis using s by (simp add: scan_loop_step scan_step_def)
qed

lemma scan_string_value:
  assumes "value_pos st" "list_all item_ok is"
  shows "scan_loop st (CHR 0x22 # str_text is @ CHR 0x22 # rest) = scan_loop (after_value st) rest"
proof -
  have "scan_string st (str_text is @ CHR 0x22 # rest) = Inr (after_value st, skip_ws rest)"
    using assms(1) read_string_text [OF assms(2), of "[]" rest]
    by (auto simp: scan_string_def Let_def after_value_def value_pos_def split: list.splits)
  then show ?thesis by (simp add: scan_loop_step scan_step_def scan_loop_skip)
qed

lemma scan_key:
  assumes "ss_stack st = f # fs" "sc_ctx f = CtxObj" "sc_expect_key f" "list_all item_ok is" "ws_text w"
  shows "scan_loop st (CHR 0x22 # str_text is @ CHR 0x22 # w @ CHR '':'' # rest) =
    (if str_value is \<in> set (sc_keys f) then Inl (framing_bad ''duplicate key'')
     else scan_loop (st\<lparr>ss_stack := f\<lparr>sc_keys := str_value is # sc_keys f, sc_expect_key := False\<rparr> # fs\<rparr>) rest)"
  using assms read_string_text [OF assms(4), of "[]" "w @ CHR '':'' # rest"]
  by (simp add: scan_loop_step scan_step_def scan_string_def skip_ws_append skip_ws_stop)

lemma scan_loop_comma:
  assumes "ss_stack st = f # fs"
  shows "scan_loop st (CHR '','' # s) = scan_loop (if sc_ctx f = CtxObj then st\<lparr>ss_stack := f\<lparr>sc_expect_key := True\<rparr> # fs\<rparr> else st) s"
  using assms by (simp add: scan_loop_step scan_step_def scan_comma_def in_obj_def set_expect_def bind_result_def)

text \<open>The three parts of the grammar together.\<close>

definition reads :: "bool \<Rightarrow> scan_state \<Rightarrow> string \<Rightarrow> scan_state \<Rightarrow> string \<Rightarrow> bool" where
  "reads ok st s st' s' \<longleftrightarrow> (if ok then scan_loop st s = scan_loop st' s' else (\<exists>e. scan_loop st s = Inl e))"

lemma reads_ws: "ws_text w \<Longrightarrow> reads ok st (w @ s) st' s' = reads ok st s st' s'"
  by (simp add: reads_def scan_loop_ws)

lemma reads_trans:
  "reads ok1 st s st1 s1 \<Longrightarrow> (ok1 \<Longrightarrow> reads ok2 st1 s1 st2 s2) \<Longrightarrow> reads (ok1 \<and> ok2) st s st2 s2"
  by (cases ok1; cases ok2) (auto simp: reads_def)

lemma reads_refl: "reads True st s st s"
  by (simp add: reads_def)

lemma reads_open:
  assumes "value_pos st" "open = CHR ''['' \<and> close = CHR '']'' \<and> ctx = CtxArr \<or> open = CHR ''{'' \<and> close = CHR ''}'' \<and> ctx = CtxObj"
    "sc_ctx f' = ctx"
    "Suc (ss_depth st) \<le> MAX_DEPTH \<Longrightarrow> reads ok (push ctx st) s ((push ctx st)\<lparr>ss_stack := f' # ss_stack st\<rparr>) (close # rest)"
  shows "reads (Suc (ss_depth st) \<le> MAX_DEPTH \<and> ok) st (open # s) (after_value st) rest"
proof -
  have 1: "scan_loop ((push ctx st)\<lparr>ss_stack := f' # ss_stack st\<rparr>) (close # rest) = scan_loop (after_value st) rest"
    using close_push [OF assms(1), of ctx _ "ss_stack st" f'] assms(2,3)
    by (auto simp: scan_loop_step scan_step_def push_def bind_result_def)
  have 2: "scan_loop st (open # s) = (if Suc (ss_depth st) \<le> MAX_DEPTH then scan_loop (push ctx st) s else Inl (framing_bad ''max depth exceeded''))"
    using assms(2) by (auto simp: scan_loop_step scan_step_def scan_open_value [OF assms(1)] bind_result_def)
  show ?thesis using assms(4) by (auto simp: reads_def 1 2 split: if_splits)
qed

lemma push_simps:
  "ss_depth (push ctx st) = Suc (ss_depth st)"
  "ss_stack (push ctx st) = \<lparr>sc_ctx = ctx, sc_keys = [], sc_expect_key = (ctx = CtxObj)\<rparr> # ss_stack st"
  by (simp_all add: push_def)

definition reads_doc :: "jdoc \<Rightarrow> bool" where
  "reads_doc d \<longleftrightarrow> (\<forall>st rest. value_pos st \<longrightarrow> doc_ok d \<longrightarrow> delimited rest \<longrightarrow>
     reads (nesting d + ss_depth st \<le> MAX_DEPTH \<and> unique_keys d) st (doc_text d @ rest) (after_value st) rest)"

definition reads_elems :: "jelems \<Rightarrow> bool" where
  "reads_elems es \<longleftrightarrow> (\<forall>st f fs rest. ss_stack st = f # fs \<longrightarrow> sc_ctx f = CtxArr \<longrightarrow> ss_depth st \<le> MAX_DEPTH \<longrightarrow> elems_ok es \<longrightarrow>
     reads (nesting_elems es + ss_depth st \<le> MAX_DEPTH \<and> unique_elems es) st (elems_text es @ CHR '']'' # rest) st (CHR '']'' # rest))"

definition reads_membs :: "jmembs \<Rightarrow> bool" where
  "reads_membs ms \<longleftrightarrow> (\<forall>st f fs rest. ss_stack st = f # fs \<longrightarrow> sc_ctx f = CtxObj \<longrightarrow> sc_expect_key f \<longrightarrow> ss_depth st \<le> MAX_DEPTH \<longrightarrow> membs_ok ms \<longrightarrow>
     (\<exists>f'. sc_ctx f' = CtxObj \<and>
       reads (nesting_membs ms + ss_depth st \<le> MAX_DEPTH \<and> unique_membs ms \<and> distinct (memb_keys ms) \<and> set (memb_keys ms) \<inter> set (sc_keys f) = {})
         st (membs_text ms @ CHR ''}'' # rest) (st\<lparr>ss_stack := f' # fs\<rparr>) (CHR ''}'' # rest)))"

lemma delimited_tail: "ws_text w \<Longrightarrow> \<not> num_char c \<Longrightarrow> delimited (w @ (if b then [] else CHR '','' # x) @ c # r)"
  by (rule delimited_ws) auto

lemma reads_elems_Cons:
  assumes d: "reads_doc d" and es: "reads_elems es"
  shows "reads_elems (ECons w1 d w2 es)"
  unfolding reads_elems_def
proof (intro allI impI)
  fix st :: scan_state and f fs rest
  assume st: "ss_stack st = f # fs" "sc_ctx f = CtxArr" "ss_depth st \<le> MAX_DEPTH" and ok: "elems_ok (ECons w1 d w2 es)"
  let ?tail = "(if es = ENil then [] else CHR '','' # elems_text es) @ CHR '']'' # rest"
  have v: "value_pos st" "after_value st = st" using st by (simp_all add: value_pos_def after_value_def)
  have "delimited (w2 @ ?tail)" using ok by (intro delimited_tail) simp_all
  then have 1: "reads (nesting d + ss_depth st \<le> MAX_DEPTH \<and> unique_keys d) st (doc_text d @ w2 @ ?tail) st (w2 @ ?tail)"
    using d v ok unfolding reads_doc_def by (metis elems_ok.simps(2))
  have 2: "reads (nesting_elems es + ss_depth st \<le> MAX_DEPTH \<and> unique_elems es) st (w2 @ ?tail) st (CHR '']'' # rest)"
  proof (cases "es = ENil")
    case True
    then show ?thesis using ok st(3) by (simp add: reads_def scan_loop_ws)
  next
    case False
    have "reads (nesting_elems es + ss_depth st \<le> MAX_DEPTH \<and> unique_elems es) st (elems_text es @ CHR '']'' # rest) st (CHR '']'' # rest)"
      using es st ok unfolding reads_elems_def by (metis elems_ok.simps(2))
    then show ?thesis using False ok st(1,2) by (simp add: reads_def scan_loop_ws scan_loop_comma)
  qed
  show "reads (nesting_elems (ECons w1 d w2 es) + ss_depth st \<le> MAX_DEPTH \<and> unique_elems (ECons w1 d w2 es)) st
      (elems_text (ECons w1 d w2 es) @ CHR '']'' # rest) st (CHR '']'' # rest)"
    using reads_trans [OF 1 2] ok
    by (auto simp: reads_ws reads_def scan_loop_ws split: if_splits)
qed

lemma reads_membs_more:
  assumes ms: "reads_membs ms" and st: "ss_stack st = f # fs" "sc_ctx f = CtxObj" "sc_expect_key f" "ss_depth st \<le> MAX_DEPTH"
    and ok: "membs_ok ms" "ws_text w"
  shows "\<exists>f'. sc_ctx f' = CtxObj \<and>
    reads (nesting_membs ms + ss_depth st \<le> MAX_DEPTH \<and> unique_membs ms \<and> distinct (memb_keys ms) \<and>
        set (memb_keys ms) \<inter> set (str_value k # sc_keys f) = {})
      (st\<lparr>ss_stack := f\<lparr>sc_keys := str_value k # sc_keys f, sc_expect_key := False\<rparr> # fs\<rparr>)
      (w @ (if ms = MNil then [] else CHR '','' # membs_text ms) @ CHR ''}'' # rest) (st\<lparr>ss_stack := f' # fs\<rparr>) (CHR ''}'' # rest)"
proof (cases "ms = MNil")
  case True
  then show ?thesis using ok st by (intro exI [of _ "f\<lparr>sc_keys := str_value k # sc_keys f, sc_expect_key := False\<rparr>"]) (simp add: reads_def scan_loop_ws)
next
  case False
  let ?f = "f\<lparr>sc_keys := str_value k # sc_keys f, sc_expect_key := True\<rparr>"
  let ?st = "st\<lparr>ss_stack := ?f # fs\<rparr>"
  have "ss_stack ?st = ?f # fs" "sc_ctx ?f = CtxObj" "sc_expect_key ?f" "ss_depth ?st \<le> MAX_DEPTH" using st by simp_all
  then obtain f' where "sc_ctx f' = CtxObj" and
    "reads (nesting_membs ms + ss_depth ?st \<le> MAX_DEPTH \<and> unique_membs ms \<and> distinct (memb_keys ms) \<and> set (memb_keys ms) \<inter> set (sc_keys ?f) = {})
       ?st (membs_text ms @ CHR ''}'' # rest) (?st\<lparr>ss_stack := f' # fs\<rparr>) (CHR ''}'' # rest)"
    using ms ok(1) unfolding reads_membs_def by blast
  then show ?thesis using False ok(2) st(2) by (intro exI [of _ f']) (simp add: reads_def scan_loop_ws scan_loop_comma)
qed

lemma reads_membs_Cons:
  assumes d: "reads_doc d" and ms: "reads_membs ms"
  shows "reads_membs (MCons w1 k w2 w3 d w4 ms)"
  unfolding reads_membs_def
proof (intro allI impI)
  fix st :: scan_state and f fs rest
  assume st: "ss_stack st = f # fs" "sc_ctx f = CtxObj" "sc_expect_key f" "ss_depth st \<le> MAX_DEPTH"
    and ok: "membs_ok (MCons w1 k w2 w3 d w4 ms)"
  let ?f = "f\<lparr>sc_keys := str_value k # sc_keys f, sc_expect_key := False\<rparr>" 
  let ?st = "st\<lparr>ss_stack := ?f # fs\<rparr>"
  let ?tail = "(if ms = MNil then [] else CHR '','' # membs_text ms) @ CHR ''}'' # rest"
  show "\<exists>f'. sc_ctx f' = CtxObj \<and> reads (nesting_membs (MCons w1 k w2 w3 d w4 ms) + ss_depth st \<le> MAX_DEPTH \<and>
      unique_membs (MCons w1 k w2 w3 d w4 ms) \<and> distinct (memb_keys (MCons w1 k w2 w3 d w4 ms)) \<and>
      set (memb_keys (MCons w1 k w2 w3 d w4 ms)) \<inter> set (sc_keys f) = {})
      st (membs_text (MCons w1 k w2 w3 d w4 ms) @ CHR ''}'' # rest) (st\<lparr>ss_stack := f' # fs\<rparr>) (CHR ''}'' # rest)"
  proof -
    have v: "value_pos ?st" "after_value ?st = ?st" using st by (simp_all add: value_pos_def after_value_def)
    have "delimited (w4 @ ?tail)" using ok by (intro delimited_tail) simp_all
    then have 1: "reads (nesting d + ss_depth st \<le> MAX_DEPTH \<and> unique_keys d) ?st (doc_text d @ w4 @ ?tail) ?st (w4 @ ?tail)"
      using d v ok unfolding reads_doc_def by fastforce
    obtain f' where f': "sc_ctx f' = CtxObj" and
      2: "reads (nesting_membs ms + ss_depth st \<le> MAX_DEPTH \<and> unique_membs ms \<and> distinct (memb_keys ms) \<and>
          set (memb_keys ms) \<inter> set (str_value k # sc_keys f) = {}) ?st (w4 @ ?tail) (st\<lparr>ss_stack := f' # fs\<rparr>) (CHR ''}'' # rest)"
      using reads_membs_more [OF ms st, where k = k and w = w4 and rest = rest] ok by auto
    have 0: "reads (str_value k \<notin> set (sc_keys f)) st (membs_text (MCons w1 k w2 w3 d w4 ms) @ CHR ''}'' # rest) ?st (doc_text d @ w4 @ ?tail)"
      using ok scan_key [OF st(1-3), of k w2] by (simp add: reads_def scan_loop_ws)
    have eq: "(nesting_membs (MCons w1 k w2 w3 d w4 ms) + ss_depth st \<le> MAX_DEPTH \<and>
      unique_membs (MCons w1 k w2 w3 d w4 ms) \<and> distinct (memb_keys (MCons w1 k w2 w3 d w4 ms)) \<and>
      set (memb_keys (MCons w1 k w2 w3 d w4 ms)) \<inter> set (sc_keys f) = {}) \<longleftrightarrow>
      str_value k \<notin> set (sc_keys f) \<and> (nesting d + ss_depth st \<le> MAX_DEPTH \<and> unique_keys d) \<and>
      (nesting_membs ms + ss_depth st \<le> MAX_DEPTH \<and> unique_membs ms \<and> distinct (memb_keys ms) \<and>
          set (memb_keys ms) \<inter> set (str_value k # sc_keys f) = {})"
      by auto
    show ?thesis unfolding eq using f' reads_trans [OF 0 reads_trans [OF 1 2]] by blast
  qed
qed

lemma reads_membs_push:
  assumes "reads_membs ms" "membs_ok ms" "ws_text w"
  shows "\<exists>f'. sc_ctx f' = CtxObj \<and> (Suc (ss_depth st) \<le> MAX_DEPTH \<longrightarrow>
    reads (nesting_membs ms + Suc (ss_depth st) \<le> MAX_DEPTH \<and> unique_membs ms \<and> distinct (memb_keys ms))
      (push CtxObj st) (w @ membs_text ms @ CHR ''}'' # rest) ((push CtxObj st)\<lparr>ss_stack := f' # ss_stack st\<rparr>) (CHR ''}'' # rest))"
proof (cases "Suc (ss_depth st) \<le> MAX_DEPTH")
  case True
  let ?f = "\<lparr>sc_ctx = CtxObj, sc_keys = [], sc_expect_key = True\<rparr>"
  have "ss_stack (push CtxObj st) = ?f # ss_stack st" "ss_depth (push CtxObj st) \<le> MAX_DEPTH" using True by (simp_all add: push_simps)
  then show ?thesis
    using assms unfolding reads_membs_def
    by (auto dest!: spec [of _ "push CtxObj st"] simp: push_simps reads_ws)
next
  case False
  then show ?thesis by (auto intro: exI [of _ "\<lparr>sc_ctx = CtxObj, sc_keys = [], sc_expect_key = True\<rparr>"])
qed

lemma reads_all: "reads_doc d" "reads_elems es" "reads_membs ms"
proof (induction d and es and ms)
  case (DLit s)
  then show ?case by (auto simp: reads_doc_def reads_def scan_literal_value value_pos_def)
next
  case (DStr its)
  then show ?case by (auto simp: reads_doc_def reads_def scan_string_value value_pos_def)
next
  case (DArr w es)
  show ?case unfolding reads_doc_def
  proof (intro allI impI)
    fix st :: scan_state and rest
    assume v: "value_pos st" and ok: "doc_ok (DArr w es)" "delimited rest"
    let ?f = "\<lparr>sc_ctx = CtxArr, sc_keys = [], sc_expect_key = False\<rparr>"
    have same: "(push CtxArr st)\<lparr>ss_stack := ?f # ss_stack st\<rparr> = push CtxArr st" by (simp add: push_def)
    have *: "reads (nesting_elems es + Suc (ss_depth st) \<le> MAX_DEPTH \<and> unique_elems es) (push CtxArr st) (w @ elems_text es @ CHR '']'' # rest)
      ((push CtxArr st)\<lparr>ss_stack := ?f # ss_stack st\<rparr>) (CHR '']'' # rest)" if "Suc (ss_depth st) \<le> MAX_DEPTH"
      using DArr [unfolded reads_elems_def, rule_format, of "push CtxArr st" ?f "ss_stack st" rest] that ok
      by (simp add: reads_ws push_simps same)
    from reads_open [OF v _ _ *, of "CHR ''[''"]
    show "reads (nesting (DArr w es) + ss_depth st \<le> MAX_DEPTH \<and> unique_keys (DArr w es)) st (doc_text (DArr w es) @ rest) (after_value st) rest"
      by (simp add: reads_def split: if_splits)
  qed
next
  case (DObj w ms)
  show ?case unfolding reads_doc_def
  proof (intro allI impI)
    fix st :: scan_state and rest
    assume v: "value_pos st" and ok: "doc_ok (DObj w ms)" "delimited rest"
    obtain f' where f': "sc_ctx f' = CtxObj"
      "Suc (ss_depth st) \<le> MAX_DEPTH \<Longrightarrow> reads (nesting_membs ms + Suc (ss_depth st) \<le> MAX_DEPTH \<and> unique_membs ms \<and> distinct (memb_keys ms))
         (push CtxObj st) (w @ membs_text ms @ CHR ''}'' # rest) ((push CtxObj st)\<lparr>ss_stack := f' # ss_stack st\<rparr>) (CHR ''}'' # rest)"
      using DObj ok reads_membs_push [of ms w st rest] by auto
    from reads_open [OF v _ this, of "CHR ''{''"]
    show "reads (nesting (DObj w ms) + ss_depth st \<le> MAX_DEPTH \<and> unique_keys (DObj w ms)) st (doc_text (DObj w ms) @ rest) (after_value st) rest"
      by (auto simp: reads_def split: if_splits)
  qed
next
  case ENil
  then show ?case by (simp add: reads_elems_def reads_def)
next
  case (ECons w1 d w2 es)
  then show ?case by (rule reads_elems_Cons)
next
  case MNil
  show ?case unfolding reads_membs_def
  proof (intro allI impI)
    fix st :: scan_state and f fs rest
    assume st: "ss_stack st = f # fs" "sc_ctx f = CtxObj" "ss_depth st \<le> MAX_DEPTH"
    then have same: "st\<lparr>ss_stack := f # fs\<rparr> = st" by (cases st) simp
    show "\<exists>f'. sc_ctx f' = CtxObj \<and> reads (nesting_membs MNil + ss_depth st \<le> MAX_DEPTH \<and> unique_membs MNil \<and>
        distinct (memb_keys MNil) \<and> set (memb_keys MNil) \<inter> set (sc_keys f) = {})
        st (membs_text MNil @ CHR ''}'' # rest) (st\<lparr>ss_stack := f' # fs\<rparr>) (CHR ''}'' # rest)"
      using st by (intro exI [of _ f]) (simp add: reads_def same)
  qed
next
  case (MCons w1 k w2 w3 d w4 ms)
  then show ?case by (intro reads_membs_Cons)
qed

definition whole_text :: "string \<Rightarrow> jdoc \<Rightarrow> string \<Rightarrow> string" where
  "whole_text w1 d w2 = w1 @ doc_text d @ w2"

lemma scan_structure_whole:
  assumes "ws_text w1" "doc_ok d" "ws_text w2"
  shows "if nesting d \<le> MAX_DEPTH \<and> unique_keys d then scan_structure (whole_text w1 d w2) = Inr ()
         else \<exists>e. scan_structure (whole_text w1 d w2) = Inl e"
proof -
  let ?st = "\<lparr>ss_stack = [], ss_depth = 0, ss_root_seen = False\<rparr>"
  have "value_pos ?st" "delimited w2"
    using delimited_ws [OF assms(3), of "[]"] by (simp_all add: value_pos_def delimited_def)
  then have "reads (nesting d \<le> MAX_DEPTH \<and> unique_keys d) ?st (doc_text d @ w2) (after_value ?st) w2"
    using reads_all(1) [of d] assms(2) by (auto simp: reads_doc_def)
  moreover have "scan_loop (after_value ?st) [] = Inr ()" by (subst scan_loop.simps) (simp add: skip_ws_def after_value_def)
  ultimately show ?thesis using assms(1,3) scan_loop_ws [of w2 _ "[]"]
    by (auto simp: reads_def scan_structure_def whole_text_def scan_loop_ws bind_result_def split: if_splits)
qed

text \<open>C37. The structural scan that every frame passes before it is parsed decides exactly what it is meant to: on the text
  of a JSON document, with any white space around the document and its tokens, any numbers and any escapes in its strings
  but those of surrogates, it accepts if and only if the objects and arrays are nested at most 32 deep and no object repeats a key, where two keys
  are the same when their unescaped texts are. It keeps one depth counter and one stack of frames and no tree of the
  document, so this is the equivalence of that single pass with the recursive definitions of depth and of key uniqueness.\<close>

theorem scan_structure_decides:
  assumes "ws_text w1" "doc_ok d" "ws_text w2"
  shows "scan_structure (whole_text w1 d w2) = Inr () \<longleftrightarrow> nesting d \<le> MAX_DEPTH \<and> unique_keys d"
  using scan_structure_whole [OF assms] by (auto split: if_splits)

definition twice :: jdoc where
  "twice = DObj [] (MCons [] [Plain ''k''] [] '' '' (DArr '' '' ENil) []
     (MCons '' '' [Unicode ''006B''] [] [] (DLit ''1'') [] MNil))"

theorem scan_structure_decides_witness:
  "\<not> unique_keys twice \<and> scan_structure (whole_text [] twice '' '') \<noteq> Inr ()"
proof -
  have "ws_text []" "doc_ok twice" "ws_text '' ''" "\<not> unique_keys twice"
    by (simp_all add: twice_def ws_text_def json_ws_def literal_text_def num_char_def is_ascii_digit_def lead_len_def
        hex4_def hex_val_def utf8_of_def is_surrogate_def str_value_def char_of_def bit_0)
  then show ?thesis using scan_structure_decides [of "[]" twice "'' ''"] by simp
qed

end
