(* ===== verification/Mx_Identity.thy ===== *)
theory Mx_Identity
  imports Mx_Json
begin

text \<open>
  Kernel-issued identities (\<open>identity.rs\<close>), the lifecycle states (\<open>fsm.rs\<close>) and the legacy
  lease labels (\<open>leases.rs\<close>). The newtypes over \<open>u64\<close> are numbers here; the counters that
  issue them start at one and only grow.
\<close>

type_synonym instance_id = nat
type_synonym context_id = nat
type_synonym resource_handle = nat
type_synonym ticket_id = nat

record instance_ref =
  ir_epoch :: nat
  ir_instance :: nat
  ir_context :: nat
  ir_logical :: string
  ir_generation :: nat

definition instance_ref_new :: "nat \<Rightarrow> nat \<Rightarrow> nat \<Rightarrow> string \<Rightarrow> nat \<Rightarrow> instance_ref" where
  "instance_ref_new e i c l g =
     \<lparr>ir_epoch = e, ir_instance = i, ir_context = c, ir_logical = l, ir_generation = g\<rparr>"

definition describe :: "instance_ref \<Rightarrow> string" where
  "describe r = ''e'' @ show_nat (ir_epoch r) @ '':'' @ ir_logical r @ '':'' @ show_nat (ir_instance r)
     @ '':'' @ show_nat (ir_context r) @ ''#'' @ show_nat (ir_generation r)"

definition same_activation :: "instance_ref \<Rightarrow> instance_ref \<Rightarrow> bool" where
  "same_activation a b \<longleftrightarrow>
     ir_epoch a = ir_epoch b \<and> ir_instance a = ir_instance b \<and> ir_generation a = ir_generation b"

definition show_instance :: "instance_id \<Rightarrow> string" where
  "show_instance i = ''inst-'' @ show_nat i"

definition show_context :: "context_id \<Rightarrow> string" where
  "show_context c = ''ctx-'' @ show_nat c"

definition show_handle :: "resource_handle \<Rightarrow> string" where
  "show_handle h = ''res-'' @ show_nat h"

subsection \<open>Lifecycle states\<close>

datatype fsm =
    Registered | Waiting | Preparing | Active | Quiescing | CleanupPending | Disposed | Failed
  | Pending | Loading | Unloading

fun fsm_as_str :: "fsm \<Rightarrow> string" where
  "fsm_as_str Registered = ''Registered''"
| "fsm_as_str Waiting = ''Waiting''"
| "fsm_as_str Preparing = ''Preparing''"
| "fsm_as_str Active = ''Active''"
| "fsm_as_str Quiescing = ''Quiescing''"
| "fsm_as_str CleanupPending = ''CleanupPending''"
| "fsm_as_str Disposed = ''Disposed''"
| "fsm_as_str Failed = ''Failed''"
| "fsm_as_str Pending = ''Pending''"
| "fsm_as_str Loading = ''Loading''"
| "fsm_as_str Unloading = ''Unloading''"

definition admits_calls :: "fsm \<Rightarrow> bool" where
  "admits_calls s \<longleftrightarrow> s = Active"

fun canonical :: "fsm \<Rightarrow> fsm" where
  "canonical Pending = Registered"
| "canonical Loading = Preparing"
| "canonical Unloading = Quiescing"
| "canonical s = s"

definition is_terminal_like :: "fsm \<Rightarrow> bool" where
  "is_terminal_like s \<longleftrightarrow> canonical s \<in> {Disposed, Failed, CleanupPending}"

text \<open>The states an activation can no longer leave towards \<open>Active\<close>.\<close>

definition withdrawn_state :: "fsm \<Rightarrow> bool" where
  "withdrawn_state s \<longleftrightarrow> canonical s \<in> {Quiescing, CleanupPending, Disposed, Failed}"

lemma canonical_idem [simp]: "canonical (canonical s) = canonical s"
  by (cases s) auto

lemma canonical_Active [simp]: "canonical s = Active \<longleftrightarrow> s = Active"
  by (cases s) auto

lemma withdrawn_state_simps [simp]:
  "withdrawn_state Quiescing" "withdrawn_state CleanupPending" "withdrawn_state Disposed"
  "withdrawn_state Failed" "\<not> withdrawn_state Active" "\<not> withdrawn_state Waiting"
  by (simp_all add: withdrawn_state_def)

text \<open>\<open>leases.rs\<close>: labels kept for the old command line.\<close>

datatype lease_kind = LFd | LChild | LTimer | LSub | LCap

record lease =
  ls_kind :: lease_kind
  ls_label :: string

definition lease_new :: "lease_kind \<Rightarrow> string \<Rightarrow> lease" where
  "lease_new k l = \<lparr>ls_kind = k, ls_label = l\<rparr>"

end
