(* ===== verification/Mx_Context.thy ===== *)
theory Mx_Context
  imports Mx_Identity
begin

text \<open>
  The table of activations (\<open>context.rs\<close>): one record per instance, the current instance of
  each logical id and its generation counter. Every operation takes the table and returns
  the new one; the mutex makes each of them atomic.
\<close>

named_theorems ctx_defs \<open>definitions of the context table operations\<close>

record context_record =
  cr_context :: context_id
  cr_instance :: instance_id
  cr_logical :: string
  cr_generation :: nat
  cr_epoch :: nat
  cr_state :: fsm
  cr_parent :: "context_id option"
  cr_cause :: "string option"

definition reference :: "context_record \<Rightarrow> instance_ref" where
  "reference r = instance_ref_new (cr_epoch r) (cr_instance r) (cr_context r) (cr_logical r) (cr_generation r)"

datatype context_error =
    UnknownInstance nat
  | UnknownContext nat
  | NotActive string string
  | StaleGeneration string nat nat
  | AlreadyDisposed string

fun show_context_error :: "context_error \<Rightarrow> string" where
  "show_context_error (UnknownInstance i) = ''unknown instance inst-'' @ show_nat i"
| "show_context_error (UnknownContext c) = ''unknown context ctx-'' @ show_nat c"
| "show_context_error (NotActive l s) = ''context-not-active: '' @ l @ '' is '' @ s"
| "show_context_error (StaleGeneration l e g) =
     ''stale-generation: '' @ l @ '' expected #'' @ show_nat e @ '' got #'' @ show_nat g"
| "show_context_error (AlreadyDisposed l) = ''already disposed: '' @ l"

datatype dispose_claim = Fresh context_record | InFlight string

record context_table =
  ct_epoch :: nat
  ct_next_instance :: nat
  ct_next_context :: nat
  ct_by_instance :: "(instance_id, context_record) hmap"
  ct_by_context :: "(context_id, instance_id) hmap"
  ct_current :: "(string, instance_id) hmap"
  ct_generations :: "(string, nat) hmap"

text \<open>The boot epoch comes from the operating system's entropy source.\<close>

definition ctx_new :: "nat \<Rightarrow> context_table" where
  "ctx_new fresh_epoch =
     \<lparr>ct_epoch = fresh_epoch, ct_next_instance = 1, ct_next_context = 1, ct_by_instance = [],
      ct_by_context = [], ct_current = [], ct_generations = []\<rparr>"

definition ctx_create_in :: "string \<Rightarrow> fsm \<Rightarrow> string option \<Rightarrow> context_table \<Rightarrow> context_table \<times> context_record" where
  "ctx_create_in logical state cause t =
     (let gen = opt_or (hm_get (ct_generations t) logical) 0 + 1;
          inst = ct_next_instance t;
          ctx = ct_next_context t;
          rec = \<lparr>cr_context = ctx, cr_instance = inst, cr_logical = logical, cr_generation = gen,
                 cr_epoch = ct_epoch t, cr_state = state, cr_parent = None, cr_cause = cause\<rparr>
      in (t\<lparr>ct_generations := hm_insert logical gen (ct_generations t),
            ct_next_instance := inst + 1,
            ct_next_context := ctx + 1,
            ct_by_context := hm_insert ctx inst (ct_by_context t),
            ct_by_instance := hm_insert inst rec (ct_by_instance t),
            ct_current := hm_insert logical inst (ct_current t)\<rparr>, rec))"

definition ctx_create :: "string \<Rightarrow> context_table \<Rightarrow> context_table \<times> context_record" where
  "ctx_create logical t = ctx_create_in logical Active None t"

definition ctx_create_waiting :: "string \<Rightarrow> string \<Rightarrow> context_table \<Rightarrow> context_table \<times> context_record" where
  "ctx_create_waiting logical cause t = ctx_create_in logical Waiting (Some cause) t"

definition ctx_get_by_instance :: "context_table \<Rightarrow> instance_id \<Rightarrow> context_record option" where
  "ctx_get_by_instance t inst = hm_get (ct_by_instance t) inst"

definition ctx_get_by_context :: "context_table \<Rightarrow> context_id \<Rightarrow> context_record option" where
  "ctx_get_by_context t ctx =
     Option.bind (hm_get (ct_by_context t) ctx) (\<lambda>inst. hm_get (ct_by_instance t) inst)"

definition ctx_current :: "context_table \<Rightarrow> string \<Rightarrow> context_record option" where
  "ctx_current t logical =
     Option.bind (hm_get (ct_current t) logical) (\<lambda>inst. hm_get (ct_by_instance t) inst)"

definition ctx_current_all :: "context_table \<Rightarrow> (string, context_record) hmap" where
  "ctx_current_all t =
     filter_map (\<lambda>(k, inst). map_option (\<lambda>r. (k, r)) (hm_get (ct_by_instance t) inst)) (ct_current t)"

definition ctx_generation_of :: "context_table \<Rightarrow> string \<Rightarrow> nat" where
  "ctx_generation_of t logical = opt_or (hm_get (ct_generations t) logical) 0"

definition ctx_require_active :: "context_table \<Rightarrow> instance_id \<Rightarrow> (context_error, context_record) result" where
  "ctx_require_active t inst =
     (case hm_get (ct_by_instance t) inst of
        None \<Rightarrow> Inl (UnknownInstance inst)
      | Some rec \<Rightarrow>
          if canonical (cr_state rec) \<noteq> Active
          then Inl (NotActive (cr_logical rec) (fsm_as_str (cr_state rec)))
          else (case hm_get (ct_current t) (cr_logical rec) of
                  Some cur \<Rightarrow>
                    if cur \<noteq> inst
                    then Inl (StaleGeneration (cr_logical rec)
                           (opt_or (map_option cr_generation (hm_get (ct_by_instance t) cur)) (cr_generation rec))
                           (cr_generation rec))
                    else Inr rec
                | None \<Rightarrow> Inr rec))"

definition ctx_update :: "instance_id \<Rightarrow> (context_record \<Rightarrow> context_record) \<Rightarrow> context_table \<Rightarrow> context_table" where
  "ctx_update inst f t = t\<lparr>ct_by_instance := hm_modify inst f (ct_by_instance t)\<rparr>"

definition ctx_claim_dispose ::
  "instance_id \<Rightarrow> context_table \<Rightarrow> context_table \<times> (context_error, dispose_claim) result" where
  "ctx_claim_dispose inst t =
     (case hm_get (ct_by_instance t) inst of
        None \<Rightarrow> (t, Inl (UnknownInstance inst))
      | Some rec \<Rightarrow>
          (case canonical (cr_state rec) of
             Disposed \<Rightarrow> (t, Inl (AlreadyDisposed (cr_logical rec)))
           | Failed \<Rightarrow> (t, Inl (AlreadyDisposed (cr_logical rec)))
           | Quiescing \<Rightarrow> (t, Inr (InFlight (cr_logical rec)))
           | CleanupPending \<Rightarrow> (t, Inr (InFlight (cr_logical rec)))
           | _ \<Rightarrow> (let f = (\<lambda>r. r\<lparr>cr_state := Quiescing, cr_cause := None\<rparr>)
                   in (ctx_update inst f t, Inr (Fresh (f rec))))))"

definition ctx_mark_disposed :: "instance_id \<Rightarrow> context_table \<Rightarrow> context_table" where
  "ctx_mark_disposed inst t = ctx_update inst (\<lambda>r. r\<lparr>cr_state := Disposed, cr_cause := None\<rparr>) t"

definition ctx_mark_cleanup_pending :: "instance_id \<Rightarrow> string \<Rightarrow> context_table \<Rightarrow> context_table" where
  "ctx_mark_cleanup_pending inst cause t =
     ctx_update inst (\<lambda>r. r\<lparr>cr_state := CleanupPending, cr_cause := Some cause\<rparr>) t"

definition ctx_mark_failed :: "instance_id \<Rightarrow> string \<Rightarrow> context_table \<Rightarrow> context_table" where
  "ctx_mark_failed inst cause t =
     ctx_update inst (\<lambda>r. r\<lparr>cr_state := Failed, cr_cause := Some cause\<rparr>) t"

definition ctx_mark_active :: "instance_id \<Rightarrow> context_table \<Rightarrow> context_table \<times> bool" where
  "ctx_mark_active inst t =
     (case hm_get (ct_by_instance t) inst of
        None \<Rightarrow> (t, False)
      | Some rec \<Rightarrow>
          (if canonical (cr_state rec) \<in> {Waiting, Preparing, Registered}
           then (ctx_update inst (\<lambda>r. r\<lparr>cr_state := Active, cr_cause := None\<rparr>) t, True)
           else (t, canonical (cr_state rec) = Active)))"

definition ctx_mark_waiting :: "instance_id \<Rightarrow> string \<Rightarrow> context_table \<Rightarrow> context_table \<times> bool" where
  "ctx_mark_waiting inst cause t =
     (case hm_get (ct_by_instance t) inst of
        None \<Rightarrow> (t, False)
      | Some rec \<Rightarrow>
          (if canonical (cr_state rec) \<in> {Waiting, Preparing, Registered}
           then (ctx_update inst (\<lambda>r. r\<lparr>cr_state := Waiting, cr_cause := Some cause\<rparr>) t, True)
           else (t, False)))"

definition ctx_set_state :: "instance_id \<Rightarrow> fsm \<Rightarrow> context_table \<Rightarrow> context_table" where
  "ctx_set_state inst state t = ctx_update inst (\<lambda>r. r\<lparr>cr_state := state\<rparr>) t"

definition ctx_snapshot :: "context_table \<Rightarrow> context_record list" where
  "ctx_snapshot t = sort_key (\<lambda>r. (cr_logical r, cr_generation r)) (hm_values (ct_by_instance t))"

lemmas [ctx_defs] = ctx_create_in_def ctx_create_def ctx_create_waiting_def ctx_claim_dispose_def
  ctx_mark_disposed_def ctx_mark_cleanup_pending_def ctx_mark_failed_def ctx_mark_active_def
  ctx_mark_waiting_def ctx_set_state_def

subsection \<open>Invariant\<close>

text \<open>
  The record of an instance is found under its own id, its context leads back to it, ids are
  below the counters, and its generation does not exceed the counter of its logical id; two
  activations of one logical id never share a generation; the current activation of a
  logical id is the one with the highest generation.
\<close>

definition ctx_rec_ok :: "context_table \<Rightarrow> instance_id \<Rightarrow> context_record \<Rightarrow> bool" where
  "ctx_rec_ok t i r \<longleftrightarrow>
     cr_instance r = i \<and> 0 < i \<and> i < ct_next_instance t \<and>
     0 < cr_context r \<and> cr_context r < ct_next_context t \<and> cr_epoch r = ct_epoch t \<and>
     hm_get (ct_by_context t) (cr_context r) = Some i \<and>
     0 < cr_generation r \<and> cr_generation r \<le> ctx_generation_of t (cr_logical r)"

definition ctx_inv :: "context_table \<Rightarrow> bool" where
  "ctx_inv t \<longleftrightarrow>
     hm_wf (ct_by_instance t) \<and> hm_wf (ct_by_context t) \<and> hm_wf (ct_current t) \<and> hm_wf (ct_generations t) \<and>
     0 < ct_next_instance t \<and> 0 < ct_next_context t \<and>
     (\<forall>i r. hm_get (ct_by_instance t) i = Some r \<longrightarrow> ctx_rec_ok t i r) \<and>
     (\<forall>c i. hm_get (ct_by_context t) c = Some i \<longrightarrow>
        (\<exists>r. hm_get (ct_by_instance t) i = Some r \<and> cr_context r = c)) \<and>
     (\<forall>l i. hm_get (ct_current t) l = Some i \<longrightarrow>
        (\<exists>r. hm_get (ct_by_instance t) i = Some r \<and> cr_logical r = l \<and>
             cr_generation r = ctx_generation_of t l)) \<and>
     (\<forall>l. 0 < ctx_generation_of t l \<longrightarrow> hm_get (ct_current t) l \<noteq> None) \<and>
     (\<forall>i j r s. hm_get (ct_by_instance t) i = Some r \<longrightarrow> hm_get (ct_by_instance t) j = Some s \<longrightarrow>
        cr_logical r = cr_logical s \<longrightarrow> cr_generation r = cr_generation s \<longrightarrow> i = j)"

lemma ctx_invI:
  assumes "hm_wf (ct_by_instance t)" "hm_wf (ct_by_context t)" "hm_wf (ct_current t)" "hm_wf (ct_generations t)"
    and "0 < ct_next_instance t" "0 < ct_next_context t"
    and "\<And>i r. hm_get (ct_by_instance t) i = Some r \<Longrightarrow> ctx_rec_ok t i r"
    and "\<And>c i. hm_get (ct_by_context t) c = Some i \<Longrightarrow>
           \<exists>r. hm_get (ct_by_instance t) i = Some r \<and> cr_context r = c"
    and "\<And>l i. hm_get (ct_current t) l = Some i \<Longrightarrow>
           \<exists>r. hm_get (ct_by_instance t) i = Some r \<and> cr_logical r = l \<and> cr_generation r = ctx_generation_of t l"
    and "\<And>l. 0 < ctx_generation_of t l \<Longrightarrow> hm_get (ct_current t) l \<noteq> None"
    and "\<And>i j r s. hm_get (ct_by_instance t) i = Some r \<Longrightarrow> hm_get (ct_by_instance t) j = Some s \<Longrightarrow>
           cr_logical r = cr_logical s \<Longrightarrow> cr_generation r = cr_generation s \<Longrightarrow> i = j"
  shows "ctx_inv t"
  unfolding ctx_inv_def using assms by blast

lemma ctx_inv_new [simp]: "ctx_inv (ctx_new e)"
  by (simp add: ctx_inv_def ctx_new_def ctx_generation_of_def opt_or_def)

lemma ctx_inv_recD:
  "ctx_inv t \<Longrightarrow> hm_get (ct_by_instance t) i = Some r \<Longrightarrow> ctx_rec_ok t i r"
  by (simp add: ctx_inv_def)

lemma ctx_inv_currentD:
  "ctx_inv t \<Longrightarrow> hm_get (ct_current t) l = Some i \<Longrightarrow>
     \<exists>r. hm_get (ct_by_instance t) i = Some r \<and> cr_logical r = l \<and> cr_generation r = ctx_generation_of t l"
  by (simp add: ctx_inv_def)

lemma ctx_inv_basicD:
  assumes "ctx_inv t"
  shows "hm_wf (ct_by_instance t)" "hm_wf (ct_by_context t)" "hm_wf (ct_current t)" "hm_wf (ct_generations t)"
    "0 < ct_next_instance t" "0 < ct_next_context t"
    "0 < ctx_generation_of t l \<Longrightarrow> hm_get (ct_current t) l \<noteq> None"
  using assms unfolding ctx_inv_def by blast+

lemma ctx_inv_contextD:
  "ctx_inv t \<Longrightarrow> hm_get (ct_by_context t) c = Some i \<Longrightarrow>
     \<exists>r. hm_get (ct_by_instance t) i = Some r \<and> cr_context r = c"
  by (simp add: ctx_inv_def)

lemma ctx_inv_uniqD:
  "ctx_inv t \<Longrightarrow> hm_get (ct_by_instance t) i = Some r \<Longrightarrow> hm_get (ct_by_instance t) j = Some s \<Longrightarrow>
     cr_logical r = cr_logical s \<Longrightarrow> cr_generation r = cr_generation s \<Longrightarrow> i = j"
  unfolding ctx_inv_def by blast

lemma ctx_inv_has_current:
  assumes "ctx_inv t" and "hm_get (ct_by_instance t) i = Some r"
  shows "\<exists>j. hm_get (ct_current t) (cr_logical r) = Some j"
proof -
  have "0 < ctx_generation_of t (cr_logical r)"
    using ctx_inv_recD [OF assms] by (auto simp: ctx_rec_ok_def)
  then show ?thesis using assms(1) by (auto simp: ctx_inv_def)
qed

lemma ctx_update_simps [simp]:
  "ct_epoch (ctx_update i f t) = ct_epoch t"
  "ct_next_instance (ctx_update i f t) = ct_next_instance t"
  "ct_next_context (ctx_update i f t) = ct_next_context t"
  "ct_by_context (ctx_update i f t) = ct_by_context t"
  "ct_current (ctx_update i f t) = ct_current t"
  "ct_generations (ctx_update i f t) = ct_generations t"
  "ct_by_instance (ctx_update i f t) = hm_modify i f (ct_by_instance t)"
  by (simp_all add: ctx_update_def)

lemma ctx_generation_of_update [simp]: "ctx_generation_of (ctx_update i f t) = ctx_generation_of t"
  by (rule ext) (simp add: ctx_generation_of_def)

text \<open>The identity of an activation: everything but its state and the cause.\<close>

definition same_identity :: "context_record \<Rightarrow> context_record \<Rightarrow> bool" where
  "same_identity r s \<longleftrightarrow> cr_context r = cr_context s \<and> cr_instance r = cr_instance s \<and>
     cr_logical r = cr_logical s \<and> cr_generation r = cr_generation s \<and> cr_epoch r = cr_epoch s"

lemma same_identity_refl [simp]: "same_identity r r"
  by (simp add: same_identity_def)

lemma ctx_get_update:
  "hm_get (ct_by_instance (ctx_update i f t)) j = Some r \<longleftrightarrow>
     (\<exists>r0. hm_get (ct_by_instance t) j = Some r0 \<and> r = (if j = i then f r0 else r0))"
  by (auto split: if_splits)

lemma ctx_update_identityD:
  assumes "\<And>r. same_identity (f r) r" and "hm_get (ct_by_instance (ctx_update i f t)) j = Some r"
  obtains r0 where "hm_get (ct_by_instance t) j = Some r0" and "same_identity r r0"
  using assms by (auto simp: ctx_get_update split: if_splits)

lemma ctx_update_identityI:
  assumes "\<And>r. same_identity (f r) r" and "hm_get (ct_by_instance t) j = Some r0"
  obtains r where "hm_get (ct_by_instance (ctx_update i f t)) j = Some r" and "same_identity r r0"
proof
  show "hm_get (ct_by_instance (ctx_update i f t)) j = Some (if j = i then f r0 else r0)"
    using assms(2) by (cases "j = i") simp_all
  show "same_identity (if j = i then f r0 else r0) r0" using assms(1) by simp
qed

lemma ctx_inv_update:
  assumes inv: "ctx_inv t" and f: "\<And>r. same_identity (f r) r"
  shows "ctx_inv (ctx_update i f t)"
proof -
  let ?u = "ctx_update i f t"
  have recs: "ctx_rec_ok ?u j r" if r: "hm_get (ct_by_instance ?u) j = Some r" for j r
    by (rule ctx_update_identityD [OF f r], drule ctx_inv_recD [OF inv])
      (simp add: ctx_rec_ok_def same_identity_def)
  have bck: "\<exists>r. hm_get (ct_by_instance ?u) j = Some r \<and> cr_context r = c"
    if h: "hm_get (ct_by_context ?u) c = Some j" for c j
  proof -
    obtain r0 where "hm_get (ct_by_instance t) j = Some r0" "cr_context r0 = c"
      using ctx_inv_contextD [OF inv] h by auto
    then show ?thesis
      by - (erule ctx_update_identityI [OF f, where i = i], auto simp: same_identity_def simp del: hm_get_modify)
  qed
  have cur: "\<exists>r. hm_get (ct_by_instance ?u) j = Some r \<and> cr_logical r = l \<and>
      cr_generation r = ctx_generation_of ?u l" if h: "hm_get (ct_current ?u) l = Some j" for l j
  proof -
    obtain r0 where "hm_get (ct_by_instance t) j = Some r0" "cr_logical r0 = l"
      "cr_generation r0 = ctx_generation_of t l"
      using ctx_inv_currentD [OF inv] h by auto
    then show ?thesis
      by - (erule ctx_update_identityI [OF f, where i = i], auto simp: same_identity_def simp del: hm_get_modify)
  qed
  have uniq: "j = k" if h: "hm_get (ct_by_instance ?u) j = Some r" "hm_get (ct_by_instance ?u) k = Some s"
    "cr_logical r = cr_logical s" "cr_generation r = cr_generation s" for j k r s
  proof -
    obtain r0 where r0: "hm_get (ct_by_instance t) j = Some r0" "same_identity r r0"
      by (rule ctx_update_identityD [OF f h(1)])
    obtain s0 where s0: "hm_get (ct_by_instance t) k = Some s0" "same_identity s s0"
      by (rule ctx_update_identityD [OF f h(2)])
    show ?thesis using ctx_inv_uniqD [OF inv r0(1) s0(1)] r0(2) s0(2) h(3,4)
      by (simp add: same_identity_def)
  qed
  show ?thesis
  proof (rule ctx_invI)
    show "hm_wf (ct_by_instance ?u)" "hm_wf (ct_by_context ?u)" "hm_wf (ct_current ?u)"
      "hm_wf (ct_generations ?u)" "0 < ct_next_instance ?u" "0 < ct_next_context ?u"
      using inv by (simp_all add: ctx_inv_def)
    show "hm_get (ct_current ?u) l \<noteq> None" if "0 < ctx_generation_of ?u l" for l
      using inv that by (simp add: ctx_inv_def)
  qed (fact recs bck cur uniq)+
qed

lemma ctx_create_in_simps [simp]:
  "ct_by_instance (fst (ctx_create_in l s c t)) =
     hm_insert (ct_next_instance t) (snd (ctx_create_in l s c t)) (ct_by_instance t)"
  "ct_by_context (fst (ctx_create_in l s c t)) =
     hm_insert (ct_next_context t) (ct_next_instance t) (ct_by_context t)"
  "ct_current (fst (ctx_create_in l s c t)) = hm_insert l (ct_next_instance t) (ct_current t)"
  "ct_generations (fst (ctx_create_in l s c t)) = hm_insert l (ctx_generation_of t l + 1) (ct_generations t)"
  "ct_next_instance (fst (ctx_create_in l s c t)) = ct_next_instance t + 1"
  "ct_next_context (fst (ctx_create_in l s c t)) = ct_next_context t + 1"
  "ct_epoch (fst (ctx_create_in l s c t)) = ct_epoch t"
  "snd (ctx_create_in l s c t) =
     \<lparr>cr_context = ct_next_context t, cr_instance = ct_next_instance t, cr_logical = l,
      cr_generation = ctx_generation_of t l + 1, cr_epoch = ct_epoch t, cr_state = s,
      cr_parent = None, cr_cause = c\<rparr>"
  by (simp_all add: ctx_create_in_def Let_def ctx_generation_of_def)

lemma ctx_generation_of_create [simp]:
  "ctx_generation_of (fst (ctx_create_in l s c t)) l' =
     (if l' = l then ctx_generation_of t l + 1 else ctx_generation_of t l')"
  unfolding ctx_generation_of_def [of "fst (ctx_create_in l s c t)"]
  by (simp add: opt_or_def ctx_generation_of_def [of t l'])

lemma ctx_next_fresh:
  "ctx_inv t \<Longrightarrow> hm_get (ct_by_instance t) (ct_next_instance t) = None"
  "ctx_inv t \<Longrightarrow> hm_get (ct_by_context t) (ct_next_context t) = None"
proof -
  assume inv: "ctx_inv t"
  show "hm_get (ct_by_instance t) (ct_next_instance t) = None"
    by (rule ccontr) (use ctx_inv_recD [OF inv] in \<open>auto simp: ctx_rec_ok_def\<close>)
  show "hm_get (ct_by_context t) (ct_next_context t) = None"
    by (rule ccontr) (use ctx_inv_contextD [OF inv] ctx_inv_recD [OF inv] in \<open>fastforce simp: ctx_rec_ok_def\<close>)
qed

lemma ctx_rec_ok_create:
  assumes inv: "ctx_inv t" and r: "hm_get (ct_by_instance t) i = Some r"
  shows "ctx_rec_ok (fst (ctx_create_in l s c t)) i r"
  using ctx_inv_recD [OF assms] by (auto simp: ctx_rec_ok_def)

lemma ctx_inv_create:
  assumes inv: "ctx_inv t"
  shows "ctx_inv (fst (ctx_create_in l s c t))" (is "ctx_inv ?u")
proof (rule ctx_invI)
  have bound: "cr_generation r \<le> ctx_generation_of t (cr_logical r) \<and> i < ct_next_instance t"
    if "hm_get (ct_by_instance t) i = Some r" for i r
    using ctx_inv_recD [OF inv that] by (simp add: ctx_rec_ok_def)
  show "ctx_rec_ok ?u i r" if "hm_get (ct_by_instance ?u) i = Some r" for i r
  proof (cases "i = ct_next_instance t")
    case True
    then show ?thesis using that ctx_inv_basicD [OF inv] by (auto simp: ctx_rec_ok_def)
  next
    case False
    then show ?thesis using that ctx_rec_ok_create [OF inv, of i r] by simp
  qed
  show "\<exists>r. hm_get (ct_by_instance ?u) i = Some r \<and> cr_context r = d"
    if h: "hm_get (ct_by_context ?u) d = Some i" for d i
  proof (cases "d = ct_next_context t")
    case False
    then obtain r where "hm_get (ct_by_instance t) i = Some r" "cr_context r = d"
      using ctx_inv_contextD [OF inv, of d i] h by auto
    then show ?thesis using bound [of i r] by auto
  qed (use h in auto)
  show "\<exists>r. hm_get (ct_by_instance ?u) i = Some r \<and> cr_logical r = m \<and>
      cr_generation r = ctx_generation_of ?u m" if h: "hm_get (ct_current ?u) m = Some i" for m i
  proof (cases "m = l")
    case False
    then obtain r where "hm_get (ct_by_instance t) i = Some r" "cr_logical r = m"
      "cr_generation r = ctx_generation_of t m"
      using ctx_inv_currentD [OF inv, of m i] h by auto
    then show ?thesis using False bound [of i r] by auto
  qed (use h in auto)
  show "hm_get (ct_current ?u) m \<noteq> None" if "0 < ctx_generation_of ?u m" for m
    using that ctx_inv_basicD(7) [OF inv, of m] by (cases "m = l") simp_all
  show "i = j" if h: "hm_get (ct_by_instance ?u) i = Some r" "hm_get (ct_by_instance ?u) j = Some q"
    "cr_logical r = cr_logical q" "cr_generation r = cr_generation q" for i j r q
    by (cases "i = ct_next_instance t"; cases "j = ct_next_instance t")
      (use h bound [of i r] bound [of j q] ctx_inv_uniqD [OF inv, of i r j q] in auto)
qed (use ctx_inv_basicD [OF inv] in simp_all)

lemma ctx_claim_cases:
  obtains (unknown) "hm_get (ct_by_instance t) i = None" "ctx_claim_dispose i t = (t, Inl (UnknownInstance i))"
  | (withdrawn) r where "hm_get (ct_by_instance t) i = Some r" "withdrawn_state (cr_state r)"
      "fst (ctx_claim_dispose i t) = t" "\<nexists>q. snd (ctx_claim_dispose i t) = Inr (Fresh q)"
  | (fresh) r where "hm_get (ct_by_instance t) i = Some r" "\<not> withdrawn_state (cr_state r)"
      "ctx_claim_dispose i t =
         (ctx_update i (\<lambda>r. r\<lparr>cr_state := Quiescing, cr_cause := None\<rparr>) t,
          Inr (Fresh (r\<lparr>cr_state := Quiescing, cr_cause := None\<rparr>)))"
proof (cases "hm_get (ct_by_instance t) i")
  case None
  then show ?thesis by (intro unknown) (simp_all add: ctx_claim_dispose_def)
next
  case (Some r)
  show ?thesis
  proof (cases "withdrawn_state (cr_state r)")
    case True
    then show ?thesis using Some
      by (intro withdrawn) (auto simp: ctx_claim_dispose_def withdrawn_state_def split: fsm.splits)
  next
    case False
    then show ?thesis using Some
      by (intro fresh) (auto simp: ctx_claim_dispose_def withdrawn_state_def Let_def split: fsm.splits)
  qed
qed

subsection \<open>The contract of the operations\<close>

text \<open>
  Every operation of the table keeps the invariant, keeps the identity of the activations it
  finds, never lowers a generation counter and never brings a withdrawn activation back.
\<close>

locale context_op =
  fixes step :: "context_table \<Rightarrow> context_table"
  assumes step_inv: "ctx_inv t \<Longrightarrow> ctx_inv (step t)"
    and step_keeps: "ctx_inv t \<Longrightarrow> hm_get (ct_by_instance t) i = Some r \<Longrightarrow>
      \<exists>q. hm_get (ct_by_instance (step t)) i = Some q \<and> same_identity q r \<and>
          (withdrawn_state (cr_state r) \<longrightarrow> withdrawn_state (cr_state q))"
    and step_generation: "ctx_inv t \<Longrightarrow> ctx_generation_of t l \<le> ctx_generation_of (step t) l"
begin

lemma still_rejected:
  assumes inv: "ctx_inv t" and r: "hm_get (ct_by_instance t) i = Some r"
    and stale: "withdrawn_state (cr_state r) \<or> cr_generation r < ctx_generation_of t (cr_logical r)"
  shows "\<exists>e. ctx_require_active (step t) i = Inl e"
proof -
  obtain q where q: "hm_get (ct_by_instance (step t)) i = Some q" "same_identity q r"
    "withdrawn_state (cr_state r) \<Longrightarrow> withdrawn_state (cr_state q)"
    using step_keeps [OF inv r] by blast
  obtain j where j: "hm_get (ct_current (step t)) (cr_logical q) = Some j"
    using ctx_inv_has_current [OF step_inv [OF inv] q(1)] by blast
  obtain cur where cur: "hm_get (ct_by_instance (step t)) j = Some cur"
    "cr_generation cur = ctx_generation_of (step t) (cr_logical q)"
    using ctx_inv_currentD [OF step_inv [OF inv] j] by blast
  have "withdrawn_state (cr_state q) \<or> j \<noteq> i"
    using stale q cur step_generation [OF inv, of "cr_logical r"] by (auto simp: same_identity_def)
  then show ?thesis using q(1) j by (auto simp: ctx_require_active_def withdrawn_state_def)
qed

end

lemma context_op_update:
  assumes "\<And>r. same_identity (f r) r" and "\<And>r. withdrawn_state (cr_state r) \<Longrightarrow> withdrawn_state (cr_state (f r))"
  shows "context_op (ctx_update i f)"
proof unfold_locales
  fix t j r
  assume "ctx_inv t" "hm_get (ct_by_instance t) j = Some r"
  then show "\<exists>q. hm_get (ct_by_instance (ctx_update i f t)) j = Some q \<and> same_identity q r \<and>
      (withdrawn_state (cr_state r) \<longrightarrow> withdrawn_state (cr_state q))"
    using assms by (cases "j = i") auto
qed (use assms in \<open>auto intro: ctx_inv_update\<close>)

lemma context_op_id: "context_op (\<lambda>t. t)"
  by unfold_locales auto

interpretation op_create: context_op "\<lambda>t. fst (ctx_create_in l s c t)" for l s c
proof unfold_locales
  fix t i r
  assume "ctx_inv t" "hm_get (ct_by_instance t) i = Some r"
  moreover from this have "i \<noteq> ct_next_instance t" using ctx_next_fresh(1) by force
  ultimately show "\<exists>q. hm_get (ct_by_instance (fst (ctx_create_in l s c t))) i = Some q \<and> same_identity q r \<and>
      (withdrawn_state (cr_state r) \<longrightarrow> withdrawn_state (cr_state q))"
    by simp
qed (auto intro: ctx_inv_create)

interpretation op_disposed: context_op "ctx_mark_disposed i" for i
  unfolding ctx_mark_disposed_def by (rule context_op_update) (simp_all add: same_identity_def)

interpretation op_cleanup_pending: context_op "ctx_mark_cleanup_pending i cause" for i cause
  unfolding ctx_mark_cleanup_pending_def by (rule context_op_update) (simp_all add: same_identity_def)

interpretation op_failed: context_op "ctx_mark_failed i cause" for i cause
  unfolding ctx_mark_failed_def by (rule context_op_update) (simp_all add: same_identity_def)

text \<open>The guarded operations change the table by an update or not at all.\<close>

lemma context_op_guarded:
  assumes "\<And>r. same_identity (f r) r"
    and "\<And>t. (\<nexists>r. hm_get (ct_by_instance t) i = Some r \<and> \<not> withdrawn_state (cr_state r)) \<Longrightarrow> g t = t"
    and "\<And>t. g t = t \<or> g t = ctx_update i f t"
  shows "context_op g"
proof
  fix t j r l
  assume "ctx_inv t"
  then show "ctx_inv (g t)" "ctx_generation_of t l \<le> ctx_generation_of (g t) l"
    using assms(3) [of t] ctx_inv_update [OF _ assms(1), of t i] by auto
  show "\<exists>q. hm_get (ct_by_instance (g t)) j = Some q \<and> same_identity q r \<and>
      (withdrawn_state (cr_state r) \<longrightarrow> withdrawn_state (cr_state q))"
    if r: "hm_get (ct_by_instance t) j = Some r"
  proof (cases "g t = t")
    case False
    then have "g t = ctx_update i f t" "j = i \<Longrightarrow> \<not> withdrawn_state (cr_state r)"
      using assms(2) [of t] assms(3) [of t] r by auto
    then show ?thesis using r assms(1) by (cases "j = i") auto
  qed (use r in auto)
qed

interpretation op_claim: context_op "\<lambda>t. fst (ctx_claim_dispose i t)" for i
proof (rule context_op_guarded [where i = i and f = "\<lambda>r. r\<lparr>cr_state := Quiescing, cr_cause := None\<rparr>"])
  show "fst (ctx_claim_dispose i t) = t \<or>
      fst (ctx_claim_dispose i t) = ctx_update i (\<lambda>r. r\<lparr>cr_state := Quiescing, cr_cause := None\<rparr>) t" for t
    by (rule ctx_claim_cases [of t i]) auto
  show "fst (ctx_claim_dispose i t) = t"
    if "\<nexists>r. hm_get (ct_by_instance t) i = Some r \<and> \<not> withdrawn_state (cr_state r)" for t
    by (rule ctx_claim_cases [of t i]) (use that in auto)
qed (simp add: same_identity_def)

interpretation op_active: context_op "\<lambda>t. fst (ctx_mark_active i t)" for i
  by (rule context_op_guarded [where i = i and f = "\<lambda>r. r\<lparr>cr_state := Active, cr_cause := None\<rparr>"])
    (auto simp: ctx_mark_active_def same_identity_def withdrawn_state_def split: option.splits)

interpretation op_waiting: context_op "\<lambda>t. fst (ctx_mark_waiting i cause t)" for i cause
  by (rule context_op_guarded [where i = i and f = "\<lambda>r. r\<lparr>cr_state := Waiting, cr_cause := Some cause\<rparr>"])
    (auto simp: ctx_mark_waiting_def same_identity_def withdrawn_state_def split: option.splits)

subsection \<open>Traces of operations\<close>

text \<open>
  Since the mutex makes each operation atomic, every interleaving of the threads that share
  the table is a sequence of these commands.
\<close>

datatype ctx_cmd =
    CtxCreate string fsm "string option"
  | CtxClaim instance_id
  | CtxDisposed instance_id
  | CtxCleanup instance_id string
  | CtxFailed instance_id string
  | CtxActive instance_id
  | CtxWaiting instance_id string

fun ctx_exec :: "ctx_cmd \<Rightarrow> context_table \<Rightarrow> context_table" where
  "ctx_exec (CtxCreate l s c) = (\<lambda>t. fst (ctx_create_in l s c t))"
| "ctx_exec (CtxClaim i) = (\<lambda>t. fst (ctx_claim_dispose i t))"
| "ctx_exec (CtxDisposed i) = (\<lambda>t. ctx_mark_disposed i t)"
| "ctx_exec (CtxCleanup i c) = (\<lambda>t. ctx_mark_cleanup_pending i c t)"
| "ctx_exec (CtxFailed i c) = (\<lambda>t. ctx_mark_failed i c t)"
| "ctx_exec (CtxActive i) = (\<lambda>t. fst (ctx_mark_active i t))"
| "ctx_exec (CtxWaiting i c) = (\<lambda>t. fst (ctx_mark_waiting i c t))"

fun ctx_run :: "ctx_cmd list \<Rightarrow> context_table \<Rightarrow> context_table" where
  "ctx_run [] = (\<lambda>t. t)"
| "ctx_run (c # cs) = (\<lambda>t. ctx_run cs (ctx_exec c t))"

definition claim_is_fresh :: "instance_id \<Rightarrow> context_table \<Rightarrow> bool" where
  "claim_is_fresh i t = (case snd (ctx_claim_dispose i t) of Inr (Fresh _) \<Rightarrow> True | _ \<Rightarrow> False)"

fun fresh_claims :: "instance_id \<Rightarrow> ctx_cmd list \<Rightarrow> context_table \<Rightarrow> nat" where
  "fresh_claims i [] t = 0"
| "fresh_claims i (c # cs) t =
     (if c = CtxClaim i \<and> claim_is_fresh i t then 1 else 0) + fresh_claims i cs (ctx_exec c t)"

interpretation op_exec: context_op "ctx_exec c" for c
  by (cases c) (simp_all add: op_create.context_op_axioms op_claim.context_op_axioms
      op_disposed.context_op_axioms op_cleanup_pending.context_op_axioms op_failed.context_op_axioms
      op_active.context_op_axioms op_waiting.context_op_axioms)

lemma context_op_comp:
  assumes "context_op f" and "context_op g"
  shows "context_op (\<lambda>t. g (f t))"
proof
  fix t i r l
  assume inv: "ctx_inv t"
  note inv' = context_op.step_inv [OF assms(1) inv]
  show "ctx_inv (g (f t))" using context_op.step_inv [OF assms(2) inv'] .
  show "ctx_generation_of t l \<le> ctx_generation_of (g (f t)) l"
    using context_op.step_generation [OF assms(1) inv, of l] context_op.step_generation [OF assms(2) inv', of l]
    by simp
  assume "hm_get (ct_by_instance t) i = Some r"
  then obtain q where "hm_get (ct_by_instance (f t)) i = Some q" "same_identity q r"
    "withdrawn_state (cr_state r) \<Longrightarrow> withdrawn_state (cr_state q)"
    using context_op.step_keeps [OF assms(1) inv] by blast
  then show "\<exists>q. hm_get (ct_by_instance (g (f t))) i = Some q \<and> same_identity q r \<and>
      (withdrawn_state (cr_state r) \<longrightarrow> withdrawn_state (cr_state q))"
    using context_op.step_keeps [OF assms(2) inv', of i q] by (auto simp: same_identity_def)
qed

lemma context_op_run: "context_op (ctx_run cs)"
  by (induction cs) (simp_all add: context_op_id context_op_comp op_exec.context_op_axioms)

interpretation op_run: context_op "ctx_run cs" for cs
  by (rule context_op_run)

lemma claim_is_fresh_iff:
  "claim_is_fresh i t \<longleftrightarrow> (\<exists>r. hm_get (ct_by_instance t) i = Some r \<and> \<not> withdrawn_state (cr_state r))"
  by (rule ctx_claim_cases [of t i]) (auto simp: claim_is_fresh_def split: sum.splits dispose_claim.splits)

lemma fresh_claims_withdrawn:
  assumes "ctx_inv t" "hm_get (ct_by_instance t) i = Some r" "withdrawn_state (cr_state r)"
  shows "fresh_claims i cs t = 0"
  using assms
proof (induction cs arbitrary: t r)
  case (Cons c cs)
  obtain q where "hm_get (ct_by_instance (ctx_exec c t)) i = Some q" "withdrawn_state (cr_state q)"
    using op_exec.step_keeps [OF Cons.prems(1,2)] Cons.prems(3) by blast
  then have "fresh_claims i cs (ctx_exec c t) = 0"
    by (rule Cons.IH [OF op_exec.step_inv [OF Cons.prems(1)]])
  then show ?case using Cons.prems by (simp add: claim_is_fresh_iff)
qed simp

lemma fresh_claims_le:
  "ctx_inv t \<Longrightarrow> fresh_claims i cs t \<le> 1"
proof (induction cs arbitrary: t)
  case (Cons c cs)
  show ?case
  proof (cases "c = CtxClaim i \<and> claim_is_fresh i t")
    case True
    then obtain r where r: "hm_get (ct_by_instance t) i = Some r" "\<not> withdrawn_state (cr_state r)"
      by (auto simp: claim_is_fresh_iff)
    have "hm_get (ct_by_instance (ctx_exec c t)) i = Some (r\<lparr>cr_state := Quiescing, cr_cause := None\<rparr>)"
      by (rule ctx_claim_cases [of t i]) (use True r in auto)
    then have "fresh_claims i cs (ctx_exec c t) = 0"
      by (rule fresh_claims_withdrawn [OF op_exec.step_inv [OF Cons.prems]]) simp
    then show ?thesis by simp
  next
    case False
    then show ?thesis using Cons.IH [OF op_exec.step_inv [OF Cons.prems]] by auto
  qed
qed simp

lemma ctx_run_inv: "ctx_inv (ctx_run cs (ctx_new e))"
  by (rule op_run.step_inv) simp

lemma ctx_require_active_Inr:
  assumes "ctx_inv t"
  shows "ctx_require_active t i = Inr r \<longleftrightarrow>
    hm_get (ct_by_instance t) i = Some r \<and> cr_state r = Active \<and> ctx_current t (cr_logical r) = Some r"
proof (cases "hm_get (ct_by_instance t) i")
  case None
  then show ?thesis by (simp add: ctx_require_active_def)
next
  case (Some q)
  obtain j where j: "hm_get (ct_current t) (cr_logical q) = Some j"
    using ctx_inv_has_current [OF assms Some] by blast
  obtain cur where cur: "hm_get (ct_by_instance t) j = Some cur"
    using ctx_inv_currentD [OF assms j] by blast
  have ids: "cr_instance q = i" "cr_instance cur = j"
    using ctx_inv_recD [OF assms Some] ctx_inv_recD [OF assms cur] by (simp_all add: ctx_rec_ok_def)
  show ?thesis
  proof (cases "j = i")
    case True
    then show ?thesis using Some j by (auto simp: ctx_require_active_def ctx_current_def)
  next
    case False
    then have "cur \<noteq> q" using ids by metis
    then show ?thesis using False Some j cur by (auto simp: ctx_require_active_def ctx_current_def)
  qed
qed

lemma ctx_create_older_stale:
  assumes inv: "ctx_inv t" and q: "hm_get (ct_by_instance t) i = Some q"
  shows "cr_generation q < ctx_generation_of (fst (ctx_create_in (cr_logical q) s c t)) (cr_logical q)"
  using ctx_inv_recD [OF inv q] by (simp add: ctx_rec_ok_def)

subsection \<open>Properties\<close>

text \<open>A reference to an activation that was withdrawn, or superseded by a later generation of
  its logical id, is never admitted again: after any further sequence of table operations
  \<open>require_active\<close> answers with an error.\<close>

theorem stale_never_admitted:
  assumes "t = ctx_run before (ctx_new epoch)"
    and "ctx_get_by_instance t i = Some r"
    and "withdrawn_state (cr_state r) \<or> cr_generation r < ctx_generation_of t (cr_logical r)"
  shows "\<exists>e. ctx_require_active (ctx_run later t) i = Inl e"
proof (rule op_run.still_rejected)
  show "ctx_inv t" unfolding assms(1) by (rule ctx_run_inv)
  show "hm_get (ct_by_instance t) i = Some r" using assms(2) by (simp only: ctx_get_by_instance_def)
qed (fact assms(3))

theorem stale_never_admitted_witness:
  "\<exists>e. ctx_require_active
     (ctx_run [CtxActive 1, CtxWaiting 1 ''x'']
        (ctx_run [CtxCreate ''a'' Active None, CtxClaim 1, CtxCreate ''a'' Active None] (ctx_new 7))) 1 = Inl e"
  by (rule stale_never_admitted [OF refl, where r = "\<lparr>cr_context = 1, cr_instance = 1, cr_logical = ''a'',
        cr_generation = 1, cr_epoch = 7, cr_state = Quiescing, cr_parent = None, cr_cause = None\<rparr>"])
    (simp_all add: ctx_defs ctx_new_def ctx_get_by_instance_def ctx_update_def hm_insert_def hm_modify_def opt_or_def Let_def)

text \<open>Whatever the interleaving of the callers, at most one of them wins the right to tear an
  activation down: in every sequence of table operations at most one \<open>claim_dispose\<close> of an
  instance answers \<open>Fresh\<close>, and a claim answers \<open>Fresh\<close> exactly when the instance is known
  and not withdrawn yet.\<close>

theorem dispose_claimed_once:
  "fresh_claims i cs (ctx_new epoch) \<le> 1 \<and>
   (claim_is_fresh i (ctx_run cs (ctx_new epoch)) \<longleftrightarrow>
      (\<exists>r. ctx_get_by_instance (ctx_run cs (ctx_new epoch)) i = Some r \<and> \<not> withdrawn_state (cr_state r)))"
  using fresh_claims_le [OF ctx_inv_new] by (simp add: claim_is_fresh_iff ctx_get_by_instance_def)

text \<open>Creating an activation issues an instance id and a context id that no earlier activation
  has, makes it the current one of its logical id, gives it a generation above every earlier
  one of that id, and leaves every earlier activation of the id refused by \<open>require_active\<close>.\<close>

theorem create_supersedes:
  assumes "t = ctx_run cs (ctx_new epoch)" and "ctx_create_in l s c t = (u, r)"
  shows "ctx_get_by_instance t (cr_instance r) = None \<and> ctx_get_by_context t (cr_context r) = None \<and>
    ctx_current u l = Some r \<and> ctx_get_by_context u (cr_context r) = Some r \<and>
    (\<forall>i q. ctx_get_by_instance t i = Some q \<and> cr_logical q = l \<longrightarrow>
       cr_generation q < cr_generation r \<and> (\<exists>e. ctx_require_active u i = Inl e))"
proof -
  have inv: "ctx_inv t" using assms(1) ctx_run_inv by simp
  have u: "u = fst (ctx_create_in l s c t)" and r: "r = snd (ctx_create_in l s c t)"
    using assms(2) by simp_all
  have stale: "\<exists>e. ctx_require_active u i = Inl e"
    if q: "hm_get (ct_by_instance t) i = Some q" "cr_logical q = l" for i q
  proof -
    obtain q' where "hm_get (ct_by_instance u) i = Some q'" "same_identity q' q"
      using op_create.step_keeps [OF inv q(1)] u by blast
    moreover from this have "cr_generation q' < ctx_generation_of u (cr_logical q')"
      using ctx_create_older_stale [OF inv q(1), of s c] q(2) u by (simp add: same_identity_def)
    ultimately show ?thesis
      using op_run.still_rejected [of u i q' "[]"] op_create.step_inv [OF inv] u by simp
  qed
  have "cr_generation q < cr_generation r" if "hm_get (ct_by_instance t) i = Some q" "cr_logical q = l" for i q
    using ctx_inv_recD [OF inv that(1)] that(2) r by (simp add: ctx_rec_ok_def)
  then show ?thesis
    using stale ctx_next_fresh [OF inv]
    by (auto simp: u r ctx_get_by_instance_def ctx_get_by_context_def ctx_current_def)
qed

theorem create_supersedes_witness:
  "ctx_current (fst (ctx_create_in ''a'' Active None (ctx_run [CtxCreate ''a'' Waiting None] (ctx_new 7)))) ''a'' =
     Some (snd (ctx_create_in ''a'' Active None (ctx_run [CtxCreate ''a'' Waiting None] (ctx_new 7))))"
  by (rule create_supersedes [OF refl surjective_pairing, THEN conjunct2, THEN conjunct2, THEN conjunct1])

end
