(* ===== verification/Mx_Resources.thy ===== *)
theory Mx_Resources
  imports Mx_Identity
begin

text \<open>
  The resource table (\<open>resources.rs\<close>): every resource belongs to one activation, its record
  is written before the effect is published, and a release is claimed under the lock and
  finished outside it. The closures of the timer and task threads are step functions over
  the flags they share with the table; the outcome of \<open>thread::Builder::spawn\<close> is an argument
  (\<open>Some e\<close> is the error the operating system answers).
\<close>

named_theorems res_defs \<open>definitions of the resource table operations\<close>

datatype resource_kind =
    Cap string
  | Sub string
  | Timer string nat
  | Task string
  | FailAcquire string
  | FailRelease string

fun rk_label :: "resource_kind \<Rightarrow> string" where
  "rk_label (Cap name) = name"
| "rk_label (Sub topic) = topic"
| "rk_label (Timer label interval_ms) = label"
| "rk_label (Task label) = label"
| "rk_label (FailAcquire label) = label"
| "rk_label (FailRelease label) = label"

fun rk_kind_name :: "resource_kind \<Rightarrow> string" where
  "rk_kind_name (Cap name) = ''cap''"
| "rk_kind_name (Sub topic) = ''sub''"
| "rk_kind_name (Timer label interval_ms) = ''timer''"
| "rk_kind_name (Task label) = ''task''"
| "rk_kind_name (FailAcquire label) = ''fail-acquire''"
| "rk_kind_name (FailRelease label) = ''fail-release''"

datatype resource_state = RActive | RReleased

record resource_record =
  rr_handle :: resource_handle
  rr_kind :: resource_kind
  rr_owner_context :: context_id
  rr_owner_instance :: instance_id
  rr_owner_logical :: string
  rr_generation :: nat
  rr_state :: resource_state
  rr_seq :: nat

datatype acquire_error = InvalidName string | FailInjected string

fun show_acquire_error :: "acquire_error \<Rightarrow> string" where
  "show_acquire_error (InvalidName s) = ''invalid resource name: '' @ s"
| "show_acquire_error (FailInjected s) = ''injected acquire failure: '' @ s"

datatype release_error = UnknownHandle nat | AlreadyReleased nat | CleanupFailed nat string

fun show_release_error :: "release_error \<Rightarrow> string" where
  "show_release_error (UnknownHandle h) = ''unknown resource handle res-'' @ show_nat h"
| "show_release_error (AlreadyReleased h) = ''resource res-'' @ show_nat h @ '' already released''"
| "show_release_error (CleanupFailed h reason) = ''cleanup failed for res-'' @ show_nat h @ '': '' @ reason"

subsection \<open>Timer and task threads\<close>

text \<open>
  The program counter of a worker: at the top of the loop, after its one millisecond sleep,
  or ended. Times are nanoseconds.
\<close>

datatype worker_pc = AtTop | AfterSleep | Exited

definition from_millis :: "nat \<Rightarrow> nat" where
  "from_millis ms = ms * 1000000"

record timer_live =
  tl_cancel :: bool
  tl_done :: bool
  tl_fires :: nat
  tl_pc :: worker_pc
  tl_acc :: nat
  tl_interval :: nat

record task_live =
  kl_cancel :: bool
  kl_done :: bool
  kl_beats :: nat
  kl_pc :: worker_pc

definition timer_spawn :: "nat \<Rightarrow> timer_live" where
  "timer_spawn interval_ms =
     \<lparr>tl_cancel = False, tl_done = False, tl_fires = 0, tl_pc = AtTop, tl_acc = 0,
      tl_interval = from_millis interval_ms\<rparr>"

definition timer_step :: "timer_live \<Rightarrow> timer_live" where
  "timer_step w =
     (case tl_pc w of
        AtTop \<Rightarrow> if tl_cancel w then w\<lparr>tl_pc := Exited, tl_done := True\<rparr> else w\<lparr>tl_pc := AfterSleep\<rparr>
      | AfterSleep \<Rightarrow>
          if tl_cancel w then w\<lparr>tl_pc := Exited, tl_done := True\<rparr>
          else (let acc = tl_acc w + from_millis 1
                in if tl_interval w \<le> acc
                   then w\<lparr>tl_acc := 0, tl_fires := tl_fires w + 1, tl_pc := AtTop\<rparr>
                   else w\<lparr>tl_acc := acc, tl_pc := AtTop\<rparr>)
      | Exited \<Rightarrow> w)"

definition task_spawn :: task_live where
  "task_spawn = \<lparr>kl_cancel = False, kl_done = False, kl_beats = 0, kl_pc = AtTop\<rparr>"

definition task_step :: "task_live \<Rightarrow> task_live" where
  "task_step w =
     (case kl_pc w of
        AtTop \<Rightarrow> if kl_cancel w then w\<lparr>kl_pc := Exited, kl_done := True\<rparr>
                 else w\<lparr>kl_beats := kl_beats w + 1, kl_pc := AfterSleep\<rparr>
      | AfterSleep \<Rightarrow> w\<lparr>kl_pc := AtTop\<rparr>
      | Exited \<Rightarrow> w)"

text \<open>
  Storing the cancellation flag and joining: the thread takes the steps it still has, two
  at most.
\<close>

definition timer_cancel_join :: "timer_live \<Rightarrow> timer_live" where
  "timer_cancel_join w = timer_step (timer_step (w\<lparr>tl_cancel := True\<rparr>))"

definition task_cancel_join :: "task_live \<Rightarrow> task_live" where
  "task_cancel_join w = task_step (task_step (w\<lparr>kl_cancel := True\<rparr>))"

subsection \<open>The table\<close>

record release_claim =
  rc_handle :: resource_handle
  rc_kind :: resource_kind
  rc_owner_context :: context_id
  rc_timer :: "timer_live option"
  rc_task :: "task_live option"

record resource_table =
  rt_next_handle :: nat
  rt_next_seq :: nat
  rt_records :: "(resource_handle, resource_record) hmap"
  rt_by_owner :: "(context_id, resource_handle list) hmap"
  rt_timers :: "(resource_handle, timer_live) hmap"
  rt_tasks :: "(resource_handle, task_live) hmap"
  rt_total_releases :: nat
  rt_double_release_attempts :: nat

definition res_new :: resource_table where
  "res_new = \<lparr>rt_next_handle = 1, rt_next_seq = 1, rt_records = [], rt_by_owner = [], rt_timers = [],
     rt_tasks = [], rt_total_releases = 0, rt_double_release_attempts = 0\<rparr>"

fun validate_kind :: "resource_kind \<Rightarrow> (acquire_error, unit) result" where
  "validate_kind (Cap name) = (if trim name = [] then Inl (InvalidName name) else Inr ())"
| "validate_kind (Sub topic) = (if trim topic = [] then Inl (InvalidName topic) else Inr ())"
| "validate_kind (Timer label interval_ms) =
     (if trim label = [] then Inl (InvalidName label)
      else if interval_ms = 0 \<or> 60000 < interval_ms
      then Inl (InvalidName (''interval_ms out of range: '' @ show_nat interval_ms))
      else Inr ())"
| "validate_kind (Task label) = (if trim label = [] then Inl (InvalidName label) else Inr ())"
| "validate_kind (FailAcquire label) = Inl (FailInjected label)"
| "validate_kind (FailRelease label) = (if trim label = [] then Inl (InvalidName label) else Inr ())"

definition handles_of :: "resource_table \<Rightarrow> context_id \<Rightarrow> resource_handle list" where
  "handles_of t c = opt_or (hm_get (rt_by_owner t) c) []"

text \<open>First critical section of \<open>register\<close>: the record is written.\<close>

definition res_record_new ::
  "context_id \<Rightarrow> instance_id \<Rightarrow> string \<Rightarrow> nat \<Rightarrow> resource_kind \<Rightarrow> resource_table \<Rightarrow>
     resource_table \<times> resource_handle" where
  "res_record_new ctx inst logical gen kind t =
     (let h = rt_next_handle t; s = rt_next_seq t;
          rec = \<lparr>rr_handle = h, rr_kind = kind, rr_owner_context = ctx, rr_owner_instance = inst,
                 rr_owner_logical = logical, rr_generation = gen, rr_state = RActive, rr_seq = s\<rparr>
      in (t\<lparr>rt_next_handle := h + 1, rt_next_seq := s + 1,
            rt_records := hm_insert h rec (rt_records t),
            rt_by_owner := hm_insert ctx (handles_of t ctx @ [h]) (rt_by_owner t)\<rparr>, h))"

text \<open>Its rollback when the thread could not be created.\<close>

definition res_unrecord :: "context_id \<Rightarrow> resource_handle \<Rightarrow> resource_table \<Rightarrow> resource_table" where
  "res_unrecord ctx h t =
     t\<lparr>rt_records := hm_remove h (rt_records t),
       rt_by_owner := hm_modify ctx (filter (\<lambda>k. k \<noteq> h)) (rt_by_owner t)\<rparr>"

text \<open>Second part of \<open>register\<close>: a timer or task starts its thread and enters the live table.\<close>

fun res_publish ::
  "string option \<Rightarrow> context_id \<Rightarrow> resource_handle \<Rightarrow> resource_kind \<Rightarrow> resource_table \<Rightarrow>
     resource_table \<times> (acquire_error, resource_handle) result" where
  "res_publish spawn ctx h (Timer label interval_ms) t =
     (case spawn of
        None \<Rightarrow> (t\<lparr>rt_timers := hm_insert h (timer_spawn interval_ms) (rt_timers t)\<rparr>, Inr h)
      | Some e \<Rightarrow> (res_unrecord ctx h t, Inl (FailInjected (''timer spawn failed: '' @ e))))"
| "res_publish spawn ctx h (Task label) t =
     (case spawn of
        None \<Rightarrow> (t\<lparr>rt_tasks := hm_insert h task_spawn (rt_tasks t)\<rparr>, Inr h)
      | Some e \<Rightarrow> (res_unrecord ctx h t, Inl (FailInjected (''task spawn failed: '' @ e))))"
| "res_publish spawn ctx h _ t = (t, Inr h)"

definition res_register ::
  "string option \<Rightarrow> context_id \<Rightarrow> instance_id \<Rightarrow> string \<Rightarrow> nat \<Rightarrow> resource_kind \<Rightarrow> resource_table \<Rightarrow>
     resource_table \<times> (acquire_error, resource_handle) result" where
  "res_register spawn ctx inst logical gen kind t =
     (case validate_kind kind of
        Inl e \<Rightarrow> (t, Inl e)
      | Inr _ \<Rightarrow> (case res_record_new ctx inst logical gen kind t of
                   (t1, h) \<Rightarrow> res_publish spawn ctx h kind t1))"

text \<open>
  \<open>begin_release\<close> reads the record under one lock and claims it under a second one, which
  looks at the state again: two atomic steps.
\<close>

definition begin_release_check ::
  "resource_handle \<Rightarrow> resource_table \<Rightarrow> resource_table \<times> (release_error, unit) result" where
  "begin_release_check h t =
     (case hm_get (rt_records t) h of
        None \<Rightarrow> (t, Inl (UnknownHandle h))
      | Some rec \<Rightarrow>
          if rr_state rec = RReleased
          then (t\<lparr>rt_double_release_attempts := rt_double_release_attempts t + 1\<rparr>, Inl (AlreadyReleased h))
          else (case rr_kind rec of
                  FailRelease label \<Rightarrow>
                    (t, Inl (CleanupFailed h (''resource '' @ CHR 0x27 # label @ CHR 0x27 # '' refused release'')))
                | _ \<Rightarrow> (t, Inr ())))"

definition begin_release_claim ::
  "resource_handle \<Rightarrow> resource_table \<Rightarrow> resource_table \<times> (release_error, release_claim) result" where
  "begin_release_claim h t =
     (case hm_get (rt_records t) h of
        None \<Rightarrow> (t, Inl (UnknownHandle h))
      | Some rec \<Rightarrow>
          if rr_state rec = RReleased
          then (t\<lparr>rt_double_release_attempts := rt_double_release_attempts t + 1\<rparr>, Inl (AlreadyReleased h))
          else (t\<lparr>rt_records := hm_modify h (\<lambda>r. r\<lparr>rr_state := RReleased\<rparr>) (rt_records t),
                  rt_total_releases := rt_total_releases t + 1,
                  rt_timers := hm_remove h (rt_timers t),
                  rt_tasks := hm_remove h (rt_tasks t)\<rparr>,
                Inr \<lparr>rc_handle = h, rc_kind = rr_kind rec, rc_owner_context = rr_owner_context rec,
                     rc_timer = hm_get (rt_timers t) h, rc_task = hm_get (rt_tasks t) h\<rparr>))"

definition res_begin_release ::
  "resource_handle \<Rightarrow> resource_table \<Rightarrow> resource_table \<times> (release_error, release_claim) result" where
  "res_begin_release h t =
     (case begin_release_check h t of
        (t1, Inl e) \<Rightarrow> (t1, Inl e)
      | (t1, Inr _) \<Rightarrow> begin_release_claim h t1)"

text \<open>The final state of the threads the claim took over.\<close>

definition res_finish_release :: "release_claim \<Rightarrow> timer_live option \<times> task_live option" where
  "res_finish_release claim =
     (map_option timer_cancel_join (rc_timer claim), map_option task_cancel_join (rc_task claim))"

definition res_release ::
  "resource_handle \<Rightarrow> resource_table \<Rightarrow>
     resource_table \<times> (release_error, timer_live option \<times> task_live option) result" where
  "res_release h t =
     (case res_begin_release h t of
        (t1, Inl e) \<Rightarrow> (t1, Inl e)
      | (t1, Inr claim) \<Rightarrow> (t1, Inr (res_finish_release claim)))"

definition res_rollback_register ::
  "resource_handle \<Rightarrow> resource_table \<Rightarrow> resource_table \<times> (timer_live option \<times> task_live option)" where
  "res_rollback_register h t =
     (case hm_get (rt_records t) h of
        None \<Rightarrow> (t, (None, None))
      | Some r \<Rightarrow>
          if rr_state r \<noteq> RActive then (t, (None, None))
          else (let t1 = res_unrecord (rr_owner_context r) h t
                in (t1\<lparr>rt_timers := hm_remove h (rt_timers t1), rt_tasks := hm_remove h (rt_tasks t1)\<rparr>,
                    (map_option timer_cancel_join (hm_get (rt_timers t1) h),
                     map_option task_cancel_join (hm_get (rt_tasks t1) h)))))"

definition res_handles_for :: "resource_table \<Rightarrow> context_id \<Rightarrow> resource_handle list" where
  "res_handles_for t owner = handles_of t owner"

definition res_record :: "resource_table \<Rightarrow> resource_handle \<Rightarrow> resource_record option" where
  "res_record t h = hm_get (rt_records t) h"

definition res_validate ::
  "resource_table \<Rightarrow> resource_handle \<Rightarrow> instance_id \<Rightarrow> nat \<Rightarrow> (release_error, resource_record) result" where
  "res_validate t h expect_instance expect_generation =
     (case hm_get (rt_records t) h of
        None \<Rightarrow> Inl (UnknownHandle h)
      | Some rec \<Rightarrow>
          if rr_state rec \<noteq> RActive then Inl (AlreadyReleased h)
          else if rr_owner_instance rec \<noteq> expect_instance \<or> rr_generation rec \<noteq> expect_generation
          then Inl (CleanupFailed h (''stale handle: owned by inst-'' @ show_nat (rr_owner_instance rec)
                 @ ''#'' @ show_nat (rr_generation rec)))
          else Inr rec)"

definition is_active_record :: "resource_table \<Rightarrow> resource_handle \<Rightarrow> bool" where
  "is_active_record t h = (case hm_get (rt_records t) h of None \<Rightarrow> False | Some r \<Rightarrow> rr_state r = RActive)"

definition res_active_count :: "resource_table \<Rightarrow> nat" where
  "res_active_count t = length (filter (\<lambda>r. rr_state r = RActive) (hm_values (rt_records t)))"

definition res_active_for :: "resource_table \<Rightarrow> context_id \<Rightarrow> nat" where
  "res_active_for t owner = length (filter (is_active_record t) (handles_of t owner))"

definition res_inventory :: "resource_table \<Rightarrow> resource_record list" where
  "res_inventory t = sort_key (\<lambda>r. (rr_owner_context r, rr_seq r)) (hm_values (rt_records t))"

definition res_timer_fires :: "resource_table \<Rightarrow> resource_handle \<Rightarrow> nat option" where
  "res_timer_fires t h = map_option tl_fires (hm_get (rt_timers t) h)"

definition res_task_beats :: "resource_table \<Rightarrow> resource_handle \<Rightarrow> nat option" where
  "res_task_beats t h = map_option kl_beats (hm_get (rt_tasks t) h)"

definition res_is_live :: "resource_table \<Rightarrow> resource_handle \<Rightarrow> bool" where
  "res_is_live t h =
     (case hm_get (rt_timers t) h of
        Some w \<Rightarrow> \<not> tl_done w
      | None \<Rightarrow> (case hm_get (rt_tasks t) h of
                   Some w \<Rightarrow> \<not> kl_done w
                 | None \<Rightarrow> is_active_record t h))"

text \<open>The scheduler lets one worker thread of the live tables run for one step.\<close>

definition res_thread_tick :: "resource_handle \<Rightarrow> resource_table \<Rightarrow> resource_table" where
  "res_thread_tick h t =
     t\<lparr>rt_timers := hm_modify h timer_step (rt_timers t), rt_tasks := hm_modify h task_step (rt_tasks t)\<rparr>"

lemmas [res_defs] = res_record_new_def res_unrecord_def res_register_def begin_release_check_def
  begin_release_claim_def res_begin_release_def res_release_def res_finish_release_def
  res_rollback_register_def res_thread_tick_def

subsection \<open>Worker threads\<close>

lemma timer_cancel_join_exits [simp]:
  "tl_pc (timer_cancel_join w) = Exited" "tl_pc w = Exited \<longrightarrow> tl_done w \<Longrightarrow> tl_done (timer_cancel_join w)"
  "tl_fires (timer_cancel_join w) = tl_fires w"
  by (cases "tl_pc w"; simp add: timer_cancel_join_def timer_step_def)+

lemma task_cancel_join_exits [simp]:
  "kl_pc (task_cancel_join w) = Exited" "kl_pc w = Exited \<longrightarrow> kl_done w \<Longrightarrow> kl_done (task_cancel_join w)"
  "kl_beats (task_cancel_join w) = kl_beats w"
  by (cases "kl_pc w"; simp add: task_cancel_join_def task_step_def)+

lemma timer_exited_steps: "tl_pc w = Exited \<Longrightarrow> (timer_step ^^ n) w = w"
  by (induction n) (simp_all add: timer_step_def)

lemma task_exited_steps: "kl_pc w = Exited \<Longrightarrow> (task_step ^^ n) w = w"
  by (induction n) (simp_all add: task_step_def)

text \<open>A timer that is not cancelled fires once per interval of whole milliseconds.\<close>

lemma timer_two_steps:
  assumes "tl_pc w = AtTop" "\<not> tl_cancel w"
  shows "timer_step (timer_step w) =
    (if tl_interval w \<le> tl_acc w + from_millis 1
     then w\<lparr>tl_acc := 0, tl_fires := tl_fires w + 1\<rparr>
     else w\<lparr>tl_acc := tl_acc w + from_millis 1\<rparr>)"
  using assms by (simp add: timer_step_def Let_def)

lemma funpow_double: "(f ^^ (2 * n)) x = ((\<lambda>y. f (f y)) ^^ n) x"
  by (induction n arbitrary: x) (simp_all add: funpow_swap1)

lemma timer_slices:
  assumes "tl_pc w = AtTop" "\<not> tl_cancel w" "tl_acc w + from_millis n < tl_interval w"
  shows "(timer_step ^^ (2 * n)) w = w\<lparr>tl_acc := tl_acc w + from_millis n\<rparr>"
  unfolding funpow_double
  using assms
proof (induction n)
  case 0
  then show ?case by (simp add: from_millis_def)
next
  case (Suc n)
  then show ?case by (simp add: timer_two_steps from_millis_def)
qed

lemma timer_fires_once_per_interval:
  assumes "0 < ms"
  shows "(timer_step ^^ (2 * ms)) ((timer_spawn ms)\<lparr>tl_fires := k\<rparr>) = (timer_spawn ms)\<lparr>tl_fires := Suc k\<rparr>"
proof -
  obtain n where n: "ms = Suc n" using assms by (cases ms) auto
  let ?w = "(timer_spawn ms)\<lparr>tl_fires := k\<rparr>"
  have "(timer_step ^^ (2 * ms)) ?w = timer_step (timer_step ((timer_step ^^ (2 * n)) ?w))"
    using n by simp
  also have "(timer_step ^^ (2 * n)) ?w = ?w\<lparr>tl_acc := from_millis n\<rparr>"
    using timer_slices [of ?w n] n by (simp add: timer_spawn_def from_millis_def)
  also have "timer_step (timer_step (?w\<lparr>tl_acc := from_millis n\<rparr>)) = (timer_spawn ms)\<lparr>tl_fires := Suc k\<rparr>"
    using n by (subst timer_two_steps) (simp_all add: timer_spawn_def from_millis_def)
  finally show ?thesis .
qed

lemma timer_rate:
  assumes "0 < ms"
  shows "(timer_step ^^ (2 * ms * k)) (timer_spawn ms) = (timer_spawn ms)\<lparr>tl_fires := k\<rparr>"
proof (induction k)
  case 0
  then show ?case by (simp add: timer_spawn_def)
next
  case (Suc k)
  have "2 * ms * Suc k = 2 * ms + 2 * ms * k" by simp
  then have "(timer_step ^^ (2 * ms * Suc k)) (timer_spawn ms) =
      (timer_step ^^ (2 * ms)) ((timer_step ^^ (2 * ms * k)) (timer_spawn ms))"
    by (simp only: funpow_add o_apply)
  then show ?case by (simp only: Suc timer_fires_once_per_interval [OF assms])
qed

subsection \<open>Atomic steps\<close>

text \<open>
  Between any two critical sections other threads may run. What holds of every critical
  section alone, in whatever order they come: handles are issued once, and a handle that is
  not active any more (released, or rolled back) is never active again.
\<close>

definition res_inv0 :: "resource_table \<Rightarrow> bool" where
  "res_inv0 t \<longleftrightarrow>
     hm_wf (rt_records t) \<and> hm_wf (rt_by_owner t) \<and> hm_wf (rt_timers t) \<and> hm_wf (rt_tasks t) \<and>
     0 < rt_next_handle t \<and>
     (\<forall>h r. hm_get (rt_records t) h = Some r \<longrightarrow>
        rr_handle r = h \<and> 0 < h \<and> h < rt_next_handle t \<and> rr_seq r < rt_next_seq t)"

definition same_owner :: "resource_record \<Rightarrow> resource_record \<Rightarrow> bool" where
  "same_owner r s \<longleftrightarrow> rr_handle r = rr_handle s \<and> rr_kind r = rr_kind s \<and>
     rr_owner_context r = rr_owner_context s \<and> rr_owner_instance r = rr_owner_instance s \<and>
     rr_generation r = rr_generation s \<and> rr_seq r = rr_seq s"

lemma same_owner_refl [simp]: "same_owner r r"
  by (simp add: same_owner_def)

locale resource_op =
  fixes step :: "resource_table \<Rightarrow> resource_table"
  assumes step_inv0: "res_inv0 t \<Longrightarrow> res_inv0 (step t)"
    and step_next: "rt_next_handle t \<le> rt_next_handle (step t)"
    and step_dead: "res_inv0 t \<Longrightarrow> h < rt_next_handle t \<Longrightarrow> \<not> is_active_record t h \<Longrightarrow> \<not> is_active_record (step t) h"
    and step_owner: "res_inv0 t \<Longrightarrow> h < rt_next_handle t \<Longrightarrow> hm_get (rt_records (step t)) h = Some q \<Longrightarrow>
      \<exists>r. hm_get (rt_records t) h = Some r \<and> same_owner q r"
begin

lemma dead_rejected:
  assumes "res_inv0 t" "h < rt_next_handle t" "\<not> is_active_record t h"
  shows "\<exists>e. res_validate (step t) h i g = Inl e" "\<exists>e. snd (begin_release_claim h (step t)) = Inl e"
  using step_dead [OF assms]
  by (auto simp: res_validate_def begin_release_claim_def is_active_record_def split: option.splits)
    (metis resource_state.exhaust)

lemma never_reowned:
  assumes "res_inv0 t" "hm_get (rt_records t) h = Some r" "res_validate (step t) h i g = Inr q"
  shows "rr_owner_instance r = i \<and> rr_generation r = g"
proof -
  have "h < rt_next_handle t" using assms(1,2) by (simp add: res_inv0_def)
  moreover have q: "hm_get (rt_records (step t)) h = Some q" "rr_owner_instance q = i" "rr_generation q = g"
    using assms(3) by (auto simp: res_validate_def split: option.splits if_splits)
  ultimately show ?thesis using step_owner [OF assms(1)] assms(2) by (fastforce simp: same_owner_def)
qed

end

lemma resource_op_comp:
  assumes f: "resource_op f" and g: "resource_op g"
  shows "resource_op (\<lambda>t. g (f t))"
proof
  fix t h q
  show "rt_next_handle t \<le> rt_next_handle (g (f t))"
    using resource_op.step_next [OF f, of t] resource_op.step_next [OF g, of "f t"] by simp
  assume inv: "res_inv0 t"
  note inv' = resource_op.step_inv0 [OF f inv]
  show "res_inv0 (g (f t))" using resource_op.step_inv0 [OF g inv'] .
  assume h: "h < rt_next_handle t"
  then have h': "h < rt_next_handle (f t)" using resource_op.step_next [OF f, of t] by simp
  show "\<not> is_active_record (g (f t)) h" if "\<not> is_active_record t h"
    using resource_op.step_dead [OF g inv' h'] resource_op.step_dead [OF f inv h that] .
  assume "hm_get (rt_records (g (f t))) h = Some q"
  then show "\<exists>r. hm_get (rt_records t) h = Some r \<and> same_owner q r"
    using resource_op.step_owner [OF g inv' h'] resource_op.step_owner [OF f inv h]
    by (fastforce simp: same_owner_def)
qed

lemma resource_op_id: "resource_op (\<lambda>t. t)"
  by unfold_locales auto

text \<open>Steps that leave the records alone, and steps that change or drop existing ones.\<close>

lemma resource_op_shrink:
  assumes "\<And>t. rt_next_handle (f t) = rt_next_handle t \<and> rt_next_seq (f t) = rt_next_seq t"
    and "\<And>t. res_inv0 t \<Longrightarrow> hm_wf (rt_records (f t)) \<and> hm_wf (rt_by_owner (f t)) \<and> hm_wf (rt_timers (f t)) \<and> hm_wf (rt_tasks (f t))"
    and rec: "\<And>t h q. res_inv0 t \<Longrightarrow> hm_get (rt_records (f t)) h = Some q \<Longrightarrow>
      \<exists>r. hm_get (rt_records t) h = Some r \<and> same_owner q r \<and> (rr_state q = RActive \<longrightarrow> rr_state r = RActive)"
  shows "resource_op f"
proof
  fix t h q
  show "rt_next_handle t \<le> rt_next_handle (f t)" using assms(1) by simp
  assume inv: "res_inv0 t"
  show "res_inv0 (f t)"
    using assms(2) [OF inv] inv assms(1) [of t] rec [OF inv] by (fastforce simp: res_inv0_def same_owner_def)
  show "\<not> is_active_record (f t) h" if "\<not> is_active_record t h"
    using that rec [OF inv, of h] by (auto simp: is_active_record_def split: option.splits)
  assume "hm_get (rt_records (f t)) h = Some q"
  then show "\<exists>r. hm_get (rt_records t) h = Some r \<and> same_owner q r" using rec [OF inv] by blast
qed

interpretation op_record_new: resource_op "\<lambda>t. fst (res_record_new c i l g k t)" for c i l g k
proof unfold_locales
  fix t h q
  show "rt_next_handle t \<le> rt_next_handle (fst (res_record_new c i l g k t))"
    by (simp add: res_record_new_def Let_def)
  assume inv: "res_inv0 t"
  then show "res_inv0 (fst (res_record_new c i l g k t))"
    by (auto simp: res_record_new_def Let_def res_inv0_def less_Suc_eq)
  assume h: "h < rt_next_handle t"
  then show "\<not> is_active_record (fst (res_record_new c i l g k t)) h" if "\<not> is_active_record t h"
    using that by (auto simp: res_record_new_def Let_def is_active_record_def)
  show "\<exists>r. hm_get (rt_records t) h = Some r \<and> same_owner q r"
    if "hm_get (rt_records (fst (res_record_new c i l g k t))) h = Some q"
    using that h by (auto simp: res_record_new_def Let_def)
qed

lemma unrecord_op: "resource_op (res_unrecord c h)"
  by (rule resource_op_shrink) (auto simp: res_unrecord_def res_inv0_def split: if_splits)

interpretation op_unrecord: resource_op "res_unrecord c h" for c h
  by (rule unrecord_op)

lemma resource_op_threads:
  "resource_op (\<lambda>t. t\<lparr>rt_timers := hm_insert h w (rt_timers t)\<rparr>)"
  "resource_op (\<lambda>t. t\<lparr>rt_tasks := hm_insert h k (rt_tasks t)\<rparr>)"
  by (rule resource_op_shrink; auto simp: res_inv0_def)+

interpretation op_publish: resource_op "\<lambda>t. fst (res_publish spawn c h k t)" for spawn c h k
  by (cases k; cases spawn) (simp_all add: resource_op_id resource_op_threads op_unrecord.resource_op_axioms)

interpretation op_release_check: resource_op "\<lambda>t. fst (begin_release_check h t)" for h
  by (rule resource_op_shrink)
    (auto simp: begin_release_check_def res_inv0_def split: option.splits resource_kind.splits if_splits)

interpretation op_release_claim: resource_op "\<lambda>t. fst (begin_release_claim h t)" for h
  by (rule resource_op_shrink)
    (auto simp: begin_release_claim_def res_inv0_def same_owner_def split: option.splits if_splits)

interpretation op_rollback: resource_op "\<lambda>t. fst (res_rollback_register h t)" for h
  by (rule resource_op_shrink)
    (auto simp: res_rollback_register_def res_unrecord_def Let_def res_inv0_def split: option.splits if_splits)

interpretation op_tick: resource_op "res_thread_tick h" for h
  by (rule resource_op_shrink) (auto simp: res_thread_tick_def res_inv0_def)

subsection \<open>Interleavings\<close>

datatype res_cmd =
    ResRecord context_id instance_id string nat resource_kind
  | ResPublish "string option" context_id resource_handle resource_kind
  | ResCheck resource_handle
  | ResClaim resource_handle
  | ResRollback resource_handle
  | ResTick resource_handle

fun res_exec :: "res_cmd \<Rightarrow> resource_table \<Rightarrow> resource_table" where
  "res_exec (ResRecord c i l g k) = (\<lambda>t. fst (res_record_new c i l g k t))"
| "res_exec (ResPublish e c h k) = (\<lambda>t. fst (res_publish e c h k t))"
| "res_exec (ResCheck h) = (\<lambda>t. fst (begin_release_check h t))"
| "res_exec (ResClaim h) = (\<lambda>t. fst (begin_release_claim h t))"
| "res_exec (ResRollback h) = (\<lambda>t. fst (res_rollback_register h t))"
| "res_exec (ResTick h) = res_thread_tick h"

fun res_run :: "res_cmd list \<Rightarrow> resource_table \<Rightarrow> resource_table" where
  "res_run [] = (\<lambda>t. t)"
| "res_run (c # cs) = (\<lambda>t. res_run cs (res_exec c t))"

text \<open>How often a release of the handle was claimed, that is, its cleanup was handed out.\<close>

fun claims_won :: "resource_handle \<Rightarrow> res_cmd list \<Rightarrow> resource_table \<Rightarrow> nat" where
  "claims_won h [] t = 0"
| "claims_won h (c # cs) t =
     (if c = ResClaim h \<and> \<not> isl (snd (begin_release_claim h t)) then 1 else 0) + claims_won h cs (res_exec c t)"

interpretation op_res_exec: resource_op "res_exec c" for c
  by (cases c) (simp_all add: op_record_new.resource_op_axioms op_publish.resource_op_axioms
      op_release_check.resource_op_axioms op_release_claim.resource_op_axioms
      op_rollback.resource_op_axioms op_tick.resource_op_axioms)

lemma resource_op_run: "resource_op (res_run cs)"
  by (induction cs) (simp_all add: resource_op_id resource_op_comp op_res_exec.resource_op_axioms)

interpretation op_res_run: resource_op "res_run cs" for cs
  by (rule resource_op_run)

lemma res_inv0_new [simp]: "res_inv0 res_new"
  by (simp add: res_inv0_def res_new_def)

lemma claim_wins_iff: "\<not> isl (snd (begin_release_claim h t)) \<longleftrightarrow> is_active_record t h"
  by (auto simp: begin_release_claim_def is_active_record_def split: option.splits)
    (metis resource_state.exhaust)

lemma claims_won_dead:
  "res_inv0 t \<Longrightarrow> h < rt_next_handle t \<Longrightarrow> \<not> is_active_record t h \<Longrightarrow> claims_won h cs t = 0"
proof (induction cs arbitrary: t)
  case (Cons c cs)
  have "claims_won h cs (res_exec c t) = 0"
    using Cons.prems op_res_exec.step_next [of t c]
    by (intro Cons.IH op_res_exec.step_inv0 op_res_exec.step_dead) auto
  then show ?case using Cons.prems by (simp add: claim_wins_iff)
qed simp

lemma claims_won_le: "res_inv0 t \<Longrightarrow> claims_won h cs t \<le> 1"
proof (induction cs arbitrary: t)
  case (Cons c cs)
  show ?case
  proof (cases "c = ResClaim h \<and> is_active_record t h")
    case True
    then have "h < rt_next_handle (res_exec c t)" "\<not> is_active_record (res_exec c t) h"
      using Cons.prems
      by (auto simp: begin_release_claim_def is_active_record_def res_inv0_def split: option.splits)
    then have "claims_won h cs (res_exec c t) = 0"
      by (rule claims_won_dead [OF op_res_exec.step_inv0 [OF Cons.prems]])
    then show ?thesis by simp
  next
    case False
    then show ?thesis using Cons.IH [OF op_res_exec.step_inv0 [OF Cons.prems]] by (auto simp: claim_wins_iff)
  qed
qed simp

subsection \<open>Invariant of the whole operations\<close>

definition released_count :: "resource_table \<Rightarrow> nat" where
  "released_count t = hm_count (\<lambda>r. rr_state r = RReleased) (rt_records t)"

text \<open>The owner index lists exactly the recorded handles of each owner.\<close>

definition res_index_ok :: "resource_table \<Rightarrow> bool" where
  "res_index_ok t \<longleftrightarrow>
     (\<forall>c. distinct (handles_of t c)) \<and>
     (\<forall>c h. h \<in> set (handles_of t c) \<longleftrightarrow> (\<exists>r. hm_get (rt_records t) h = Some r \<and> rr_owner_context r = c))"

text \<open>A thread runs exactly for the active timers and tasks.\<close>

definition res_threads_ok :: "resource_table \<Rightarrow> bool" where
  "res_threads_ok t \<longleftrightarrow>
     (\<forall>h. hm_get (rt_timers t) h \<noteq> None \<longleftrightarrow>
        (\<exists>r l ms. hm_get (rt_records t) h = Some r \<and> rr_state r = RActive \<and> rr_kind r = Timer l ms)) \<and>
     (\<forall>h. hm_get (rt_tasks t) h \<noteq> None \<longleftrightarrow>
        (\<exists>r l. hm_get (rt_records t) h = Some r \<and> rr_state r = RActive \<and> rr_kind r = Task l))"

definition res_inv :: "resource_table \<Rightarrow> bool" where
  "res_inv t \<longleftrightarrow> res_inv0 t \<and> res_index_ok t \<and> res_threads_ok t \<and> rt_total_releases t = released_count t"

lemma res_inv_inv0 [simp]: "res_inv t \<Longrightarrow> res_inv0 t"
  by (simp add: res_inv_def)

lemma res_inv_new [simp]: "res_inv res_new"
  by (simp add: res_inv_def res_index_ok_def res_threads_ok_def released_count_def handles_of_def opt_or_def)
    (simp add: res_new_def hm_count_def)

lemma res_next_unused: "res_inv0 t \<Longrightarrow> hm_get (rt_records t) (rt_next_handle t) = None"
  by (rule ccontr) (auto simp: res_inv0_def)

lemma res_record_new_simps [simp]:
  "snd (res_record_new c i l g k t) = rt_next_handle t"
  "rt_records (fst (res_record_new c i l g k t)) =
     hm_insert (rt_next_handle t)
       \<lparr>rr_handle = rt_next_handle t, rr_kind = k, rr_owner_context = c, rr_owner_instance = i,
        rr_owner_logical = l, rr_generation = g, rr_state = RActive, rr_seq = rt_next_seq t\<rparr> (rt_records t)"
  "rt_timers (fst (res_record_new c i l g k t)) = rt_timers t"
  "rt_tasks (fst (res_record_new c i l g k t)) = rt_tasks t"
  "rt_total_releases (fst (res_record_new c i l g k t)) = rt_total_releases t"
  "rt_double_release_attempts (fst (res_record_new c i l g k t)) = rt_double_release_attempts t"
  "rt_next_handle (fst (res_record_new c i l g k t)) = rt_next_handle t + 1"
  "handles_of (fst (res_record_new c i l g k t)) d =
     handles_of t d @ (if d = c then [rt_next_handle t] else [])"
  by (auto simp: res_record_new_def Let_def handles_of_def opt_or_def)

lemma res_unrecord_simps [simp]:
  "rt_records (res_unrecord c h t) = hm_remove h (rt_records t)"
  "rt_timers (res_unrecord c h t) = rt_timers t"
  "rt_tasks (res_unrecord c h t) = rt_tasks t"
  "rt_total_releases (res_unrecord c h t) = rt_total_releases t"
  "rt_next_handle (res_unrecord c h t) = rt_next_handle t"
  "handles_of (res_unrecord c h t) d = (if d = c then filter (\<lambda>k. k \<noteq> h) (handles_of t d) else handles_of t d)"
  by (auto simp: res_unrecord_def handles_of_def opt_or_def split: option.splits)

lemma res_index_record_new:
  "res_inv0 t \<Longrightarrow> res_index_ok t \<Longrightarrow> res_index_ok (fst (res_record_new c i l g k t))"
  using res_next_unused [of t] by (auto simp: res_index_ok_def)

lemma res_index_unrecord:
  "res_index_ok t \<Longrightarrow> hm_get (rt_records t) h = Some r \<Longrightarrow> rr_owner_context r = c \<Longrightarrow>
     res_index_ok (res_unrecord c h t)"
  by (auto simp: res_index_ok_def)

text \<open>Registering and rolling back, the thread that could not be created included.\<close>

lemma res_register_cases:
  obtains (invalid) e where "validate_kind k = Inl e" "res_register spawn c i l g k t = (t, Inl e)"
  | (spawn_failed) e where "validate_kind k = Inr ()"
      "res_register spawn c i l g k t =
         (res_unrecord c (rt_next_handle t) (fst (res_record_new c i l g k t)), Inl e)"
      "(\<exists>a b. k = Timer a b) \<or> (\<exists>a. k = Task a)"
  | (timer) a ms where "k = Timer a ms" "validate_kind k = Inr ()"
      "res_register spawn c i l g k t =
         ((fst (res_record_new c i l g k t))\<lparr>rt_timers := hm_insert (rt_next_handle t) (timer_spawn ms) (rt_timers t)\<rparr>,
          Inr (rt_next_handle t))"
  | (task) a where "k = Task a" "validate_kind k = Inr ()"
      "res_register spawn c i l g k t =
         ((fst (res_record_new c i l g k t))\<lparr>rt_tasks := hm_insert (rt_next_handle t) task_spawn (rt_tasks t)\<rparr>,
          Inr (rt_next_handle t))"
  | (plain) "validate_kind k = Inr ()" "\<nexists>a b. k = Timer a b" "\<nexists>a. k = Task a"
      "res_register spawn c i l g k t = (fst (res_record_new c i l g k t), Inr (rt_next_handle t))"
proof (cases "validate_kind k")
  case (Inl e)
  then show ?thesis by (intro invalid) (simp_all add: res_register_def)
next
  case (Inr u)
  let ?n = "res_record_new c i l g k t"
  have eq: "res_register spawn c i l g k t = res_publish spawn c (rt_next_handle t) k (fst ?n)"
    using Inr by (simp add: res_register_def split: prod.splits) (metis fst_conv res_record_new_simps(1) snd_conv)
  have nt: "rt_timers (fst ?n) = rt_timers t" "rt_tasks (fst ?n) = rt_tasks t" by simp_all
  show ?thesis
  proof (cases k)
    case (Timer a ms)
    then show ?thesis using eq Inr nt
      by (cases spawn) (auto intro: timer spawn_failed simp del: res_record_new_simps)
  next
    case (Task a)
    then show ?thesis using eq Inr nt
      by (cases spawn) (auto intro: task spawn_failed simp del: res_record_new_simps)
  qed (use eq Inr in \<open>auto intro!: plain simp del: res_record_new_simps\<close>)
qed

lemma res_inv_next_threads:
  "res_inv t \<Longrightarrow> hm_get (rt_timers t) (rt_next_handle t) = None \<and> hm_get (rt_tasks t) (rt_next_handle t) = None"
  using res_next_unused [of t] unfolding res_inv_def res_threads_ok_def
  by (metis option.distinct(1))

lemma released_count_new:
  "res_inv0 t \<Longrightarrow> released_count (fst (res_record_new c i l g k t)) = released_count t"
  by (simp add: released_count_def hm_count_insert_new res_next_unused)

lemma res_upd_threads [simp]:
  "handles_of (t\<lparr>rt_timers := x\<rparr>) = handles_of t" "handles_of (t\<lparr>rt_tasks := y\<rparr>) = handles_of t"
  "res_index_ok (t\<lparr>rt_timers := x\<rparr>) = res_index_ok t" "res_index_ok (t\<lparr>rt_tasks := y\<rparr>) = res_index_ok t"
  "released_count (t\<lparr>rt_timers := x\<rparr>) = released_count t" "released_count (t\<lparr>rt_tasks := y\<rparr>) = released_count t"
  "hm_wf x \<Longrightarrow> res_inv0 t \<Longrightarrow> res_inv0 (t\<lparr>rt_timers := x\<rparr>)" "hm_wf y \<Longrightarrow> res_inv0 t \<Longrightarrow> res_inv0 (t\<lparr>rt_tasks := y\<rparr>)"
  by (auto simp: handles_of_def res_index_ok_def released_count_def res_inv0_def)

lemma res_inv_register:
  assumes inv: "res_inv t"
  shows "res_inv (fst (res_register spawn c i l g k t))"
proof (rule res_register_cases [of k spawn c i l g t])
  let ?n = "fst (res_record_new c i l g k t)"
  have n0: "res_inv0 ?n" and nix: "res_index_ok ?n" and ncount: "rt_total_releases ?n = released_count ?n"
    using inv op_record_new.step_inv0 [of t] res_index_record_new [of t] released_count_new [of t]
    by (simp_all add: res_inv_def)
  have thr: "res_threads_ok t" and nxt: "hm_get (rt_records t) (rt_next_handle t) = None"
    "hm_get (rt_timers t) (rt_next_handle t) = None" "hm_get (rt_tasks t) (rt_next_handle t) = None"
    using inv res_next_unused [of t] res_inv_next_threads [OF inv] by (simp_all add: res_inv_def)
  have wf: "hm_wf (rt_timers t)" "hm_wf (rt_tasks t)" using inv by (simp_all add: res_inv_def res_inv0_def)
  {
    fix e
    let ?u = "res_unrecord c (rt_next_handle t) ?n"
    have "rt_records ?u = rt_records t" using nxt by (simp add: hm_remove_insert_new)
    moreover from this have "released_count ?u = released_count t" by (simp add: released_count_def)
    moreover assume "res_register spawn c i l g k t = (?u, Inl e)"
    ultimately show ?thesis
      using op_unrecord.step_inv0 [OF n0] res_index_unrecord [OF nix, of "rt_next_handle t"] thr inv
      by (simp add: res_inv_def res_threads_ok_def del: res_unrecord_simps(1))
  next
    fix a ms
    assume "k = Timer a ms" "res_register spawn c i l g k t =
      (?n\<lparr>rt_timers := hm_insert (rt_next_handle t) (timer_spawn ms) (rt_timers t)\<rparr>, Inr (rt_next_handle t))"
    moreover from this thr nxt have "res_threads_ok (fst (res_register spawn c i l g k t))"
      by (auto simp: res_threads_ok_def)
    ultimately show ?thesis using n0 nix ncount wf by (simp add: res_inv_def)
  next
    fix a
    assume "k = Task a" "res_register spawn c i l g k t =
      (?n\<lparr>rt_tasks := hm_insert (rt_next_handle t) task_spawn (rt_tasks t)\<rparr>, Inr (rt_next_handle t))"
    moreover from this thr nxt have "res_threads_ok (fst (res_register spawn c i l g k t))"
      by (auto simp: res_threads_ok_def)
    ultimately show ?thesis using n0 nix ncount wf by (simp add: res_inv_def)
  next
    assume "\<nexists>a b. k = Timer a b" "\<nexists>a. k = Task a"
      "res_register spawn c i l g k t = (?n, Inr (rt_next_handle t))"
    moreover from this thr nxt have "res_threads_ok (fst (res_register spawn c i l g k t))"
      by (auto simp: res_threads_ok_def)
    ultimately show ?thesis using n0 nix ncount by (simp add: res_inv_def)
  }
qed (use inv in simp)

text \<open>Releasing: what a successful claim changes, and that a failed one changes no record.\<close>

lemma begin_release_cases:
  obtains (failed) e where "snd (res_begin_release h t) = Inl e"
      "fst (res_begin_release h t) = t \<or>
       fst (res_begin_release h t) = t\<lparr>rt_double_release_attempts := rt_double_release_attempts t + 1\<rparr>"
      "\<not> is_active_record t h \<or> (\<exists>r l. hm_get (rt_records t) h = Some r \<and> rr_kind r = FailRelease l)"
  | (claimed) r where "hm_get (rt_records t) h = Some r" "rr_state r = RActive" "\<nexists>l. rr_kind r = FailRelease l"
      "fst (res_begin_release h t) =
         t\<lparr>rt_records := hm_modify h (\<lambda>r. r\<lparr>rr_state := RReleased\<rparr>) (rt_records t),
           rt_total_releases := rt_total_releases t + 1,
           rt_timers := hm_remove h (rt_timers t), rt_tasks := hm_remove h (rt_tasks t)\<rparr>"
      "snd (res_begin_release h t) =
         Inr \<lparr>rc_handle = h, rc_kind = rr_kind r, rc_owner_context = rr_owner_context r,
              rc_timer = hm_get (rt_timers t) h, rc_task = hm_get (rt_tasks t) h\<rparr>"
proof (cases "hm_get (rt_records t) h")
  case None
  show ?thesis
    by (rule failed [of "UnknownHandle h"])
      (use None in \<open>simp_all add: res_begin_release_def begin_release_check_def is_active_record_def\<close>)
next
  case (Some r)
  consider "rr_state r = RReleased" | l where "rr_state r = RActive" "rr_kind r = FailRelease l"
    | "rr_state r = RActive" "\<nexists>l. rr_kind r = FailRelease l"
    by (cases "rr_state r") blast+
  then show ?thesis
  proof cases
    case 1
    show ?thesis
      by (rule failed [of "AlreadyReleased h"])
        (use Some 1 in \<open>simp_all add: res_begin_release_def begin_release_check_def is_active_record_def\<close>)
  next
    case (2 l)
    show ?thesis
      by (rule failed [of "projl (snd (res_begin_release h t))"])
        (use Some 2 in \<open>simp_all add: res_begin_release_def begin_release_check_def\<close>)
  next
    case 3
    then have "begin_release_check h t = (t, Inr ())"
      using Some by (simp add: begin_release_check_def split: resource_kind.splits)
    then show ?thesis using Some 3
      by (intro claimed [of r]) (simp_all add: res_begin_release_def begin_release_claim_def)
  qed
qed

lemma res_inv_begin_release:
  assumes inv: "res_inv t"
  shows "res_inv (fst (res_begin_release h t))"
proof (rule begin_release_cases [of h t])
  fix e
  assume "fst (res_begin_release h t) = t \<or>
    fst (res_begin_release h t) = t\<lparr>rt_double_release_attempts := rt_double_release_attempts t + 1\<rparr>"
  then show ?thesis using inv
    by (elim disjE)
      (simp_all add: res_inv_def res_inv0_def res_index_ok_def res_threads_ok_def released_count_def handles_of_def)
next
  fix r
  assume r: "hm_get (rt_records t) h = Some r" "rr_state r = RActive"
    and u: "fst (res_begin_release h t) =
      t\<lparr>rt_records := hm_modify h (\<lambda>r. r\<lparr>rr_state := RReleased\<rparr>) (rt_records t),
        rt_total_releases := rt_total_releases t + 1,
        rt_timers := hm_remove h (rt_timers t), rt_tasks := hm_remove h (rt_tasks t)\<rparr>" (is "_ = ?u")
  have "released_count ?u = released_count t + 1"
    using hm_count_modify [of "rt_records t" h r "\<lambda>r. rr_state r = RReleased" "\<lambda>r. r\<lparr>rr_state := RReleased\<rparr>"] r inv
    by (simp add: released_count_def res_inv_def res_inv0_def)
  moreover have "res_inv0 ?u"
    using inv by (auto simp: res_inv_def res_inv0_def)
  moreover have "res_index_ok ?u"
    using inv r by (fastforce simp: res_inv_def res_index_ok_def handles_of_def)
  moreover have "res_threads_ok ?u"
    using inv r by (auto simp: res_inv_def res_threads_ok_def)
  ultimately show ?thesis using inv u by (simp add: res_inv_def)
qed

lemma res_inv_rollback:
  assumes inv: "res_inv t"
  shows "res_inv (fst (res_rollback_register h t))"
proof (cases "is_active_record t h")
  case False
  then show ?thesis using inv
    by (auto simp: res_rollback_register_def is_active_record_def split: option.splits)
next
  case True
  then obtain r where r: "hm_get (rt_records t) h = Some r" "rr_state r = RActive"
    by (auto simp: is_active_record_def split: option.splits)
  let ?u = "fst (res_rollback_register h t)"
  have u: "?u = (res_unrecord (rr_owner_context r) h t)
      \<lparr>rt_timers := hm_remove h (rt_timers t), rt_tasks := hm_remove h (rt_tasks t)\<rparr>"
    using r by (simp add: res_rollback_register_def Let_def)
  have "released_count ?u = released_count t"
    using hm_count_remove [of "rt_records t" h r "\<lambda>r. rr_state r = RReleased"] r inv
    by (simp add: u released_count_def res_inv_def res_inv0_def)
  moreover have "res_index_ok ?u"
    using res_index_unrecord [of t h r] inv r by (simp add: u res_inv_def res_index_ok_def handles_of_def)
  moreover have "res_threads_ok ?u"
    using inv by (auto simp: u res_inv_def res_threads_ok_def)
  ultimately show ?thesis
    using inv op_rollback.step_inv0 [of t h] by (simp add: res_inv_def u)
qed

lemma res_inv_tick:
  assumes "res_inv t"
  shows "res_inv (res_thread_tick h t)"
proof -
  have "res_threads_ok (res_thread_tick h t) = res_threads_ok t"
    unfolding res_threads_ok_def res_thread_tick_def by (simp del: hm_get_modify add: hm_get_modify_None)
  then show ?thesis
    using assms op_tick.step_inv0 [of t h] by (simp add: res_inv_def res_thread_tick_def)
qed

subsection \<open>Runs of whole operations\<close>

datatype res_op =
    OpRegister "string option" context_id instance_id string nat resource_kind
  | OpRelease resource_handle
  | OpRollback resource_handle
  | OpTick resource_handle

fun res_apply :: "res_op \<Rightarrow> resource_table \<Rightarrow> resource_table" where
  "res_apply (OpRegister e c i l g k) t = fst (res_register e c i l g k t)"
| "res_apply (OpRelease h) t = fst (res_release h t)"
| "res_apply (OpRollback h) t = fst (res_rollback_register h t)"
| "res_apply (OpTick h) t = res_thread_tick h t"

lemma fst_res_release: "fst (res_release h t) = fst (res_begin_release h t)"
  by (simp add: res_release_def split: prod.splits sum.splits)

lemma res_inv_ops: "res_inv t \<Longrightarrow> res_inv (fold res_apply ops t)"
proof (induction ops arbitrary: t)
  case (Cons x ops)
  then have "res_inv (res_apply x t)"
    by (cases x) (simp_all add: res_inv_register res_inv_begin_release res_inv_rollback res_inv_tick fst_res_release)
  then show ?case using Cons.IH by simp
qed simp

lemma res_active_for_0:
  assumes "res_inv t"
  shows "res_active_for t c = 0 \<longleftrightarrow>
    (\<forall>h r. hm_get (rt_records t) h = Some r \<and> rr_owner_context r = c \<longrightarrow> rr_state r \<noteq> RActive)"
proof -
  have mem: "h \<in> set (handles_of t c) \<longleftrightarrow> (\<exists>r. hm_get (rt_records t) h = Some r \<and> rr_owner_context r = c)" for h
    using assms by (simp add: res_inv_def res_index_ok_def)
  have "res_active_for t c = 0 \<longleftrightarrow> (\<forall>h \<in> set (handles_of t c). \<not> is_active_record t h)"
    by (simp add: res_active_for_def filter_empty_conv)
  also have "\<dots> \<longleftrightarrow> (\<forall>h r. hm_get (rt_records t) h = Some r \<and> rr_owner_context r = c \<longrightarrow> \<not> is_active_record t h)"
    using mem by blast
  also have "\<dots> \<longleftrightarrow> (\<forall>h r. hm_get (rt_records t) h = Some r \<and> rr_owner_context r = c \<longrightarrow> rr_state r \<noteq> RActive)"
    by (simp add: is_active_record_def)
  finally show ?thesis .
qed

lemma register_handle:
  "res_register e c i l g k t = (u, Inr h) \<Longrightarrow> h = rt_next_handle t \<and> validate_kind k = Inr ()"
  by (rule res_register_cases [of k e c i l g t]) auto

lemma register_record:
  "res_register e c i l g k t = (u, Inr h) \<Longrightarrow>
     rt_records u = hm_insert h \<lparr>rr_handle = h, rr_kind = k, rr_owner_context = c, rr_owner_instance = i,
       rr_owner_logical = l, rr_generation = g, rr_state = RActive, rr_seq = rt_next_seq t\<rparr> (rt_records t) \<and>
     handles_of u d = handles_of t d @ (if d = c then [h] else [])"
  by (rule res_register_cases [of k e c i l g t]) auto

lemma register_threads:
  "res_register e c i l g k t = (u, Inr h) \<Longrightarrow>
     hm_remove h (rt_timers u) = hm_remove h (rt_timers t) \<and> hm_remove h (rt_tasks u) = hm_remove h (rt_tasks t) \<and>
     rt_total_releases u = rt_total_releases t \<and> rt_double_release_attempts u = rt_double_release_attempts t"
  by (rule res_register_cases [of k e c i l g t]) (auto simp: hm_remove_insert_same)

lemma register_failed:
  assumes "res_inv t" "res_register e c i l g k t = (u, Inl x)"
  shows "rt_records u = rt_records t \<and> handles_of u = handles_of t \<and> rt_timers u = rt_timers t \<and> rt_tasks u = rt_tasks t"
proof (rule res_register_cases [of k e c i l g t])
  fix y
  assume "res_register e c i l g k t = (res_unrecord c (rt_next_handle t) (fst (res_record_new c i l g k t)), Inl y)"
  moreover have "rt_next_handle t \<notin> set (handles_of t c)"
    using assms(1) res_next_unused [of t] by (auto simp: res_inv_def res_index_ok_def)
  ultimately show ?thesis
    using assms res_next_unused [of t]
    by (auto simp: hm_remove_insert_new fun_eq_iff filter_id_conv)
qed (use assms in auto)

text \<open>A thread whose table entry outlives its released record is out of reach.\<close>

definition orphan_timer :: "resource_handle \<Rightarrow> resource_table \<Rightarrow> bool" where
  "orphan_timer h t \<longleftrightarrow> h < rt_next_handle t \<and> \<not> is_active_record t h \<and>
     (case hm_get (rt_timers t) h of None \<Rightarrow> False | Some w \<Rightarrow> \<not> tl_cancel w)"

lemma timer_step_cancel [simp]: "tl_cancel (timer_step w) = tl_cancel w"
  by (simp add: timer_step_def Let_def split: worker_pc.splits)

lemma orphan_stays_exec:
  assumes "res_inv0 t" "orphan_timer h t"
  shows "orphan_timer h (res_exec c t)"
proof -
  have dead: "\<not> is_active_record (res_exec c t) h" "h < rt_next_handle (res_exec c t)"
    using op_res_exec.step_dead [OF assms(1), of h c] op_res_exec.step_next [of t c] assms(2)
    by (auto simp: orphan_timer_def)
  obtain w where w: "hm_get (rt_timers t) h = Some w" "\<not> tl_cancel w"
    using assms(2) by (auto simp: orphan_timer_def split: option.splits)
  have "\<exists>v. hm_get (rt_timers (res_exec c t)) h = Some v \<and> \<not> tl_cancel v"
  proof (cases c)
    case (ResPublish e d k kind)
    then show ?thesis using w by (cases kind; cases e) (auto simp: timer_spawn_def)
  next
    case (ResCheck k)
    then show ?thesis using w
      by (auto simp: begin_release_check_def split: option.splits resource_kind.splits)
  next
    case (ResClaim k)
    then show ?thesis using w assms(2)
      by (auto simp: begin_release_claim_def orphan_timer_def is_active_record_def split: option.splits)
        (metis resource_state.exhaust)
  next
    case (ResRollback k)
    then show ?thesis using w assms(2)
      by (auto simp: res_rollback_register_def orphan_timer_def is_active_record_def Let_def split: option.splits)
  qed (use w in \<open>auto simp: res_thread_tick_def\<close>)
  then show ?thesis using dead by (auto simp: orphan_timer_def)
qed

lemma orphan_stays: "res_inv0 t \<Longrightarrow> orphan_timer h t \<Longrightarrow> orphan_timer h (res_run cs t)"
  by (induction cs arbitrary: t) (simp_all add: orphan_stays_exec op_res_exec.step_inv0)

lemma claims_won_dead_end:
  assumes "res_inv0 t" "claims_won h cs t = 1"
  shows "\<not> is_active_record (res_run cs t) h \<and> h < rt_next_handle (res_run cs t)"
  using assms
proof (induction cs arbitrary: t)
  case (Cons c cs)
  show ?case
  proof (cases "c = ResClaim h \<and> is_active_record t h")
    case True
    then have "h < rt_next_handle (res_exec c t)" "\<not> is_active_record (res_exec c t) h"
      using Cons.prems
      by (auto simp: begin_release_claim_def is_active_record_def res_inv0_def split: option.splits)
    then show ?thesis
      using op_res_run.step_dead [OF op_res_exec.step_inv0 [OF Cons.prems(1)], of h c cs]
        op_res_run.step_next [of "res_exec c t" cs] by simp
  next
    case False
    then show ?thesis using Cons.prems Cons.IH [OF op_res_exec.step_inv0 [OF Cons.prems(1)]]
      by (auto simp: claim_wins_iff)
  qed
qed simp

lemma trim_t: "trim ''t'' = ''t''"
  by code_simp

lemma res_run_inv0: "res_inv0 (res_run cs res_new)"
  by (rule op_res_run.step_inv0) simp

subsection \<open>Properties\<close>

text \<open>C21. No double release: however the critical sections of concurrent callers interleave, the
  cleanup of a handle is handed out at most once, and once it was, the handle validates for
  nobody, after any further steps.\<close>

theorem released_at_most_once:
  "claims_won h cs res_new \<le> 1 \<and>
   (claims_won h cs res_new = 1 \<longrightarrow> (\<exists>e. res_validate (res_run later (res_run cs res_new)) h i g = Inl e))"
  using claims_won_le [OF res_inv0_new, of h cs] claims_won_dead_end [OF res_inv0_new, of h cs]
    op_res_run.dead_rejected(1) [OF res_run_inv0, of h cs later i g] by auto

theorem released_at_most_once_witness:
  "\<exists>e. res_validate (res_run [ResRecord 2 2 ''b'' 1 (Cap ''x.y@1'')]
      (res_run [ResRecord 1 1 ''a'' 1 (Cap ''x.y@1''), ResClaim 1, ResClaim 1] res_new)) 1 1 1 = Inl e"
  using released_at_most_once [of 1 "[ResRecord 1 1 ''a'' 1 (Cap ''x.y@1''), ResClaim 1, ResClaim 1]"
      "[ResRecord 2 2 ''b'' 1 (Cap ''x.y@1'')]" 1 1]
  by (simp add: res_defs res_new_def hm_insert_def hm_modify_def hm_remove_def handles_of_def opt_or_def Let_def)

text \<open>A handle belongs to one activation for ever: whatever happens later, it validates at most
  for the instance and generation it was registered for.\<close>

theorem handle_never_reowned:
  assumes "res_record (res_run cs res_new) h = Some r"
    and "res_validate (res_run later (res_run cs res_new)) h i g = Inr q"
  shows "rr_owner_instance r = i \<and> rr_generation r = g"
  using op_res_run.never_reowned [OF res_run_inv0, of cs h r later i g q] assms by (simp add: res_record_def)

theorem handle_never_reowned_witness:
  "rr_owner_instance (the (res_record (res_run [ResRecord 1 5 ''a'' 3 (Task ''t'')] res_new) 1)) = 5 \<and>
   rr_generation (the (res_record (res_run [ResRecord 1 5 ''a'' 3 (Task ''t'')] res_new) 1)) = 3"
  by (rule handle_never_reowned [where later = "[ResPublish None 1 1 (Task ''t''), ResTick 1]" and cs =
        "[ResRecord 1 5 ''a'' 3 (Task ''t'')]" and h = 1])
    (simp_all add: res_defs res_new_def res_record_def res_validate_def hm_insert_def hm_modify_def
      handles_of_def opt_or_def Let_def)

text \<open>The books are exact after any sequence of registrations (the ones whose thread could not
  be created included), releases and rollbacks: every cleanup is counted once, an owner has
  no active resource exactly when \<open>active_for\<close> is zero, and a worker thread runs exactly for
  the active timers and tasks.\<close>

theorem resource_books_exact:
  "t = fold res_apply ops res_new \<Longrightarrow>
   rt_total_releases t = length (filter (\<lambda>r. rr_state r = RReleased) (hm_values (rt_records t))) \<and>
   (res_active_for t c = 0 \<longleftrightarrow>
      (\<forall>h r. res_record t h = Some r \<and> rr_owner_context r = c \<longrightarrow> rr_state r \<noteq> RActive)) \<and>
   (res_timer_fires t h \<noteq> None \<longleftrightarrow>
      (\<exists>r l ms. res_record t h = Some r \<and> rr_state r = RActive \<and> rr_kind r = Timer l ms)) \<and>
   (res_task_beats t h \<noteq> None \<longleftrightarrow>
      (\<exists>r l. res_record t h = Some r \<and> rr_state r = RActive \<and> rr_kind r = Task l))"
  using res_inv_ops [OF res_inv_new, of ops] res_active_for_0 [of t c]
  unfolding res_record_def res_timer_fires_def res_task_beats_def
  by (simp add: res_inv_def res_threads_ok_def released_count_def hm_count_def)

theorem resource_books_exact_witness:
  "rt_total_releases (fold res_apply
      [OpRegister None 1 1 ''a'' 1 (Timer ''t'' 5), OpTick 1, OpRelease 1, OpRelease 1] res_new) = 1"
  using resource_books_exact [OF refl, THEN conjunct1,
      of "[OpRegister None 1 1 ''a'' 1 (Timer ''t'' 5), OpTick 1, OpRelease 1, OpRelease 1]"]
  by (simp add: res_defs res_new_def trim_t timer_spawn_def hm_insert_def hm_modify_def hm_remove_def
      handles_of_def opt_or_def Let_def)

text \<open>A rollback undoes a registration: after \<open>rollback_register\<close> of the handle that
  \<open>register\<close> returned, the records, every owner's handle list, the live threads and the
  counters of releases are as before, and the thread it had started has ended; a registration
  that failed leaves nothing behind either.\<close>

theorem rollback_undoes_register:
  assumes "t = fold res_apply ops res_new" and "res_register e c i l g k t = (u, a)"
  shows "case a of
      Inl x \<Rightarrow> rt_records u = rt_records t \<and> handles_of u = handles_of t \<and>
              rt_timers u = rt_timers t \<and> rt_tasks u = rt_tasks t
    | Inr h \<Rightarrow> (case res_rollback_register h u of (v, (timer, task)) \<Rightarrow>
         rt_records v = rt_records t \<and> handles_of v = handles_of t \<and>
         rt_timers v = rt_timers t \<and> rt_tasks v = rt_tasks t \<and> rt_total_releases v = rt_total_releases t \<and>
         (timer \<noteq> None \<longrightarrow> tl_pc (the timer) = Exited) \<and> (task \<noteq> None \<longrightarrow> kl_pc (the task) = Exited))"
proof (cases a)
  case (Inl x)
  then show ?thesis using register_failed [of t e c i l g k u x] res_inv_ops [OF res_inv_new, of ops] assms by simp
next
  case (Inr h)
  have inv: "res_inv t" using res_inv_ops [OF res_inv_new] assms(1) by simp
  have reg: "res_register e c i l g k t = (u, Inr h)" using Inr assms(2) by simp
  have h: "h = rt_next_handle t" using register_handle [OF reg] by simp
  have free: "hm_get (rt_records t) h = None" "h \<notin> set (handles_of t c)"
    "hm_get (rt_timers t) h = None" "hm_get (rt_tasks t) h = None"
    using inv res_next_unused [of t] res_inv_next_threads [OF inv] h by (auto simp: res_inv_def res_index_ok_def)
  show ?thesis
    using register_record [OF reg] register_threads [OF reg] free
    by (auto simp: Inr res_rollback_register_def Let_def hm_remove_insert_new hm_remove_absent fun_eq_iff filter_id_conv)
qed

theorem rollback_undoes_register_witness:
  "rt_records (fst (res_rollback_register 1 (fst (res_register None 1 1 ''a'' 1 (Timer ''t'' 5) res_new)))) = []"
  using rollback_undoes_register [of res_new "[]" None 1 1 "''a''" 1 "Timer ''t'' 5"
      "fst (res_register None 1 1 ''a'' 1 (Timer ''t'' 5) res_new)" "Inr 1"]
  by (simp add: res_defs res_new_def handles_of_def opt_or_def hm_insert_def hm_remove_def Let_def trim_t split: prod.splits)

text \<open>Cancellation is effective: joining after the flag was stored returns, the worker has
  ended and reported it, and it never fires or beats again; a timer that is not cancelled
  fires exactly once per interval.\<close>

theorem cancelled_worker_stops:
  assumes "timer = (timer_step ^^ n) (timer_spawn ms)" and "task = (task_step ^^ m) task_spawn" and "0 < ms"
  shows "(case res_finish_release \<lparr>rc_handle = h, rc_kind = k, rc_owner_context = c, rc_timer = Some timer, rc_task = Some task\<rparr> of
      (Some w, Some b) \<Rightarrow>
        tl_done w \<and> kl_done b \<and> tl_fires ((timer_step ^^ j) w) = tl_fires timer \<and>
        kl_beats ((task_step ^^ j) b) = kl_beats task
    | _ \<Rightarrow> False) \<and>
    tl_fires ((timer_step ^^ (2 * ms * f)) (timer_spawn ms)) = f"
proof -
  have "tl_pc timer = Exited \<longrightarrow> tl_done timer"
    unfolding assms(1) by (induction n) (auto simp: timer_spawn_def timer_step_def Let_def split: worker_pc.splits)
  moreover have "kl_pc task = Exited \<longrightarrow> kl_done task"
    unfolding assms(2) by (induction m) (auto simp: task_spawn_def task_step_def split: worker_pc.splits)
  ultimately show ?thesis
    by (simp add: res_finish_release_def timer_exited_steps task_exited_steps timer_rate [OF assms(3)])
qed

theorem cancelled_worker_stops_witness:
  "tl_fires ((timer_step ^^ (2 * 5 * 3)) (timer_spawn 5)) = 3"
  by (rule cancelled_worker_stops [where ms = 5, OF refl refl, THEN conjunct2]) simp

text \<open>C25. Registering a timer is two critical sections with the start of its thread in between: when
  the record is released between them, the thread is entered for a record that is already
  released, and no later step ever cancels it.\<close>

theorem late_publish_orphans_timer:
  "orphan_timer 1 (res_run later (res_run
     [ResRecord ctx inst logical gen (Timer label ms), ResCheck 1, ResClaim 1,
      ResPublish None ctx 1 (Timer label ms)] res_new))"
proof (rule orphan_stays [OF res_run_inv0])
  show "orphan_timer 1 (res_run [ResRecord ctx inst logical gen (Timer label ms), ResCheck 1, ResClaim 1,
      ResPublish None ctx 1 (Timer label ms)] res_new)"
    by (simp add: res_defs res_new_def orphan_timer_def is_active_record_def timer_spawn_def Let_def)
qed

end
