(* ===== verification/Mx_Registry.thy ===== *)
theory Mx_Registry
  imports Mx_Identity
begin

text \<open>
  The capability registry (\<open>registry.rs\<close>) and the topic bus (\<open>bus.rs\<close>). Both keep entries
  owned by an instance; instance zero stands for the registrations of the old adapters. What
  the kernel relies on when it withdraws an instance is one interface, \<open>owned_store\<close>.
\<close>

subsection \<open>Capability registry\<close>

record reg_entry =
  re_logical :: string
  re_instance :: nat
  re_generation :: nat
  re_epoch :: nat

type_synonym registry = "(string, reg_entry) hmap"

definition reg_new :: registry where
  "reg_new = []"

definition reg_provide :: "string \<Rightarrow> string \<Rightarrow> registry \<Rightarrow> registry" where
  "reg_provide cap fiber m =
     hm_insert cap \<lparr>re_logical = fiber, re_instance = 0, re_generation = 0, re_epoch = 0\<rparr> m"

definition reg_provide_instance :: "string \<Rightarrow> instance_ref \<Rightarrow> registry \<Rightarrow> registry" where
  "reg_provide_instance cap r m =
     hm_insert cap \<lparr>re_logical = ir_logical r, re_instance = ir_instance r,
       re_generation = ir_generation r, re_epoch = ir_epoch r\<rparr> m"

definition reg_resolve :: "registry \<Rightarrow> string \<Rightarrow> string option" where
  "reg_resolve m cap = map_option re_logical (hm_get m cap)"

definition entry_ref :: "reg_entry \<Rightarrow> instance_ref" where
  "entry_ref e = \<lparr>ir_epoch = re_epoch e, ir_instance = re_instance e, ir_context = 0,
     ir_logical = re_logical e, ir_generation = re_generation e\<rparr>"

definition reg_resolve_ref :: "registry \<Rightarrow> string \<Rightarrow> instance_ref option" where
  "reg_resolve_ref m cap = map_option entry_ref (hm_get m cap)"

definition reg_resolve_instance :: "registry \<Rightarrow> string \<Rightarrow> instance_id option" where
  "reg_resolve_instance m cap =
     Option.bind (hm_get m cap) (\<lambda>e. if re_instance e = 0 then None else Some (re_instance e))"

definition reg_revoke_fiber :: "string \<Rightarrow> registry \<Rightarrow> registry" where
  "reg_revoke_fiber fiber m = hm_retain (\<lambda>_ v. re_logical v \<noteq> fiber) m"

definition reg_revoke_instance :: "instance_id \<Rightarrow> registry \<Rightarrow> registry \<times> nat" where
  "reg_revoke_instance inst m =
     (let m' = hm_retain (\<lambda>_ v. re_instance v \<noteq> inst) m in (m', length m - length m'))"

definition reg_revoke_cap_if_owned :: "string \<Rightarrow> instance_id \<Rightarrow> registry \<Rightarrow> registry \<times> bool" where
  "reg_revoke_cap_if_owned cap inst m =
     (case hm_get m cap of
        Some e \<Rightarrow> if re_instance e = inst then (hm_remove cap m, True)
                  else if re_instance e = 0 then (hm_remove cap m, True)
                  else (m, False)
      | None \<Rightarrow> (m, False))"

definition reg_len :: "registry \<Rightarrow> nat" where
  "reg_len m = length m"

definition reg_snapshot :: "registry \<Rightarrow> (string, string) hmap" where
  "reg_snapshot m = hm_map_values re_logical m"

definition reg_snapshot_refs :: "registry \<Rightarrow> (string, instance_ref) hmap" where
  "reg_snapshot_refs m = hm_map_values entry_ref m"

subsection \<open>Topic bus\<close>

record bus_sub =
  bs_logical :: string
  bs_instance :: nat

type_synonym bus = "(string, bus_sub list) hmap"

definition bus_new :: bus where
  "bus_new = []"

definition bus_add :: "bus_sub \<Rightarrow> string \<Rightarrow> bus \<Rightarrow> bus" where
  "bus_add s topic b =
     (let e = opt_or (hm_get b topic) [] in hm_insert topic (if s \<in> set e then e else e @ [s]) b)"

definition bus_subscribe :: "string \<Rightarrow> string \<Rightarrow> bus \<Rightarrow> bus" where
  "bus_subscribe fiber topic b = bus_add \<lparr>bs_logical = fiber, bs_instance = 0\<rparr> topic b"

definition bus_subscribe_instance :: "string \<Rightarrow> instance_id \<Rightarrow> string \<Rightarrow> bus \<Rightarrow> bus" where
  "bus_subscribe_instance logical inst topic b = bus_add \<lparr>bs_logical = logical, bs_instance = inst\<rparr> topic b"

definition bus_unsubscribe_fiber :: "string \<Rightarrow> bus \<Rightarrow> bus" where
  "bus_unsubscribe_fiber fiber b = hm_map_values (filter (\<lambda>s. bs_logical s \<noteq> fiber)) b"

definition bus_unsubscribe_instance :: "instance_id \<Rightarrow> bus \<Rightarrow> bus" where
  "bus_unsubscribe_instance inst b = hm_map_values (filter (\<lambda>s. bs_instance s \<noteq> inst)) b"

definition bus_unsubscribe_topic_if_owned :: "instance_id \<Rightarrow> string \<Rightarrow> bus \<Rightarrow> bus \<times> bool" where
  "bus_unsubscribe_topic_if_owned inst topic b =
     (case hm_get b topic of
        Some v \<Rightarrow> (let v' = filter (\<lambda>s. \<not> (bs_instance s = inst \<or> bs_instance s = 0)) v
                   in (hm_insert topic v' b, length v' \<noteq> length v))
      | None \<Rightarrow> (b, False))"

definition bus_subscribers :: "bus \<Rightarrow> string \<Rightarrow> string list" where
  "bus_subscribers b topic = map bs_logical (opt_or (hm_get b topic) [])"

definition bus_subscriber_instances :: "bus \<Rightarrow> string \<Rightarrow> instance_id list" where
  "bus_subscriber_instances b topic =
     map bs_instance (filter (\<lambda>s. bs_instance s \<noteq> 0) (opt_or (hm_get b topic) []))"

text \<open>\<open>publish\<close> has an empty body: delivery is the kernel's.\<close>

definition bus_publish :: "string \<Rightarrow> json \<Rightarrow> bus \<Rightarrow> bus" where
  "bus_publish topic payload b = b"

subsection \<open>Ownership of entries\<close>

text \<open>
  Entries are triples of a name, the logical id and the instance that own it. Withdrawing an
  instance removes exactly its entries; withdrawing one name for an instance removes nothing
  of another live instance.
\<close>

definition reg_entries :: "registry \<Rightarrow> (string \<times> string \<times> nat) set" where
  "reg_entries m = {(cap, re_logical e, re_instance e) | cap e. hm_get m cap = Some e}"

definition bus_entries :: "bus \<Rightarrow> (string \<times> string \<times> nat) set" where
  "bus_entries b = {(topic, bs_logical s, bs_instance s) | topic s v. hm_get b topic = Some v \<and> s \<in> set v}"

locale owned_store =
  fixes wf :: "'s \<Rightarrow> bool"
    and entries :: "'s \<Rightarrow> (string \<times> string \<times> nat) set"
    and withdraw :: "nat \<Rightarrow> 's \<Rightarrow> 's"
    and withdraw_name :: "string \<Rightarrow> nat \<Rightarrow> 's \<Rightarrow> 's"
  assumes wf_withdraw: "wf s \<Longrightarrow> wf (withdraw i s)"
    and wf_withdraw_name: "wf s \<Longrightarrow> wf (withdraw_name n i s)"
    and entries_withdraw: "wf s \<Longrightarrow> entries (withdraw i s) = {e \<in> entries s. snd (snd e) \<noteq> i}"
    and entries_withdraw_name: "wf s \<Longrightarrow> entries (withdraw_name n i s) \<subseteq> entries s"
    and withdraw_name_keeps: "wf s \<Longrightarrow> (m, l, j) \<in> entries s \<Longrightarrow> j \<noteq> 0 \<Longrightarrow> j \<noteq> i \<or> m \<noteq> n \<Longrightarrow>
      (m, l, j) \<in> entries (withdraw_name n i s)"
    and withdraw_name_removes: "wf s \<Longrightarrow> (n, l, i) \<notin> entries (withdraw_name n i s)"
begin

lemma wf_fold: "wf s \<Longrightarrow> wf (fold (\<lambda>n. withdraw_name n i) ns s)"
  by (induction ns arbitrary: s) (simp_all add: wf_withdraw_name)

lemma fold_keeps_others:
  "wf s \<Longrightarrow> (m, l, j) \<in> entries s \<Longrightarrow> j \<noteq> 0 \<Longrightarrow> j \<noteq> i \<Longrightarrow> (m, l, j) \<in> entries (fold (\<lambda>n. withdraw_name n i) ns s)"
  by (induction ns arbitrary: s) (simp_all add: wf_withdraw_name withdraw_name_keeps)

lemma fold_subset: "wf s \<Longrightarrow> entries (fold (\<lambda>n. withdraw_name n i) ns s) \<subseteq> entries s"
proof (induction ns arbitrary: s)
  case (Cons n ns)
  then show ?case using entries_withdraw_name [of s n i] wf_withdraw_name [of s n i] by fastforce
qed simp

lemma fold_removes:
  "wf s \<Longrightarrow> n \<in> set ns \<Longrightarrow> (n, l, i) \<notin> entries (fold (\<lambda>n. withdraw_name n i) ns s)"
proof (induction ns arbitrary: s)
  case (Cons m ns)
  show ?case
  proof (cases "m = n")
    case True
    then show ?thesis
      using fold_subset [OF wf_withdraw_name [OF Cons.prems(1), of n i], of i ns]
        withdraw_name_removes [OF Cons.prems(1), of n l i] by auto
  next
    case False
    then show ?thesis using Cons wf_withdraw_name by simp
  qed
qed simp

text \<open>
  Withdrawing every name of an instance one by one, then the instance: nothing of it is
  left, and of the other live instances nothing is gone.
\<close>

lemma withdraw_all:
  assumes "wf s" and "j \<noteq> 0"
  shows "(m, l, j) \<in> entries (withdraw i (fold (\<lambda>n. withdraw_name n i) ns s)) \<longleftrightarrow> j \<noteq> i \<and> (m, l, j) \<in> entries s"
  using assms fold_keeps_others [of s m l j i ns] fold_subset [of s i ns]
  by (auto simp: entries_withdraw wf_fold)

end

lemma reg_entries_iff:
  "(c, l, i) \<in> reg_entries m \<longleftrightarrow> (\<exists>e. hm_get m c = Some e \<and> re_logical e = l \<and> re_instance e = i)"
  by (auto simp: reg_entries_def)

lemma bus_entries_iff:
  "(c, l, i) \<in> bus_entries b \<longleftrightarrow> (\<exists>v s. hm_get b c = Some v \<and> s \<in> set v \<and> bs_logical s = l \<and> bs_instance s = i)"
  by (auto simp: bus_entries_def)

lemma reg_revoke_instance_get:
  "hm_wf m \<Longrightarrow> hm_get (fst (reg_revoke_instance i m)) c = Some e \<longleftrightarrow> hm_get m c = Some e \<and> re_instance e \<noteq> i"
  by (auto simp: reg_revoke_instance_def Let_def split: option.splits if_splits)

lemma reg_revoke_cap_get:
  "hm_get (fst (reg_revoke_cap_if_owned n i m)) c = Some e \<longleftrightarrow>
     hm_get m c = Some e \<and> (c = n \<longrightarrow> re_instance e \<noteq> i \<and> re_instance e \<noteq> 0)"
  by (auto simp: reg_revoke_cap_if_owned_def split: option.splits if_splits)

lemma reg_revoke_wf [simp]:
  "hm_wf m \<Longrightarrow> hm_wf (fst (reg_revoke_instance i m))" "hm_wf m \<Longrightarrow> hm_wf (fst (reg_revoke_cap_if_owned n i m))"
  by (auto simp: reg_revoke_instance_def reg_revoke_cap_if_owned_def Let_def split: option.splits)

lemma bus_unsubscribe_get:
  "hm_get (bus_unsubscribe_instance i b) c = map_option (filter (\<lambda>s. bs_instance s \<noteq> i)) (hm_get b c)"
  by (simp add: bus_unsubscribe_instance_def)

lemma bus_unsubscribe_topic_get:
  "hm_get (fst (bus_unsubscribe_topic_if_owned i n b)) c =
     map_option (\<lambda>v. if c = n then filter (\<lambda>s. bs_instance s \<noteq> i \<and> bs_instance s \<noteq> 0) v else v) (hm_get b c)"
  by (cases "hm_get b n"; cases "c = n"; simp add: bus_unsubscribe_topic_if_owned_def Let_def map_option.id [unfolded id_def])

lemma bus_wf [simp]:
  "hm_wf b \<Longrightarrow> hm_wf (bus_unsubscribe_instance i b)" "hm_wf b \<Longrightarrow> hm_wf (fst (bus_unsubscribe_topic_if_owned i n b))"
  by (auto simp: bus_unsubscribe_instance_def bus_unsubscribe_topic_if_owned_def Let_def split: option.splits)

lemma bus_entries_unsubscribe:
  "(c, l, j) \<in> bus_entries (bus_unsubscribe_instance i b) \<longleftrightarrow> (c, l, j) \<in> bus_entries b \<and> j \<noteq> i"
  unfolding bus_entries_iff bus_unsubscribe_get by (cases "hm_get b c") auto

lemma bus_entries_unsubscribe_topic:
  "(c, l, j) \<in> bus_entries (fst (bus_unsubscribe_topic_if_owned i n b)) \<longleftrightarrow>
     (c, l, j) \<in> bus_entries b \<and> (c = n \<longrightarrow> j \<noteq> i \<and> j \<noteq> 0)"
  unfolding bus_entries_iff bus_unsubscribe_topic_get by (cases "hm_get b c"; cases "c = n") auto

interpretation reg_store: owned_store hm_wf reg_entries "\<lambda>i m. fst (reg_revoke_instance i m)"
  "\<lambda>n i m. fst (reg_revoke_cap_if_owned n i m)"
  by unfold_locales (auto simp: reg_entries_iff reg_revoke_instance_get reg_revoke_cap_get)

interpretation bus_store: owned_store hm_wf bus_entries bus_unsubscribe_instance
  "\<lambda>n i b. fst (bus_unsubscribe_topic_if_owned i n b)"
  by unfold_locales (auto simp: bus_entries_unsubscribe bus_entries_unsubscribe_topic)

subsection \<open>Properties\<close>

text \<open>Withdrawing an instance is selective: after its capabilities and topics were revoked one by
  one and then the instance as a whole, the registry and the bus hold exactly the entries of
  the other live instances that they held before.\<close>

theorem withdraw_is_selective:
  assumes "hm_wf m" and "hm_wf b" and "j \<noteq> 0"
  shows "((cap, l, j) \<in> reg_entries (fst (reg_revoke_instance i
            (fold (\<lambda>n m. fst (reg_revoke_cap_if_owned n i m)) caps m)))
          \<longleftrightarrow> j \<noteq> i \<and> (cap, l, j) \<in> reg_entries m) \<and>
    ((topic, l, j) \<in> bus_entries (bus_unsubscribe_instance i
            (fold (\<lambda>n b. fst (bus_unsubscribe_topic_if_owned i n b)) topics b))
          \<longleftrightarrow> j \<noteq> i \<and> (topic, l, j) \<in> bus_entries b)"
  using reg_store.withdraw_all [OF assms(1,3), of cap l i caps]
    bus_store.withdraw_all [OF assms(2,3), of topic l i topics] by simp

theorem withdraw_is_selective_witness:
  "(''x'', ''a'', 2) \<in> reg_entries (fst (reg_revoke_instance 1
      (fold (\<lambda>n m. fst (reg_revoke_cap_if_owned n 1 m)) [''x'', ''y'']
        (reg_provide_instance ''x'' (instance_ref_new 9 2 2 ''a'' 2)
          (reg_provide_instance ''y'' (instance_ref_new 9 1 1 ''a'' 1) reg_new)))))"
  using withdraw_is_selective [of "reg_provide_instance ''x'' (instance_ref_new 9 2 2 ''a'' 2)
      (reg_provide_instance ''y'' (instance_ref_new 9 1 1 ''a'' 1) reg_new)" "[]" 2 "''x''" "''a''" 1 "[''x'', ''y'']" "''t''" "[]"]
  by (simp add: reg_new_def reg_provide_instance_def instance_ref_new_def reg_entries_iff hm_insert_def)

end
