(* ===== verification/Mx_Calls.thy ===== *)
theory Mx_Calls
  imports Mx_Resources
begin

text \<open>
  Admission tickets, their revocation and the ledger of committed effects (\<open>calls.rs\<close>).
  Instants are nanoseconds of the monotonic clock, passed in by the caller; the condition
  variable only wakes waiters up, so it appears as the sequence of states a waiter observes.
\<close>

named_theorems calls_defs \<open>definitions of the call table operations\<close>

definition MAX_INFLIGHT_CALLS :: nat where
  "MAX_INFLIGHT_CALLS = 256"

definition MAX_EFFECTS :: nat where
  "MAX_EFFECTS = 1024"

datatype withdraw_policy = Drain | Cancel

fun wp_as_str :: "withdraw_policy \<Rightarrow> string" where
  "wp_as_str Drain = ''drain''"
| "wp_as_str Cancel = ''cancel''"

definition wp_parse :: "string \<Rightarrow> withdraw_policy option" where
  "wp_parse s =
     (let w = to_ascii_lowercase (trim s)
      in if w = ''drain'' then Some Drain else if w = ''cancel'' then Some Cancel else None)"

record call_policy =
  cp_on_withdraw :: withdraw_policy
  cp_drain_ms :: nat

definition policy_default :: call_policy where
  "policy_default = \<lparr>cp_on_withdraw = Cancel, cp_drain_ms = 0\<rparr>"

definition policy_cancel :: call_policy where
  "policy_cancel = policy_default"

definition policy_drain :: "nat \<Rightarrow> call_policy" where
  "policy_drain drain_ms = \<lparr>cp_on_withdraw = Drain, cp_drain_ms = drain_ms\<rparr>"

definition show_ticket :: "ticket_id \<Rightarrow> string" where
  "show_ticket t = ''tkt-'' @ show_nat t"

datatype ticket_state = Admitted | Committed | Cancelled | Expired

fun ts_as_str :: "ticket_state \<Rightarrow> string" where
  "ts_as_str Admitted = ''Admitted''"
| "ts_as_str Committed = ''Committed''"
| "ts_as_str Cancelled = ''Cancelled''"
| "ts_as_str Expired = ''Expired''"

record dep_child =
  dc_parent :: ticket_id
  dc_binding :: string
  dc_consumer :: instance_id
  dc_session :: string
  dc_grant_consumer :: string
  dc_grant_cap :: string
  dc_grant_rev :: nat
  dc_depth :: nat
  dc_remote_peer :: "string option"

text \<open>The cancellation flag is shared with the worker; the table owns its value.\<close>

record ticket_record =
  tr_id :: ticket_id
  tr_cap :: string
  tr_logical :: string
  tr_instance :: instance_id
  tr_generation :: nat
  tr_context :: context_id
  tr_epoch :: nat
  tr_policy :: call_policy
  tr_state :: ticket_state
  tr_cancel :: bool
  tr_pins :: "resource_handle list"
  tr_opened_at :: nat
  tr_drain_until :: "nat option"
  tr_cancel_reason :: "string option"
  tr_dep :: "dep_child option"

definition tr_is_open :: "ticket_record \<Rightarrow> bool" where
  "tr_is_open t \<longleftrightarrow> tr_state t = Admitted"

definition as_millis :: "nat \<Rightarrow> nat" where
  "as_millis ns = ns div 1000000"

definition tr_elapsed_ms :: "nat \<Rightarrow> ticket_record \<Rightarrow> nat" where
  "tr_elapsed_ms now t = as_millis (now - tr_opened_at t)"

definition tr_drain_left_ms :: "nat \<Rightarrow> ticket_record \<Rightarrow> nat option" where
  "tr_drain_left_ms now t =
     map_option (\<lambda>u. if now < u then as_millis (u - now) else 0) (tr_drain_until t)"

record committed_effect =
  ce_seq :: nat
  ce_ticket :: ticket_id
  ce_logical :: string
  ce_instance :: instance_id
  ce_generation :: nat
  ce_kind :: string
  ce_payload :: json
  ce_at_ms :: nat

record calls_table =
  cl_next_ticket :: nat
  cl_next_effect :: nat
  cl_tickets :: "(ticket_id, ticket_record) hmap"
  cl_effects :: "committed_effect list"
  cl_cleanup_claims :: "instance_id set"

definition calls_new :: calls_table where
  "calls_new = \<lparr>cl_next_ticket = 1, cl_next_effect = 1, cl_tickets = [], cl_effects = [], cl_cleanup_claims = {}\<rparr>"

definition calls_alloc ::
  "string \<Rightarrow> string \<Rightarrow> instance_id \<Rightarrow> nat \<Rightarrow> context_id \<Rightarrow> nat \<Rightarrow> call_policy \<Rightarrow> resource_handle list \<Rightarrow> bool \<Rightarrow>
     nat \<Rightarrow> calls_table \<Rightarrow> calls_table \<times> ticket_id" where
  "calls_alloc cap logical inst gen ctx epoch policy pins cancel now t =
     (let i = cl_next_ticket t;
          rec = \<lparr>tr_id = i, tr_cap = cap, tr_logical = logical, tr_instance = inst, tr_generation = gen,
                 tr_context = ctx, tr_epoch = epoch, tr_policy = policy, tr_state = Admitted, tr_cancel = cancel,
                 tr_pins = pins, tr_opened_at = now, tr_drain_until = None, tr_cancel_reason = None, tr_dep = None\<rparr>
      in (t\<lparr>cl_next_ticket := i + 1, cl_tickets := hm_insert i rec (cl_tickets t)\<rparr>, i))"

definition calls_modify :: "ticket_id \<Rightarrow> (ticket_record \<Rightarrow> ticket_record) \<Rightarrow> calls_table \<Rightarrow> calls_table" where
  "calls_modify i f t = t\<lparr>cl_tickets := hm_modify i f (cl_tickets t)\<rparr>"

definition calls_set_dep_meta :: "ticket_id \<Rightarrow> dep_child \<Rightarrow> calls_table \<Rightarrow> calls_table \<times> bool" where
  "calls_set_dep_meta i meta t =
     (case hm_get (cl_tickets t) i of
        None \<Rightarrow> (t, False)
      | Some _ \<Rightarrow> (calls_modify i (\<lambda>r. r\<lparr>tr_dep := Some meta\<rparr>) t, True))"

definition dep_is :: "(dep_child \<Rightarrow> bool) \<Rightarrow> ticket_record \<Rightarrow> bool" where
  "dep_is P r = (case tr_dep r of None \<Rightarrow> False | Some d \<Rightarrow> P d)"

definition calls_open_children_of :: "calls_table \<Rightarrow> ticket_id \<Rightarrow> ticket_record list" where
  "calls_open_children_of t parent =
     filter (\<lambda>r. dep_is (\<lambda>d. dc_parent d = parent) r \<and> tr_state r = Admitted) (hm_values (cl_tickets t))"

definition mark_cancelled :: "string \<Rightarrow> ticket_record \<Rightarrow> ticket_record" where
  "mark_cancelled reason r = r\<lparr>tr_state := Cancelled, tr_cancel := True, tr_cancel_reason := Some reason\<rparr>"

text \<open>The loop over \<open>values_mut\<close> of the three revocations: open tickets that match are marked.\<close>

definition revoke_where ::
  "(ticket_record \<Rightarrow> bool) \<Rightarrow> string \<Rightarrow> calls_table \<Rightarrow> calls_table \<times> ticket_record list" where
  "revoke_where mine reason t =
     (t\<lparr>cl_tickets := hm_map_values (\<lambda>r. if mine r \<and> tr_state r = Admitted then mark_cancelled reason r else r)
          (cl_tickets t)\<rparr>,
      map (mark_cancelled reason) (filter (\<lambda>r. mine r \<and> tr_state r = Admitted) (hm_values (cl_tickets t))))"

definition calls_revoke_descendants :: "ticket_id \<Rightarrow> string \<Rightarrow> calls_table \<Rightarrow> calls_table \<times> ticket_record list" where
  "calls_revoke_descendants parent reason t = revoke_where (dep_is (\<lambda>d. dc_parent d = parent)) reason t"

definition calls_revoke_children_of_consumer ::
  "instance_id \<Rightarrow> string \<Rightarrow> calls_table \<Rightarrow> calls_table \<times> ticket_record list" where
  "calls_revoke_children_of_consumer consumer reason t =
     revoke_where (dep_is (\<lambda>d. dc_consumer d = consumer)) reason t"

definition calls_revoke_grant_children ::
  "string \<Rightarrow> string \<Rightarrow> nat option \<Rightarrow> string \<Rightarrow> calls_table \<Rightarrow> calls_table \<times> ticket_record list" where
  "calls_revoke_grant_children consumer cap keep_rev reason t =
     revoke_where (dep_is (\<lambda>d. dc_grant_consumer d = consumer \<and> dc_grant_cap d = cap \<and>
       Some (dc_grant_rev d) \<noteq> keep_rev)) reason t"

definition calls_get :: "calls_table \<Rightarrow> ticket_id \<Rightarrow> ticket_record option" where
  "calls_get t i = hm_get (cl_tickets t) i"

text \<open>The operations that act on one ticket while it is open.\<close>

definition modify_if_admitted ::
  "ticket_id \<Rightarrow> (ticket_record \<Rightarrow> ticket_record) \<Rightarrow> calls_table \<Rightarrow> calls_table \<times> bool" where
  "modify_if_admitted i f t =
     (case hm_get (cl_tickets t) i of
        Some r \<Rightarrow> if tr_state r = Admitted then (calls_modify i f t, True) else (t, False)
      | None \<Rightarrow> (t, False))"

definition calls_mark_committed_if_admitted :: "ticket_id \<Rightarrow> calls_table \<Rightarrow> calls_table \<times> bool" where
  "calls_mark_committed_if_admitted i t = modify_if_admitted i (\<lambda>r. r\<lparr>tr_state := Committed\<rparr>) t"

definition mark_expired :: "string \<Rightarrow> ticket_record \<Rightarrow> ticket_record" where
  "mark_expired reason r = r\<lparr>tr_state := Expired, tr_cancel := True, tr_cancel_reason := Some reason\<rparr>"

definition calls_expire_ticket :: "ticket_id \<Rightarrow> calls_table \<Rightarrow> calls_table \<times> bool" where
  "calls_expire_ticket i t = modify_if_admitted i (mark_expired ''deadline-exceeded'') t"

definition calls_set_state :: "ticket_id \<Rightarrow> ticket_state \<Rightarrow> calls_table \<Rightarrow> calls_table \<times> bool" where
  "calls_set_state i state t =
     (case hm_get (cl_tickets t) i of
        None \<Rightarrow> (t, False)
      | Some _ \<Rightarrow> (calls_modify i (\<lambda>r. r\<lparr>tr_state := state\<rparr>) t, True))"

definition calls_set_drain_until :: "ticket_id \<Rightarrow> nat \<Rightarrow> calls_table \<Rightarrow> calls_table \<times> bool" where
  "calls_set_drain_until i until t =
     (case hm_get (cl_tickets t) i of
        None \<Rightarrow> (t, False)
      | Some r \<Rightarrow>
          ((if tr_state r = Admitted then calls_modify i (\<lambda>r. r\<lparr>tr_drain_until := Some until\<rparr>) t else t), True))"

definition calls_cancel :: "ticket_id \<Rightarrow> string \<Rightarrow> calls_table \<Rightarrow> calls_table \<times> bool" where
  "calls_cancel i reason t = modify_if_admitted i (mark_cancelled reason) t"

definition is_overdue :: "nat \<Rightarrow> ticket_record \<Rightarrow> bool" where
  "is_overdue now r \<longleftrightarrow>
     tr_state r = Admitted \<and> (case tr_drain_until r of None \<Rightarrow> False | Some until \<Rightarrow> until \<le> now)"

definition calls_expire_overdue :: "nat \<Rightarrow> calls_table \<Rightarrow> calls_table \<times> ticket_id list" where
  "calls_expire_overdue now t =
     (t\<lparr>cl_tickets := hm_map_values (\<lambda>r. if is_overdue now r then mark_expired ''drain-exceeded'' r else r) (cl_tickets t)\<rparr>,
      map tr_id (filter (is_overdue now) (hm_values (cl_tickets t))))"

definition calls_remove :: "ticket_id \<Rightarrow> calls_table \<Rightarrow> calls_table \<times> ticket_record option" where
  "calls_remove i t = (t\<lparr>cl_tickets := hm_remove i (cl_tickets t)\<rparr>, hm_get (cl_tickets t) i)"

definition calls_pending_for :: "calls_table \<Rightarrow> instance_id \<Rightarrow> ticket_record list" where
  "calls_pending_for t inst = sort_key tr_id (filter (\<lambda>r. tr_instance r = inst) (hm_values (cl_tickets t)))"

definition calls_pending_count :: "calls_table \<Rightarrow> instance_id \<Rightarrow> nat" where
  "calls_pending_count t inst = length (filter (\<lambda>r. tr_instance r = inst) (hm_values (cl_tickets t)))"

definition calls_inflight_count :: "calls_table \<Rightarrow> nat" where
  "calls_inflight_count t = length (cl_tickets t)"

definition calls_snapshot :: "calls_table \<Rightarrow> ticket_record list" where
  "calls_snapshot t = sort_key tr_id (hm_values (cl_tickets t))"

text \<open>
  \<open>wait_settled\<close> looks at the table each time it is woken up. The list holds what it
  observes, the table and the clock; the answer is \<open>None\<close> while it still waits.
\<close>

fun calls_wait_settled :: "instance_id \<Rightarrow> nat \<Rightarrow> (calls_table \<times> nat) list \<Rightarrow> bool option" where
  "calls_wait_settled inst until [] = None"
| "calls_wait_settled inst until ((t, now) # obs) =
     (if \<not> (\<exists>r \<in> set (hm_values (cl_tickets t)). tr_instance r = inst) then Some True
      else if until \<le> now then Some False
      else calls_wait_settled inst until obs)"

text \<open>The ring of committed effects.\<close>

function pop_excess :: "nat \<Rightarrow> 'a list \<Rightarrow> 'a list" where
  "pop_excess n xs = (if n < length xs then pop_excess n (tl xs) else xs)"
  by pat_completeness auto
termination
  by (relation "measure (\<lambda>(n, xs). length xs)") auto

definition calls_push_effect ::
  "ticket_id \<Rightarrow> string \<Rightarrow> instance_id \<Rightarrow> nat \<Rightarrow> string \<Rightarrow> json \<Rightarrow> nat \<Rightarrow> calls_table \<Rightarrow> calls_table \<times> committed_effect" where
  "calls_push_effect ticket logical inst gen kind payload wall t =
     (let e = \<lparr>ce_seq = cl_next_effect t, ce_ticket = ticket, ce_logical = logical, ce_instance = inst,
               ce_generation = gen, ce_kind = kind, ce_payload = payload, ce_at_ms = wall\<rparr>
      in (t\<lparr>cl_next_effect := cl_next_effect t + 1,
            cl_effects := pop_excess MAX_EFFECTS (cl_effects t @ [e])\<rparr>, e))"

definition calls_effects_for :: "calls_table \<Rightarrow> string option \<Rightarrow> committed_effect list" where
  "calls_effects_for t logical =
     filter (\<lambda>e. case logical of None \<Rightarrow> True | Some l \<Rightarrow> ce_logical e = l) (cl_effects t)"

definition calls_effects_len :: "calls_table \<Rightarrow> nat" where
  "calls_effects_len t = length (cl_effects t)"

definition calls_try_claim_cleanup :: "instance_id \<Rightarrow> calls_table \<Rightarrow> calls_table \<times> bool" where
  "calls_try_claim_cleanup inst t =
     (t\<lparr>cl_cleanup_claims := insert inst (cl_cleanup_claims t)\<rparr>, inst \<notin> cl_cleanup_claims t)"

definition calls_release_cleanup_claim :: "instance_id \<Rightarrow> calls_table \<Rightarrow> calls_table" where
  "calls_release_cleanup_claim inst t = t\<lparr>cl_cleanup_claims := cl_cleanup_claims t - {inst}\<rparr>"

declare pop_excess.simps [simp del]

lemma pop_excess_drop: "pop_excess n xs = drop (length xs - n) xs"
proof (induction n xs rule: pop_excess.induct)
  case (1 n xs)
  show ?case
  proof (cases "n < length xs")
    case True
    then obtain y ys where "xs = y # ys" by (cases xs) auto
    then show ?thesis using True 1 by (subst pop_excess.simps) (simp add: Suc_diff_le)
  qed (simp add: pop_excess.simps [of n xs])
qed

lemma pop_excess_append: "pop_excess n (pop_excess n xs @ ys) = pop_excess n (xs @ ys)"
proof (cases "n < length xs")
  case True
  define a where "a = length xs - n"
  have a: "length xs = n + a" using True by (simp add: a_def)
  have "pop_excess n xs = drop a xs" using a by (simp add: pop_excess_drop)
  moreover have "pop_excess n (drop a xs @ ys) = drop (length ys) (drop a xs @ ys)"
    using a by (simp add: pop_excess_drop)
  moreover have "drop (length ys) (drop a xs @ ys) = drop (length ys + a) (xs @ ys)"
    using a by simp
  moreover have "pop_excess n (xs @ ys) = drop (length ys + a) (xs @ ys)"
    using a by (simp add: pop_excess_drop add.commute [of a])
  ultimately show ?thesis by simp
qed (simp add: pop_excess_drop)

lemmas [calls_defs] = calls_alloc_def calls_set_dep_meta_def calls_revoke_descendants_def
  calls_revoke_children_of_consumer_def calls_revoke_grant_children_def revoke_where_def
  calls_mark_committed_if_admitted_def calls_expire_ticket_def calls_set_state_def
  calls_set_drain_until_def calls_cancel_def calls_expire_overdue_def calls_remove_def
  calls_push_effect_def calls_try_claim_cleanup_def calls_release_cleanup_claim_def
  calls_modify_def modify_if_admitted_def

subsection \<open>Contract of the ticket operations\<close>

text \<open>
  Ids are issued once; a ticket keeps its identity; one that is no longer open, or is gone,
  never opens again; and the ring holds the latest effects in order.
\<close>

definition calls_inv :: "calls_table \<Rightarrow> bool" where
  "calls_inv t \<longleftrightarrow>
     hm_wf (cl_tickets t) \<and> 0 < cl_next_ticket t \<and> 0 < cl_next_effect t \<and>
     (\<forall>i r. hm_get (cl_tickets t) i = Some r \<longrightarrow> tr_id r = i \<and> 0 < i \<and> i < cl_next_ticket t) \<and>
     length (cl_effects t) = min MAX_EFFECTS (cl_next_effect t - 1) \<and>
     map ce_seq (cl_effects t) = [cl_next_effect t - length (cl_effects t) ..< cl_next_effect t]"

definition same_call :: "ticket_record \<Rightarrow> ticket_record \<Rightarrow> bool" where
  "same_call r s \<longleftrightarrow> tr_id r = tr_id s \<and> tr_cap r = tr_cap s \<and> tr_logical r = tr_logical s \<and>
     tr_instance r = tr_instance s \<and> tr_generation r = tr_generation s \<and> tr_context r = tr_context s \<and>
     tr_epoch r = tr_epoch s \<and> tr_policy r = tr_policy s \<and> tr_pins r = tr_pins s \<and> tr_opened_at r = tr_opened_at s"

definition ticket_open :: "calls_table \<Rightarrow> ticket_id \<Rightarrow> bool" where
  "ticket_open t i = (case hm_get (cl_tickets t) i of None \<Rightarrow> False | Some r \<Rightarrow> tr_state r = Admitted)"

lemma same_call_simps [simp]:
  "same_call r r" "same_call (mark_cancelled c r) r" "same_call (mark_expired c r) r"
  "same_call (r\<lparr>tr_state := s\<rparr>) r" "same_call (r\<lparr>tr_drain_until := u\<rparr>) r" "same_call (r\<lparr>tr_dep := d\<rparr>) r"
  by (simp_all add: same_call_def mark_cancelled_def mark_expired_def)

lemma mark_state_simps [simp]:
  "tr_state (mark_cancelled c r) = Cancelled" "tr_state (mark_expired c r) = Expired"
  "tr_cancel (mark_cancelled c r)" "tr_cancel (mark_expired c r)"
  "tr_dep (mark_cancelled c r) = tr_dep r" "tr_dep (mark_expired c r) = tr_dep r"
  by (simp_all add: mark_cancelled_def mark_expired_def)

locale ticket_op =
  fixes step :: "calls_table \<Rightarrow> calls_table"
  assumes step_inv: "calls_inv t \<Longrightarrow> calls_inv (step t)"
    and step_next: "cl_next_ticket t \<le> cl_next_ticket (step t)"
    and step_back: "calls_inv t \<Longrightarrow> i < cl_next_ticket t \<Longrightarrow> hm_get (cl_tickets (step t)) i = Some q \<Longrightarrow>
      \<exists>r. hm_get (cl_tickets t) i = Some r \<and> same_call q r \<and> (tr_state r \<noteq> Admitted \<longrightarrow> tr_state q = tr_state r)"
begin

lemma closed_stays:
  assumes "calls_inv t" "i < cl_next_ticket t" "\<not> ticket_open t i"
  shows "\<not> ticket_open (step t) i"
proof (cases "hm_get (cl_tickets (step t)) i")
  case (Some q)
  then show ?thesis using step_back [OF assms(1,2) Some] assms(3) by (auto simp: ticket_open_def)
qed (simp add: ticket_open_def)

lemma terminal_kept:
  assumes "calls_inv t" "hm_get (cl_tickets t) i = Some r" "tr_state r \<noteq> Admitted" "hm_get (cl_tickets (step t)) i = Some q"
  shows "tr_state q = tr_state r"
proof -
  have "i < cl_next_ticket t" using assms(1,2) by (simp add: calls_inv_def)
  then show ?thesis using step_back [OF assms(1) _ assms(4)] assms(2,3) by auto
qed

end

lemma ticket_op_comp:
  assumes f: "ticket_op f" and g: "ticket_op g"
  shows "ticket_op (\<lambda>t. g (f t))"
proof
  fix t i q
  show "cl_next_ticket t \<le> cl_next_ticket (g (f t))"
    using ticket_op.step_next [OF f, of t] ticket_op.step_next [OF g, of "f t"] by simp
  assume inv: "calls_inv t"
  note inv' = ticket_op.step_inv [OF f inv]
  show "calls_inv (g (f t))" using ticket_op.step_inv [OF g inv'] .
  assume i: "i < cl_next_ticket t" and q: "hm_get (cl_tickets (g (f t))) i = Some q"
  have "i < cl_next_ticket (f t)" using i ticket_op.step_next [OF f, of t] by simp
  then obtain p where p: "hm_get (cl_tickets (f t)) i = Some p" "same_call q p"
    "tr_state p \<noteq> Admitted \<longrightarrow> tr_state q = tr_state p"
    using ticket_op.step_back [OF g inv' _ q] by blast
  obtain r where "hm_get (cl_tickets t) i = Some r" "same_call p r"
    "tr_state r \<noteq> Admitted \<longrightarrow> tr_state p = tr_state r"
    using ticket_op.step_back [OF f inv i p(1)] by blast
  then show "\<exists>r. hm_get (cl_tickets t) i = Some r \<and> same_call q r \<and> (tr_state r \<noteq> Admitted \<longrightarrow> tr_state q = tr_state r)"
    using p by (auto simp: same_call_def)
qed

lemma ticket_op_id: "ticket_op (\<lambda>t. t)"
  by unfold_locales auto

text \<open>Operations that change or drop existing tickets and nothing else.\<close>

lemma ticket_op_local:
  assumes frame: "\<And>t. cl_next_ticket (f t) = cl_next_ticket t \<and> cl_next_effect (f t) = cl_next_effect t \<and> cl_effects (f t) = cl_effects t"
    and wf: "\<And>t. hm_wf (cl_tickets t) \<Longrightarrow> hm_wf (cl_tickets (f t))"
    and prev: "\<And>t i q. hm_get (cl_tickets (f t)) i = Some q \<Longrightarrow>
      \<exists>r. hm_get (cl_tickets t) i = Some r \<and> same_call q r \<and> (tr_state r \<noteq> Admitted \<longrightarrow> tr_state q = tr_state r)"
  shows "ticket_op f"
proof
  fix t i q
  assume inv: "calls_inv t"
  have "tr_id r = j \<and> 0 < j \<and> j < cl_next_ticket t" if r: "hm_get (cl_tickets (f t)) j = Some r" for j r
    using prev [OF r] inv by (auto simp: calls_inv_def same_call_def)
  then show "calls_inv (f t)" using inv frame [of t] wf [of t] by (simp add: calls_inv_def)
  show "\<exists>r. hm_get (cl_tickets t) i = Some r \<and> same_call q r \<and> (tr_state r \<noteq> Admitted \<longrightarrow> tr_state q = tr_state r)"
    if "hm_get (cl_tickets (f t)) i = Some q"
    using prev [OF that] .
qed (simp add: frame)

lemma ticket_op_modify:
  assumes "\<And>r. same_call (g r) r"
  shows "ticket_op (\<lambda>t. fst (modify_if_admitted i g t))"
  by (rule ticket_op_local)
    (use assms in \<open>auto simp: modify_if_admitted_def calls_modify_def split: option.splits if_splits\<close>)

interpretation op_commit: ticket_op "\<lambda>t. fst (calls_mark_committed_if_admitted i t)" for i
  unfolding calls_mark_committed_if_admitted_def by (rule ticket_op_modify) simp

interpretation op_expire: ticket_op "\<lambda>t. fst (calls_expire_ticket i t)" for i
  unfolding calls_expire_ticket_def by (rule ticket_op_modify) simp

interpretation op_cancel: ticket_op "\<lambda>t. fst (calls_cancel i reason t)" for i reason
  unfolding calls_cancel_def by (rule ticket_op_modify) simp

interpretation op_drain: ticket_op "\<lambda>t. fst (calls_set_drain_until i until t)" for i until
  by (rule ticket_op_local) (auto simp: calls_set_drain_until_def calls_modify_def split: option.splits if_splits)

interpretation op_dep_meta: ticket_op "\<lambda>t. fst (calls_set_dep_meta i meta t)" for i meta
  by (rule ticket_op_local) (auto simp: calls_set_dep_meta_def calls_modify_def split: option.splits if_splits)

interpretation op_revoke: ticket_op "\<lambda>t. fst (revoke_where mine reason t)" for mine reason
  by (rule ticket_op_local) (auto simp: revoke_where_def split: if_splits)

interpretation op_overdue: ticket_op "\<lambda>t. fst (calls_expire_overdue now t)" for now
  by (rule ticket_op_local) (auto simp: calls_expire_overdue_def is_overdue_def split: if_splits)

interpretation op_remove: ticket_op "\<lambda>t. fst (calls_remove i t)" for i
  by (rule ticket_op_local) (auto simp: calls_remove_def split: if_splits)

interpretation op_claim_cleanup: ticket_op "\<lambda>t. fst (calls_try_claim_cleanup i t)" for i
  by (rule ticket_op_local) (auto simp: calls_try_claim_cleanup_def)

interpretation op_release_cleanup: ticket_op "calls_release_cleanup_claim i" for i
  by (rule ticket_op_local) (auto simp: calls_release_cleanup_claim_def)

interpretation op_alloc: ticket_op "\<lambda>t. fst (calls_alloc cap l inst g ctx ep pol pins cancel now t)"
  for cap l inst g ctx ep pol pins cancel now
  by unfold_locales (auto simp: calls_alloc_def Let_def calls_inv_def less_Suc_eq split: if_splits)

lemma push_effect_frame [simp]:
  "cl_tickets (fst (calls_push_effect k l i g kind p w t)) = cl_tickets t"
  "cl_next_ticket (fst (calls_push_effect k l i g kind p w t)) = cl_next_ticket t"
  "cl_next_effect (fst (calls_push_effect k l i g kind p w t)) = cl_next_effect t + 1"
  "cl_effects (fst (calls_push_effect k l i g kind p w t)) =
     pop_excess MAX_EFFECTS (cl_effects t @ [snd (calls_push_effect k l i g kind p w t)])"
  "ce_seq (snd (calls_push_effect k l i g kind p w t)) = cl_next_effect t"
  by (simp_all add: calls_push_effect_def Let_def)

lemma calls_inv_push:
  assumes "calls_inv t"
  shows "calls_inv (fst (calls_push_effect k l i g kind p w t))"
proof -
  define n where "n = cl_next_effect t"
  define es where "es = cl_effects t @ [snd (calls_push_effect k l i g kind p w t)]"
  have n: "0 < n" "length (cl_effects t) = min MAX_EFFECTS (n - 1)"
    "map ce_seq (cl_effects t) = [n - length (cl_effects t) ..< n]"
    using assms by (simp_all add: calls_inv_def n_def)
  have len: "length es = Suc (min MAX_EFFECTS (n - 1))" using n(2) by (simp add: es_def)
  have "n - length (cl_effects t) \<le> n" by simp
  then have seq: "map ce_seq es = [n - length (cl_effects t) ..< Suc n]"
    using n by (simp add: es_def n_def [symmetric])
  have "length (pop_excess MAX_EFFECTS es) = min MAX_EFFECTS n"
    using n(1) by (simp add: pop_excess_drop len)
  moreover have "map ce_seq (pop_excess MAX_EFFECTS es) = [Suc n - length (pop_excess MAX_EFFECTS es) ..< Suc n]"
    unfolding pop_excess_drop drop_map [symmetric] seq
    using n(1,2) len by (simp del: upt_Suc add: min_def Suc_diff_le split: if_splits)
  ultimately show ?thesis
    using assms by (simp add: calls_inv_def n_def [symmetric] es_def [symmetric] del: upt_Suc)
qed

interpretation op_push: ticket_op "\<lambda>t. fst (calls_push_effect k l i g kind p w t)" for k l i g kind p w
  by unfold_locales (auto simp: calls_inv_push)

subsection \<open>Interleavings\<close>

text \<open>
  Every critical section but \<open>set_state\<close>, which overwrites a state without looking at it and
  is left to the kernel's own checks.
\<close>

datatype call_cmd =
    CallAlloc string string instance_id nat context_id nat call_policy "resource_handle list" nat
  | CallDepMeta ticket_id dep_child
  | CallRevokeDescendants ticket_id string
  | CallRevokeConsumer instance_id string
  | CallRevokeGrant string string "nat option" string
  | CallCommit ticket_id
  | CallExpire ticket_id
  | CallDrain ticket_id nat
  | CallCancel ticket_id string
  | CallOverdue nat
  | CallRemove ticket_id
  | CallPush ticket_id string instance_id nat string json nat
  | CallClaimCleanup instance_id
  | CallReleaseCleanup instance_id

fun call_exec :: "call_cmd \<Rightarrow> calls_table \<Rightarrow> calls_table" where
  "call_exec (CallAlloc c l i g x e p pins now) = (\<lambda>t. fst (calls_alloc c l i g x e p pins False now t))"
| "call_exec (CallDepMeta i m) = (\<lambda>t. fst (calls_set_dep_meta i m t))"
| "call_exec (CallRevokeDescendants p r) = (\<lambda>t. fst (calls_revoke_descendants p r t))"
| "call_exec (CallRevokeConsumer c r) = (\<lambda>t. fst (calls_revoke_children_of_consumer c r t))"
| "call_exec (CallRevokeGrant c cap k r) = (\<lambda>t. fst (calls_revoke_grant_children c cap k r t))"
| "call_exec (CallCommit i) = (\<lambda>t. fst (calls_mark_committed_if_admitted i t))"
| "call_exec (CallExpire i) = (\<lambda>t. fst (calls_expire_ticket i t))"
| "call_exec (CallDrain i u) = (\<lambda>t. fst (calls_set_drain_until i u t))"
| "call_exec (CallCancel i r) = (\<lambda>t. fst (calls_cancel i r t))"
| "call_exec (CallOverdue n) = (\<lambda>t. fst (calls_expire_overdue n t))"
| "call_exec (CallRemove i) = (\<lambda>t. fst (calls_remove i t))"
| "call_exec (CallPush k l i g kind p w) = (\<lambda>t. fst (calls_push_effect k l i g kind p w t))"
| "call_exec (CallClaimCleanup i) = (\<lambda>t. fst (calls_try_claim_cleanup i t))"
| "call_exec (CallReleaseCleanup i) = calls_release_cleanup_claim i"

fun call_run :: "call_cmd list \<Rightarrow> calls_table \<Rightarrow> calls_table" where
  "call_run [] = (\<lambda>t. t)"
| "call_run (c # cs) = (\<lambda>t. call_run cs (call_exec c t))"

interpretation op_call_exec: ticket_op "call_exec c" for c
  by (cases c) (simp_all add: op_alloc.ticket_op_axioms op_dep_meta.ticket_op_axioms op_revoke.ticket_op_axioms
      op_commit.ticket_op_axioms op_expire.ticket_op_axioms op_drain.ticket_op_axioms op_cancel.ticket_op_axioms
      op_overdue.ticket_op_axioms op_remove.ticket_op_axioms op_push.ticket_op_axioms
      op_claim_cleanup.ticket_op_axioms op_release_cleanup.ticket_op_axioms
      calls_revoke_descendants_def calls_revoke_children_of_consumer_def calls_revoke_grant_children_def)

lemma ticket_op_run: "ticket_op (call_run cs)"
  by (induction cs) (simp_all add: ticket_op_id ticket_op_comp op_call_exec.ticket_op_axioms)

interpretation op_call_run: ticket_op "call_run cs" for cs
  by (rule ticket_op_run)

lemma calls_inv_new [simp]: "calls_inv calls_new"
  by (simp add: calls_inv_def calls_new_def)

lemma call_run_inv: "calls_inv (call_run cs calls_new)"
  by (rule op_call_run.step_inv) simp

text \<open>The ledger without a bound: every effect that was pushed, in order.\<close>

fun pushed :: "call_cmd list \<Rightarrow> calls_table \<Rightarrow> committed_effect list" where
  "pushed [] t = []"
| "pushed (c # cs) t =
     (case c of CallPush k l i g kind p w \<Rightarrow> [snd (calls_push_effect k l i g kind p w t)] | _ \<Rightarrow> [])
       @ pushed cs (call_exec c t)"

lemma ring_step:
  "cl_effects (call_exec c t) = pop_excess MAX_EFFECTS (cl_effects t @ pushed [c] t)"
  if "length (cl_effects t) \<le> MAX_EFFECTS"
  using that
  by (cases c) (simp_all add: pop_excess_drop calls_defs Let_def split: option.splits)

lemma ring_latest:
  "calls_inv t \<Longrightarrow> cl_effects (call_run cs t) = pop_excess MAX_EFFECTS (cl_effects t @ pushed cs t)"
proof (induction cs arbitrary: t)
  case Nil
  then show ?case by (simp add: pop_excess_drop calls_inv_def)
next
  case (Cons c cs)
  let ?u = "call_exec c t"
  have len: "length (cl_effects t) \<le> MAX_EFFECTS" using Cons.prems by (simp add: calls_inv_def)
  have "cl_effects (call_run cs ?u) = pop_excess MAX_EFFECTS (cl_effects ?u @ pushed cs ?u)"
    using Cons.IH [OF op_call_exec.step_inv [OF Cons.prems]] .
  also have "\<dots> = pop_excess MAX_EFFECTS (pop_excess MAX_EFFECTS (cl_effects t @ pushed [c] t) @ pushed cs ?u)"
    using ring_step [OF len, of c] by simp
  also have "\<dots> = pop_excess MAX_EFFECTS (cl_effects t @ pushed (c # cs) t)"
    by (simp add: pop_excess_append)
  finally show ?case by simp
qed

fun settlements :: "ticket_id \<Rightarrow> call_cmd list \<Rightarrow> calls_table \<Rightarrow> nat" where
  "settlements i [] t = 0"
| "settlements i (c # cs) t =
     (if ticket_open t i \<and> \<not> ticket_open (call_exec c t) i then 1 else 0) + settlements i cs (call_exec c t)"

lemma settlements_closed:
  "calls_inv t \<Longrightarrow> i < cl_next_ticket t \<Longrightarrow> \<not> ticket_open t i \<Longrightarrow> settlements i cs t = 0"
proof (induction cs arbitrary: t)
  case (Cons c cs)
  have "settlements i cs (call_exec c t) = 0"
    using Cons.prems op_call_exec.step_next [of t c] op_call_exec.closed_stays [of t i c]
    by (intro Cons.IH op_call_exec.step_inv) auto
  then show ?case using Cons.prems by simp
qed simp

lemma ticket_open_issued: "calls_inv t \<Longrightarrow> ticket_open t i \<Longrightarrow> i < cl_next_ticket t"
  by (auto simp: ticket_open_def calls_inv_def split: option.splits)

lemma settlements_le: "calls_inv t \<Longrightarrow> settlements i cs t \<le> 1"
proof (induction cs arbitrary: t)
  case (Cons c cs)
  show ?case
  proof (cases "ticket_open t i \<and> \<not> ticket_open (call_exec c t) i")
    case True
    then have "settlements i cs (call_exec c t) = 0"
      using Cons.prems ticket_open_issued [of t i] op_call_exec.step_next [of t c]
      by (intro settlements_closed op_call_exec.step_inv) auto
    then show ?thesis by simp
  next
    case False
    then show ?thesis using Cons.IH [OF op_call_exec.step_inv [OF Cons.prems]] by auto
  qed
qed simp

lemma pushed_seq:
  "map ce_seq (pushed cs t) = [cl_next_effect t ..< cl_next_effect (call_run cs t)] \<and>
   cl_next_effect t \<le> cl_next_effect (call_run cs t)"
proof (induction cs arbitrary: t)
  case (Cons c cs)
  show ?case
  proof (cases "\<exists>k l i g kind p w. c = CallPush k l i g kind p w")
    case True
    then show ?thesis using Cons [of "call_exec c t"] by (auto simp: upt_rec [of "cl_next_effect t"])
  next
    case False
    then have "cl_next_effect (call_exec c t) = cl_next_effect t" "pushed [c] t = []"
      by (cases c; auto simp: calls_defs Let_def split: option.splits)+
    then show ?thesis using Cons [of "call_exec c t"] by simp
  qed
qed simp

lemma revoke_where_get:
  "hm_get (cl_tickets (fst (revoke_where mine reason t))) i =
     map_option (\<lambda>r. if mine r \<and> tr_state r = Admitted then mark_cancelled reason r else r) (hm_get (cl_tickets t) i)"
  by (simp add: revoke_where_def)

lemma revoke_where_again:
  "snd (revoke_where mine reason (fst (revoke_where mine reason t))) = []"
  by (auto simp: revoke_where_def filter_empty_conv hm_map_values_def)

lemma wait_settled_returns:
  "(t, now) \<in> set obs \<Longrightarrow> until \<le> now \<Longrightarrow> \<exists>b. calls_wait_settled inst until obs = Some b"
  by (induction inst until obs rule: calls_wait_settled.induct) auto

lemma pending_count_0:
  "calls_pending_count t inst = 0 \<longleftrightarrow> (\<forall>r \<in> set (hm_values (cl_tickets t)). tr_instance r \<noteq> inst)"
  by (auto simp: calls_pending_count_def filter_empty_conv)

lemma wait_settled_True:
  "calls_wait_settled inst until obs = Some True \<Longrightarrow> \<exists>t now. (t, now) \<in> set obs \<and> calls_pending_count t inst = 0"
  by (induction inst until obs rule: calls_wait_settled.induct)
    (auto simp: pending_count_0 split: if_splits)

lemma wait_settled_False:
  "calls_wait_settled inst until obs = Some False \<Longrightarrow> \<exists>t now. (t, now) \<in> set obs \<and> until \<le> now \<and> 0 < calls_pending_count t inst"
  by (induction inst until obs rule: calls_wait_settled.induct)
    (force simp: pending_count_0 [THEN iffD2] calls_pending_count_def filter_empty_conv split: if_splits)+

subsection \<open>Properties\<close>


text \<open>A terminal ticket is final: after any further operations it is gone or has the same state
  and the same identity, and if it is gone its id is not issued again.\<close>

theorem terminal_ticket_final:
  assumes "t = call_run cs calls_new" and "calls_get t i = Some r" and "tr_state r \<noteq> Admitted"
  shows "(case calls_get (call_run later t) i of
      None \<Rightarrow> calls_get (call_run after (call_run later t)) i = None
    | Some q \<Rightarrow> tr_state q = tr_state r \<and> tr_instance q = tr_instance r \<and> tr_generation q = tr_generation r)"
proof -
  have inv: "calls_inv t" using call_run_inv assms(1) by simp
  have i: "i < cl_next_ticket t" using inv assms(2) by (simp add: calls_inv_def calls_get_def)
  show ?thesis
  proof (cases "calls_get (call_run later t) i")
    case None
    then show ?thesis
      using op_call_run.step_back [OF op_call_run.step_inv [OF inv, of later], of i after]
        op_call_run.step_next [of t later] i
      by (cases "hm_get (cl_tickets (call_run after (call_run later t))) i") (auto simp: calls_get_def)
  next
    case (Some q)
    then show ?thesis
      using op_call_run.step_back [OF inv i, of later q] assms(2,3) by (auto simp: calls_get_def same_call_def)
  qed
qed

theorem terminal_ticket_final_witness:
  "case calls_get (call_run [CallCommit 1, CallExpire 1]
      (call_run [CallAlloc ''a.b@1'' ''a'' 1 1 1 9 policy_default [] 0, CallCancel 1 ''stop''] calls_new)) 1 of
     None \<Rightarrow> calls_get (call_run [] (call_run [CallCommit 1, CallExpire 1]
      (call_run [CallAlloc ''a.b@1'' ''a'' 1 1 1 9 policy_default [] 0, CallCancel 1 ''stop''] calls_new))) 1 = None
   | Some q \<Rightarrow> tr_state q = Cancelled \<and> tr_instance q = 1 \<and> tr_generation q = 1"
  using terminal_ticket_final [OF refl, of "[CallAlloc ''a.b@1'' ''a'' 1 1 1 9 policy_default [] 0, CallCancel 1 ''stop'']"
      1 "the (calls_get (call_run [CallAlloc ''a.b@1'' ''a'' 1 1 1 9 policy_default [] 0, CallCancel 1 ''stop''] calls_new) 1)"
      "[CallCommit 1, CallExpire 1]" "[]"]
  by (simp add: calls_defs calls_new_def calls_get_def mark_cancelled_def Let_def)

text \<open>The bounded ring refines the unbounded ledger: it holds the latest 1024 of all effects ever
  pushed, in order, and they are numbered from one without a gap.\<close>

theorem effect_ring_is_latest:
  "cl_effects (call_run cs calls_new) =
     drop (length (pushed cs calls_new) - MAX_EFFECTS) (pushed cs calls_new) \<and>
   map ce_seq (pushed cs calls_new) = [1 ..< 1 + length (pushed cs calls_new)]"
proof -
  have "map ce_seq (pushed cs calls_new) = [1 ..< cl_next_effect (call_run cs calls_new)]"
    "1 \<le> cl_next_effect (call_run cs calls_new)"
    using pushed_seq [of cs calls_new] by (simp_all add: calls_new_def)
  moreover from this have "length (pushed cs calls_new) = cl_next_effect (call_run cs calls_new) - 1"
    by (metis length_map length_upt)
  ultimately show ?thesis
    using ring_latest [OF calls_inv_new, of cs] by (simp add: pop_excess_drop calls_new_def)
qed

text \<open>Revoking the descendants of a ticket cancels exactly the open tickets whose direct parent it
  is, leaves every other ticket as it was, reports the cancelled ones, and does nothing when
  repeated; in particular an open child of a child stays open.\<close>

theorem revoke_descendants_exact:
  "calls_get (fst (calls_revoke_descendants p reason t)) i =
     map_option (\<lambda>r. if dep_is (\<lambda>d. dc_parent d = p) r \<and> tr_state r = Admitted then mark_cancelled reason r else r)
       (calls_get t i) \<and>
   snd (calls_revoke_descendants p reason t) = map (mark_cancelled reason) (calls_open_children_of t p) \<and>
   snd (calls_revoke_descendants p reason (fst (calls_revoke_descendants p reason t))) = [] \<and>
   (ticket_open (fst (calls_revoke_descendants p reason t)) i \<longleftrightarrow>
      ticket_open t i \<and> (\<forall>r. calls_get t i = Some r \<longrightarrow> \<not> dep_is (\<lambda>d. dc_parent d = p) r))"
  by (auto simp: calls_revoke_descendants_def calls_get_def revoke_where_get revoke_where_again ticket_open_def
      split: option.splits) (simp_all add: revoke_where_def calls_open_children_of_def)

theorem revoke_descendants_exact_witness:
  "snd (calls_revoke_descendants 1 ''x'' (fst (calls_revoke_descendants 1 ''x''
      (call_run [CallAlloc ''a@1'' ''a'' 1 1 1 9 policy_default [] 0, CallAlloc ''b@1'' ''b'' 2 1 2 9 policy_default [] 0,
        CallDepMeta 2 \<lparr>dc_parent = 1, dc_binding = ''bd'', dc_consumer = 1, dc_session = ''s'', dc_grant_consumer = ''a'',
          dc_grant_cap = ''b@1'', dc_grant_rev = 1, dc_depth = 1, dc_remote_peer = None\<rparr>] calls_new)))) = []"
  by (rule revoke_descendants_exact [THEN conjunct2, THEN conjunct2, THEN conjunct1])

text \<open>Waiting for an instance to settle ends by the deadline and answers truthfully: as soon as a
  wake-up sees the clock at the deadline there is an answer; \<open>true\<close> means a state without
  pending work was observed, \<open>false\<close> that work was still pending at the deadline.\<close>

theorem wait_settled_truthful:
  "((t, now) \<in> set obs \<and> until \<le> now \<longrightarrow> calls_wait_settled inst until obs \<noteq> None) \<and>
   (calls_wait_settled inst until obs = Some True \<longrightarrow>
      (\<exists>u n. (u, n) \<in> set obs \<and> calls_pending_count u inst = 0)) \<and>
   (calls_wait_settled inst until obs = Some False \<longrightarrow>
      (\<exists>u n. (u, n) \<in> set obs \<and> until \<le> n \<and> 0 < calls_pending_count u inst))"
  using wait_settled_returns [of t now obs until inst] wait_settled_True [of inst until obs]
    wait_settled_False [of inst until obs] by auto

theorem wait_settled_truthful_witness:
  "calls_wait_settled 1 50 [(calls_new, 10)] = Some True \<and>
   (\<exists>u n. (u, n) \<in> set [(calls_new, 10)] \<and> calls_pending_count u 1 = 0)"
  using wait_settled_truthful [of calls_new 10 "[(calls_new, 10)]" 50 1] by (simp add: calls_new_def)

end
