(* ===== verification/Mx_Deps.thy ===== *)
theory Mx_Deps
  imports Mx_Json
begin

text \<open>
  Requirements, capabilities and the dependency graph (\<open>deps.rs\<close>). The graph maps a consumer
  to the providers it refers to. The depth-first search for a cycle takes the depth it may
  reach as fuel, the number of nodes being enough; Kahn's algorithm answers \<open>None\<close> where the
  Rust code would panic on an arithmetic underflow, which is shown never to happen.
\<close>

record requirement =
  rq_interface :: string
  rq_base :: string
  rq_major :: "nat option"
  rq_provider :: "string option"

record binding =
  bd_interface :: string
  bd_provider_logical :: string
  bd_provider_instance :: nat
  bd_provider_generation :: nat

definition split_cap :: "string \<Rightarrow> string \<times> nat option" where
  "split_cap s0 =
     (let s = trim s0 in
      case rfind CHR ''@'' s of
        Some at \<Rightarrow> (case parse_u64 (drop (Suc at) s) of
                      Some n \<Rightarrow> (take at s, Some n)
                    | None \<Rightarrow> (s, None))
      | None \<Rightarrow> (s, None))"

definition norm_cap :: "string \<Rightarrow> nat option \<Rightarrow> string" where
  "norm_cap base major = (case major of Some m \<Rightarrow> base @ ''@'' @ show_nat m | None \<Rightarrow> base)"

text \<open>The messages of the manifest errors, as values.\<close>

datatype deps_error =
    RequiresEmpty
  | RequiresInvalid string
  | RequiresNoInterface
  | RequiresShape
  | RequiresNotArray
  | ProvidesEmpty
  | ProvidesInvalid string
  | ProvidesNoInterface
  | ProvidesShape
  | ProvidesNotArray

definition parse_require_value :: "json \<Rightarrow> (deps_error, requirement) result" where
  "parse_require_value v =
     (case v of
        JStr s \<Rightarrow>
          if trim s = [] then Inl RequiresEmpty
          else (case split_cap s of (base, major) \<Rightarrow>
                  if base = [] then Inl (RequiresInvalid s)
                  else Inr \<lparr>rq_interface = norm_cap base major, rq_base = base, rq_major = major, rq_provider = None\<rparr>)
      | JObj _ \<Rightarrow>
          (let iface = trim (opt_or (get_str v ''interface'') []) in
           if iface = [] then Inl RequiresNoInterface
           else (case split_cap iface of (base, major0) \<Rightarrow>
             if base = [] then Inl (RequiresInvalid iface)
             else (let major = (case get_u64 v ''major'' of Some m \<Rightarrow> Some m | None \<Rightarrow> major0);
                       provider = (case map_option trim (get_str v ''provider'') of
                                     Some p \<Rightarrow> if p = [] then None else Some p | None \<Rightarrow> None)
                   in Inr \<lparr>rq_interface = norm_cap base major, rq_base = base, rq_major = major, rq_provider = provider\<rparr>)))
      | _ \<Rightarrow> Inl RequiresShape)"

definition parse_requires :: "json option \<Rightarrow> (deps_error, requirement list) result" where
  "parse_requires v =
     (case v of None \<Rightarrow> Inr []
      | Some w \<Rightarrow> (case as_array w of
                     None \<Rightarrow> Inl RequiresNotArray
                   | Some arr \<Rightarrow> collect_results parse_require_value arr))"

definition parse_provide_item :: "json \<Rightarrow> (deps_error, string) result" where
  "parse_provide_item item =
     (case item of
        JStr s \<Rightarrow> if trim s = [] then Inl ProvidesEmpty else Inr (trim s)
      | JObj _ \<Rightarrow>
          (let iface = trim (opt_or (get_str item ''interface'') []) in
           if iface = [] then Inl ProvidesNoInterface
           else (case split_cap iface of (base, major0) \<Rightarrow>
             let major = (case get_u64 item ''major'' of Some m \<Rightarrow> Some m | None \<Rightarrow> major0)
             in if base = [] then Inl (ProvidesInvalid iface) else Inr (norm_cap base major)))
      | _ \<Rightarrow> Inl ProvidesShape)"

definition parse_provides :: "json option \<Rightarrow> (deps_error, string list) result" where
  "parse_provides v =
     (case v of None \<Rightarrow> Inr []
      | Some w \<Rightarrow> (case as_array w of
                     None \<Rightarrow> Inl ProvidesNotArray
                   | Some arr \<Rightarrow> collect_results parse_provide_item arr))"

definition cap_satisfies :: "string \<Rightarrow> requirement \<Rightarrow> bool" where
  "cap_satisfies provided_cap req =
     (case split_cap provided_cap of (base, major) \<Rightarrow>
        if base \<noteq> rq_base req then False
        else (case (rq_major req, major) of
                (Some want, Some got) \<Rightarrow> want = got
              | (Some _, None) \<Rightarrow> False
              | (None, _) \<Rightarrow> True))"

datatype resolve_error =
    Missing string
  | Ambiguous string "string list"
  | VersionMismatch string string string
  | UnknownProvider string string
  | ProviderNotActive string string string
  | Cycle "string list"

definition quote :: "string \<Rightarrow> string" where
  "quote s = CHR 0x27 # s @ [CHR 0x27]"

fun show_resolve_error :: "resolve_error \<Rightarrow> string" where
  "show_resolve_error (Missing i) = ''dependency-unavailable: no definition provides '' @ i"
| "show_resolve_error (Ambiguous i ps) =
     ''ambiguous-provider: '' @ i @ '' provided by ['' @ join '', '' ps @ '']; use an explicit binding''"
| "show_resolve_error (VersionMismatch i p d) =
     ''dependency-unavailable: '' @ i @ '' at '' @ p @ '' is incompatible ('' @ d @ '')''"
| "show_resolve_error (UnknownProvider i p) =
     ''dependency-unavailable: provider '' @ quote p @ '' of '' @ i @ '' is unknown''"
| "show_resolve_error (ProviderNotActive i p s) =
     ''dependency-unavailable: provider '' @ quote p @ '' of '' @ i @ '' is '' @ s"
| "show_resolve_error (Cycle path) = ''cycle: '' @ join '' -> '' path"

subsection \<open>The graph\<close>

type_synonym edges = "(string, string list) hmap"

definition provider_candidates :: "requirement \<Rightarrow> (string, string list) hmap \<Rightarrow> string list" where
  "provider_candidates req provides_of =
     sort (map fst (filter (\<lambda>(_, caps). \<exists>c \<in> set caps. cap_satisfies c req) provides_of))"

definition req_targets :: "(string, string list) hmap \<Rightarrow> requirement \<Rightarrow> string list" where
  "req_targets provides_of r =
     (case rq_provider r of Some p \<Rightarrow> [p] | None \<Rightarrow> provider_candidates r provides_of)"

definition graph_edges :: "(string, requirement list) hmap \<Rightarrow> (string, string list) hmap \<Rightarrow> edges" where
  "graph_edges requires_of provides_of =
     (let edges = fold (\<lambda>(consumer, reqs) e.
            hm_insert consumer (sort_dedup (concat (map (req_targets provides_of) reqs))) e) requires_of []
      in fold (\<lambda>logical e. if hm_contains e logical then e else hm_insert logical [] e) (hm_keys provides_of) edges)"

text \<open>
  The search. Colours: absent or zero is white, one grey, two black. \<open>Inl\<close> is the cycle that
  was found, \<open>Inr\<close> the colours and the stack to go on with.
\<close>

type_synonym dfs_state = "(string, nat) hmap \<times> string list"

definition color_of :: "(string, nat) hmap \<Rightarrow> string \<Rightarrow> nat" where
  "color_of color n = opt_or (hm_get color n) 0"

text \<open>The part of the stack from the first occurrence of the node on.\<close>

fun from_position :: "string \<Rightarrow> string list \<Rightarrow> string list" where
  "from_position x [] = []"
| "from_position x (y # ys) = (if y = x then y # ys else from_position x ys)"

fun dfs_nexts ::
  "(string \<Rightarrow> dfs_state \<Rightarrow> (string list + dfs_state) option) \<Rightarrow> string list \<Rightarrow> dfs_state \<Rightarrow>
     (string list + dfs_state) option" where
  "dfs_nexts rec [] s = Some (Inr s)"
| "dfs_nexts rec (nx # nexts) s =
     (let c = color_of (fst s) nx in
      if c = 1 then Some (Inl (from_position nx (snd s) @ [nx]))
      else if c = 0 then
        (case rec nx s of
           None \<Rightarrow> None
         | Some (Inl cyc) \<Rightarrow> Some (Inl cyc)
         | Some (Inr s') \<Rightarrow> dfs_nexts rec nexts s')
      else dfs_nexts rec nexts s)"

fun dfs :: "nat \<Rightarrow> edges \<Rightarrow> string \<Rightarrow> dfs_state \<Rightarrow> (string list + dfs_state) option" where
  "dfs 0 edges node s = None"
| "dfs (Suc depth) edges node s =
     (let s1 = (hm_insert node 1 (fst s), snd s @ [node]) in
      case dfs_nexts (dfs depth edges) (opt_or (hm_get edges node) []) s1 of
        None \<Rightarrow> None
      | Some (Inl cyc) \<Rightarrow> Some (Inl cyc)
      | Some (Inr s2) \<Rightarrow> Some (Inr (hm_insert node 2 (fst s2), butlast (snd s2))))"

fun find_cycle_from :: "nat \<Rightarrow> edges \<Rightarrow> string list \<Rightarrow> dfs_state \<Rightarrow> string list option option" where
  "find_cycle_from depth edges [] s = Some None"
| "find_cycle_from depth edges (n # nodes) s =
     (if color_of (fst s) n = 0 then
        (case dfs depth edges n s of
           None \<Rightarrow> None
         | Some (Inl cyc) \<Rightarrow> Some (Some cyc)
         | Some (Inr s') \<Rightarrow> find_cycle_from depth edges nodes s')
      else find_cycle_from depth edges nodes s)"

definition graph_nodes :: "edges \<Rightarrow> string list" where
  "graph_nodes edges = remdups (hm_keys edges @ concat (hm_values edges))"

definition find_cycle_fuel :: "edges \<Rightarrow> string list option option" where
  "find_cycle_fuel edges = find_cycle_from (Suc (length (graph_nodes edges))) edges (sort (hm_keys edges)) ([], [])"

definition find_cycle :: "edges \<Rightarrow> string list option" where
  "find_cycle edges = (case find_cycle_fuel edges of Some r \<Rightarrow> r | None \<Rightarrow> None)"

text \<open>Kahn's algorithm.\<close>

definition count_edge :: "string \<Rightarrow> string \<Rightarrow> (string, nat) hmap \<times> (string, string list) hmap \<Rightarrow>
    (string, nat) hmap \<times> (string, string list) hmap" where
  "count_edge c d st =
     (let indeg1 = hm_insert c (opt_or (hm_get (fst st) c) 0 + 1) (fst st);
          indeg2 = (if hm_contains indeg1 d then indeg1 else hm_insert d 0 indeg1)
      in (indeg2, hm_insert d (opt_or (hm_get (snd st) d) [] @ [c]) (snd st)))"

definition count_consumer :: "string \<times> string list \<Rightarrow> (string, nat) hmap \<times> (string, string list) hmap \<Rightarrow>
    (string, nat) hmap \<times> (string, string list) hmap" where
  "count_consumer p st =
     fold (count_edge (fst p)) (snd p)
       (if hm_contains (fst st) (fst p) then fst st else hm_insert (fst p) 0 (fst st), snd st)"

text \<open>The inner loop of one round; \<open>None\<close> would be a degree below zero.\<close>

fun relax :: "string list \<Rightarrow> (string, nat) hmap \<times> string list \<Rightarrow> ((string, nat) hmap \<times> string list) option" where
  "relax [] st = Some st"
| "relax (c # cs) (indeg, ready) =
     (case hm_get indeg c of
        None \<Rightarrow> relax cs (indeg, ready)
      | Some e \<Rightarrow> if e = 0 then None
                  else relax cs (hm_insert c (e - 1) indeg, if e - 1 = 0 then ready @ [c] else ready))"

lemma relax_measure:
  "relax cs (indeg, ready) = Some (indeg', ready') \<Longrightarrow>
     sum_list (hm_values indeg') + length ready' \<le> sum_list (hm_values indeg) + length ready"
proof (induction cs "(indeg, ready)" arbitrary: indeg ready rule: relax.induct)
  case (2 c cs indeg ready)
  show ?case
  proof (cases "hm_get indeg c")
    case (Some e)
    have "sum_list (hm_values (hm_insert c (e - 1) indeg)) + e = sum_list (hm_values indeg) + (e - 1)"
      using Some unfolding hm_insert_def by (induction indeg) (auto split: if_splits)
    then show ?thesis using 2 Some by (fastforce split: if_splits)
  qed (use 2 in auto)
qed simp

function topo_loop ::
  "(string, string list) hmap \<Rightarrow> (string, nat) hmap \<Rightarrow> string list \<Rightarrow> string list \<Rightarrow> string list option" where
  "topo_loop rev_edges indeg ready order =
     (if ready = [] then Some order
      else (let n = last ready in
            case relax (sort (opt_or (hm_get rev_edges n) [])) (indeg, butlast ready) of
              None \<Rightarrow> None
            | Some (indeg', ready') \<Rightarrow> topo_loop rev_edges indeg' (rev (sort ready')) (order @ [n])))"
  by pat_completeness auto
termination
proof (relation "measure (\<lambda>(r, indeg, ready, order). sum_list (hm_values indeg) + length ready)", goal_cases)
  case (2 rev_edges indeg ready order n p indeg' ready')
  have "length (butlast ready) < length ready" using 2(1) by simp
  moreover have "sum_list (hm_values indeg') + length ready' \<le> sum_list (hm_values indeg) + length (butlast ready)"
    using relax_measure [of "sort (opt_or (hm_get rev_edges n) [])" indeg "butlast ready" indeg' ready'] 2 by simp
  ultimately show ?case by (simp del: length_butlast)
qed simp

definition topo_order :: "edges \<Rightarrow> string list option option" where
  "topo_order edges =
     (case fold count_consumer edges ([], []) of (indeg, rev_edges) \<Rightarrow>
        map_option (\<lambda>order. if length order = length indeg then Some order else None)
          (topo_loop rev_edges indeg (rev (sort (map fst (filter (\<lambda>(_, d). d = 0) indeg)))) []))"

text \<open>Reversed reachability.\<close>

definition reverse_edges :: "edges \<Rightarrow> (string, string list) hmap" where
  "reverse_edges edges =
     fold (\<lambda>(c, deps) r. fold (\<lambda>d r. hm_insert d (opt_or (hm_get r d) [] @ [c]) r) deps r) edges []"

fun visit_consumers :: "string list \<Rightarrow> string set \<times> string list \<times> string list \<Rightarrow> string set \<times> string list \<times> string list" where
  "visit_consumers [] st = st"
| "visit_consumers (c # cs) (seen, out, stack) =
     (if c \<in> seen then visit_consumers cs (seen, out, stack)
      else visit_consumers cs (insert c seen, out @ [c], stack @ [c]))"

lemma visit_consumers_new:
  "\<exists>new. visit_consumers cs (seen, out, stack) = (seen \<union> set new, out @ new, stack @ new) \<and>
     set new = set cs - seen \<and> distinct new"
proof (induction cs "(seen, out, stack)" arbitrary: seen out stack rule: visit_consumers.induct)
  case (2 c cs seen out stack)
  show ?case
  proof (cases "c \<in> seen")
    case True
    then show ?thesis using 2(1) by auto
  next
    case False
    then obtain new where new: "visit_consumers cs (insert c seen, out @ [c], stack @ [c]) =
        (insert c seen \<union> set new, (out @ [c]) @ new, (stack @ [c]) @ new)"
      "set new = set cs - insert c seen" "distinct new"
      using 2(2) by blast
    then show ?thesis using False by (intro exI [of _ "c # new"]) auto
  qed
qed simp

function consumers_loop ::
  "(string, string list) hmap \<Rightarrow> string set \<Rightarrow> string list \<Rightarrow> string list \<Rightarrow> string list" where
  "consumers_loop rev_edges seen out stack =
     (if stack = [] then out
      else (case visit_consumers (sort (opt_or (hm_get rev_edges (last stack)) [])) (seen, out, butlast stack) of
              (seen', out', stack') \<Rightarrow> consumers_loop rev_edges seen' out' stack'))"
  by pat_completeness auto
termination
proof (relation "inv_image (finite_psubset <*lex*> less_than)
    (\<lambda>(r, seen, out, stack). (\<Union> (set ` set (hm_values r)) - seen, length stack))", goal_cases)
  case 1
  show ?case by auto
next
  case (2 rev_edges seen out stack seen' p out' stack')
  obtain new where new: "seen' = seen \<union> set new" "stack' = butlast stack @ new"
    "set new = set (opt_or (hm_get rev_edges (last stack)) []) - seen"
    using visit_consumers_new [of "sort (opt_or (hm_get rev_edges (last stack)) [])" seen out "butlast stack"] 2
    by fastforce
  show ?case
  proof (cases "new = []")
    case True
    then show ?thesis using 2(1) new(1,2) by simp
  next
    case False
    then obtain v where "hm_get rev_edges (last stack) = Some v" using new(3)
      by (cases "hm_get rev_edges (last stack)") auto
    then have "set (opt_or (hm_get rev_edges (last stack)) []) \<subseteq> \<Union> (set ` set (hm_values rev_edges))"
      using hm_value_in by fastforce
    then have "\<Union> (set ` set (hm_values rev_edges)) - seen' \<subset> \<Union> (set ` set (hm_values rev_edges)) - seen"
      using False new(1,3) by (cases new) auto
    then show ?thesis by (simp add: finite_psubset_def)
  qed
qed

definition transitive_consumers :: "string \<Rightarrow> edges \<Rightarrow> string list" where
  "transitive_consumers target edges = sort (consumers_loop (reverse_edges edges) {target} [] [target])"

declare topo_loop.simps [simp del] consumers_loop.simps [simp del]

subsection \<open>Capabilities\<close>

lemma digit_solid: "is_ascii_digit c \<Longrightarrow> solid c"
  by (auto simp: solid_def utf8_ws_def is_ascii_digit_def)

lemma at_not_digit: "CHR ''@'' \<notin> set (show_nat n)"
proof
  assume "CHR ''@'' \<in> set (show_nat n)"
  then have "is_ascii_digit CHR ''@''" using show_nat_digits [of n] by blast
  then show False by (simp add: is_ascii_digit_def)
qed

lemma trim_norm_cap:
  assumes "b \<noteq> []" "solid (hd b)"
  shows "trim (b @ ''@'' @ show_nat m) = b @ ''@'' @ show_nat m"
proof -
  obtain ds d where d: "show_nat m = ds @ [d]" using show_nat_nonempty [of m] by (cases "show_nat m" rule: rev_cases) auto
  then have "solid d" using show_nat_digits [of m] digit_solid by simp
  obtain c cs where c: "b = c # cs" using assms(1) by (cases b) auto
  have "trim_start (b @ ''@'' @ show_nat m) = b @ ''@'' @ show_nat m"
    using trim_start_solid assms(2) c by simp
  moreover have "trim_end (b @ ''@'' @ show_nat m) = b @ ''@'' @ show_nat m"
    using trim_end_solid [OF \<open>solid d\<close>, of "b @ ''@'' @ ds"] d by simp
  ultimately show ?thesis by (simp add: trim_def)
qed

lemma split_norm_cap:
  assumes "b \<noteq> []" "solid (hd b)" "m < 2 ^ 64"
  shows "split_cap (norm_cap b (Some m)) = (b, Some m)"
proof -
  have "rfind CHR ''@'' (b @ ''@'' @ show_nat m) = Some (length b)"
    using rfind_append [OF at_not_digit, of b m] by simp
  then show ?thesis
    using trim_norm_cap [OF assms(1,2), of m] parse_u64_show [OF assms(3)]
    by (simp add: split_cap_def norm_cap_def Let_def)
qed

end
