(* ===== verification/Mx_Graph.thy ===== *)
theory Mx_Graph
  imports Mx_Deps
begin

text \<open>
  Correctness of the graph algorithms of \<open>deps.rs\<close>: the graph that is built, the search for a
  cycle (sound and complete), Kahn's order (a permutation of the nodes with providers first,
  absent exactly on a cycle) and the transitive consumers (reachability).
\<close>

definition edge_rel :: "edges \<Rightarrow> (string \<times> string) set" where
  "edge_rel edges = {(c, d). \<exists>ds. hm_get edges c = Some ds \<and> d \<in> set ds}"

definition is_cycle :: "(string \<times> string) set \<Rightarrow> string list \<Rightarrow> bool" where
  "is_cycle E p \<longleftrightarrow> 2 \<le> length p \<and> hd p = last p \<and> successively (\<lambda>a b. (a, b) \<in> E) p"

lemma edge_rel_nexts: "(c, d) \<in> edge_rel edges \<longleftrightarrow> d \<in> set (opt_or (hm_get edges c) [])"
  by (cases "hm_get edges c") (auto simp: edge_rel_def)

lemma edge_rel_nodes:
  "(c, d) \<in> edge_rel edges \<Longrightarrow> c \<in> set (graph_nodes edges) \<and> d \<in> set (graph_nodes edges)"
  unfolding edge_rel_def graph_nodes_def using hm_get_in_keys [of edges c] hm_value_in [of edges c] by fastforce

lemma successively_trancl:
  "successively (\<lambda>a b. (a, b) \<in> E) p \<Longrightarrow> 2 \<le> length p \<Longrightarrow> (hd p, last p) \<in> E\<^sup>+"
proof (induction p rule: induct_list012)
  case (3 x y zs)
  show ?case
  proof (cases zs)
    case Nil
    then show ?thesis using 3 by auto
  next
    case (Cons z ws)
    then have "(hd (y # zs), last (y # zs)) \<in> E\<^sup>+" using 3 by simp
    moreover have "(x, y) \<in> E" using 3 by simp
    ultimately have "(x, last (y # zs)) \<in> E\<^sup>+" by (metis list.sel(1) trancl_into_trancl2)
    then show ?thesis by simp
  qed
qed auto

lemma is_cycle_trancl: "is_cycle E p \<Longrightarrow> (hd p, hd p) \<in> E\<^sup>+"
  using successively_trancl [of E p] by (auto simp: is_cycle_def)

subsection \<open>The graph that is built\<close>

lemma hm_get_fold_insert:
  "hm_wf xs \<Longrightarrow> hm_get (fold (\<lambda>(k, v) m. hm_insert k (f v) m) xs m0) k =
     (case hm_get xs k of Some v \<Rightarrow> Some (f v) | None \<Rightarrow> hm_get m0 k)"
proof (induction xs arbitrary: m0)
  case (Cons p xs)
  then show ?case by (cases p) (auto split: option.splits simp: hm_absent_keys)
qed simp

lemma hm_wf_fold_insert:
  "hm_wf m0 \<Longrightarrow> hm_wf (fold (\<lambda>(k, v) m. hm_insert k (f v) m) xs m0)"
  by (induction xs arbitrary: m0) auto

lemma hm_get_fold_default:
  "hm_get (fold (\<lambda>k m. if hm_contains m k then m else hm_insert k v m) ks m0) k =
     (case hm_get m0 k of Some w \<Rightarrow> Some w | None \<Rightarrow> if k \<in> set ks then Some v else None)"
  by (induction ks arbitrary: m0) (auto simp: hm_contains_def split: option.splits)

lemma hm_wf_fold_default:
  "hm_wf m0 \<Longrightarrow> hm_wf (fold (\<lambda>k m. if hm_contains m k then m else hm_insert k v m) ks m0)"
  by (induction ks arbitrary: m0) auto

lemma graph_edges_get:
  assumes "hm_wf R"
  shows "hm_get (graph_edges R P) c =
    (case hm_get R c of
       Some reqs \<Rightarrow> Some (sort_dedup (concat (map (req_targets P) reqs)))
     | None \<Rightarrow> if c \<in> set (hm_keys P) then Some [] else None)"
  using assms
  by (simp add: graph_edges_def Let_def hm_get_fold_default hm_get_fold_insert split: option.splits)

lemma graph_edges_wf: "hm_wf (graph_edges R P)"
  by (simp add: graph_edges_def Let_def hm_wf_fold_default hm_wf_fold_insert)

lemma graph_edges_distinct:
  "hm_wf R \<Longrightarrow> hm_get (graph_edges R P) c = Some ds \<Longrightarrow> distinct ds"
  by (auto simp: graph_edges_get split: option.splits if_splits)

subsection \<open>Depth-first search\<close>

definition dfs_inv :: "(string \<times> string) set \<Rightarrow> dfs_state \<Rightarrow> bool" where
  "dfs_inv E s \<longleftrightarrow>
     (\<forall>n. color_of (fst s) n = 1 \<longleftrightarrow> n \<in> set (snd s)) \<and> (\<forall>n. color_of (fst s) n \<le> 2) \<and>
     distinct (snd s) \<and> successively (\<lambda>a b. (a, b) \<in> E) (snd s) \<and>
     (\<forall>n m. color_of (fst s) n = 2 \<longrightarrow> (n, m) \<in> E \<longrightarrow> color_of (fst s) m = 2) \<and>
     (\<forall>n. color_of (fst s) n = 2 \<longrightarrow> (n, n) \<notin> E\<^sup>+)"

definition white :: "string set \<Rightarrow> dfs_state \<Rightarrow> string set" where
  "white U s = {n \<in> U. color_of (fst s) n = 0}"

text \<open>What a search that does not run out of depth delivers.\<close>

definition dfs_good ::
  "(string \<times> string) set \<Rightarrow> string set \<Rightarrow> string set \<Rightarrow> dfs_state \<Rightarrow> (string list + dfs_state) option \<Rightarrow> bool" where
  "dfs_good E U done s r \<longleftrightarrow>
     (case r of
        None \<Rightarrow> False
      | Some (Inl cyc) \<Rightarrow> is_cycle E cyc
      | Some (Inr s') \<Rightarrow> dfs_inv E s' \<and> snd s' = snd s \<and> white U s' \<subseteq> white U s \<and>
          (\<forall>n. color_of (fst s) n = 2 \<longrightarrow> color_of (fst s') n = 2) \<and> (\<forall>n \<in> done. color_of (fst s') n = 2))"

lemma color_of_insert [simp]: "color_of (hm_insert n c col) m = (if m = n then c else color_of col m)"
  by (simp add: color_of_def)

lemma from_position_split:
  "x \<in> set st \<Longrightarrow> \<exists>pre suf. st = pre @ suf \<and> from_position x st = suf \<and> suf \<noteq> [] \<and> hd suf = x"
proof (induction st)
  case (Cons y ys)
  show ?case
  proof (cases "y = x")
    case False
    then obtain pre suf where "ys = pre @ suf" "from_position x ys = suf" "suf \<noteq> []" "hd suf = x"
      using Cons by auto
    then show ?thesis using False by (intro exI [of _ "y # pre"] exI [of _ suf]) auto
  next
    case True
    then show ?thesis by (intro exI [of _ "[]"] exI [of _ "y # ys"]) auto
  qed
qed simp

lemma grey_cycle:
  assumes inv: "dfs_inv E s" and nx: "color_of (fst s) nx = 1" and edge: "(last (snd s), nx) \<in> E"
  shows "is_cycle E (from_position nx (snd s) @ [nx])"
proof -
  have "nx \<in> set (snd s)" using inv nx by (simp add: dfs_inv_def)
  then obtain pre suf where suf: "snd s = pre @ suf" "from_position nx (snd s) = suf" "suf \<noteq> []" "hd suf = nx"
    using from_position_split by blast
  have "successively (\<lambda>a b. (a, b) \<in> E) suf" "last suf = last (snd s)"
    using inv suf by (auto simp: dfs_inv_def successively_append_iff)
  then have "successively (\<lambda>a b. (a, b) \<in> E) (suf @ [nx])"
    using edge suf by (simp add: successively_append_iff)
  then show ?thesis using suf by (cases suf) (auto simp: is_cycle_def)
qed

lemma dfs_nexts_good:
  assumes "\<And>n s'. dfs_inv E s' \<Longrightarrow> color_of (fst s') n = 0 \<Longrightarrow> n \<in> set nexts \<Longrightarrow>
      snd s' = snd s \<Longrightarrow> white U s' \<subseteq> white U s \<Longrightarrow> dfs_good E U {n} s' (rec n s')"
    and "dfs_inv E s" and "\<And>n. n \<in> set nexts \<Longrightarrow> (last (snd s), n) \<in> E"
  shows "dfs_good E U (set nexts) s (dfs_nexts rec nexts s)"
  using assms
proof (induction nexts arbitrary: s)
  case Nil
  then show ?case by (simp add: dfs_good_def)
next
  case (Cons nx nexts)
  let ?c = "color_of (fst s) nx"
  consider "?c = 0" | "?c = 1" | "?c = 2"
    using Cons.prems(2) unfolding dfs_inv_def by (metis One_nat_def Suc_1 le_SucE le_zero_eq)
  then show ?case
  proof cases
    case 1
    then have good: "dfs_good E U {nx} s (rec nx s)" using Cons.prems by simp
    show ?thesis
    proof (cases "rec nx s")
      case None
      then show ?thesis using good by (simp add: dfs_good_def)
    next
      case (Some r)
      show ?thesis
      proof (cases r)
        case (Inl cyc)
        then show ?thesis using good Some 1 by (simp add: dfs_good_def)
      next
        case (Inr s')
        have s': "dfs_inv E s'" "snd s' = snd s" "white U s' \<subseteq> white U s" "color_of (fst s') nx = 2"
          "\<forall>n. color_of (fst s) n = 2 \<longrightarrow> color_of (fst s') n = 2"
          using good Some Inr by (simp_all add: dfs_good_def)
        have "dfs_good E U (set nexts) s' (dfs_nexts rec nexts s')"
          using Cons.prems(1,3) s' by (intro Cons.IH) auto
        then show ?thesis using Some Inr 1 s'
          by (auto simp: dfs_good_def split: option.splits sum.splits)
      qed
    qed
  next
    case 2
    then show ?thesis using grey_cycle [OF Cons.prems(2) 2] Cons.prems(3) by (simp add: dfs_good_def)
  next
    case 3
    have "dfs_good E U (set nexts) s (dfs_nexts rec nexts s)"
      using Cons.prems by (intro Cons.IH) auto
    then show ?thesis using 3 by (auto simp: dfs_good_def split: option.splits sum.splits)
  qed
qed

lemma black_closed:
  assumes "dfs_inv E s" "color_of (fst s) n = 2" "(n, m) \<in> E\<^sup>*"
  shows "color_of (fst s) m = 2"
  using assms(3) by induction (use assms(1,2) in \<open>auto simp: dfs_inv_def\<close>)

lemma dfs_enter:
  assumes "dfs_inv E s" "color_of (fst s) n = 0" "snd s \<noteq> [] \<Longrightarrow> (last (snd s), n) \<in> E"
  shows "dfs_inv E (hm_insert n 1 (fst s), snd s @ [n])"
proof -
  have "n \<notin> set (snd s)" using assms(1,2) unfolding dfs_inv_def by (metis zero_neq_one)
  moreover have "color_of (fst s) m \<noteq> 2" if "(m, n) \<in> E" for m
    using assms(1,2) that unfolding dfs_inv_def by (metis zero_neq_numeral)
  ultimately show ?thesis
    using assms by (auto simp: dfs_inv_def successively_append_iff)
qed

lemma dfs_leave:
  assumes inv: "dfs_inv E s" and st: "snd s = st @ [n]" and "\<And>m. (n, m) \<in> E \<Longrightarrow> color_of (fst s) m = 2"
  shows "dfs_inv E (hm_insert n 2 (fst s), st)"
proof -
  have n: "color_of (fst s) n = 1" "n \<notin> set st" "distinct st" using inv st by (auto simp: dfs_inv_def)
  have "(n, n) \<notin> E\<^sup>+"
  proof
    assume "(n, n) \<in> E\<^sup>+"
    then obtain m where m: "(n, m) \<in> E" "(m, n) \<in> E\<^sup>*" by (meson tranclD)
    then show False using black_closed [OF inv assms(3) [OF m(1)] m(2)] n by simp
  qed
  then show ?thesis
    using inv st n assms(3) by (auto simp: dfs_inv_def successively_append_iff)
qed

lemma dfs_correct:
  assumes E: "E = edge_rel edges" and U: "U = set (graph_nodes edges)"
    and "dfs_inv E s" "color_of (fst s) n = 0" "n \<in> U" "snd s \<noteq> [] \<Longrightarrow> (last (snd s), n) \<in> E"
    and "card (white U s) \<le> depth"
  shows "dfs_good E U {n} s (dfs depth edges n s)"
  using assms(3-)
proof (induction depth arbitrary: n s)
  case 0
  have "finite (white U s)" using U by (simp add: white_def)
  then show ?case using 0 by (auto simp: white_def)
next
  case (Suc depth)
  let ?s1 = "(hm_insert n 1 (fst s), snd s @ [n])"
  have fin: "finite (white U s)" using U by (simp add: white_def)
  have inv1: "dfs_inv E ?s1" using dfs_enter Suc.prems by blast
  have w1: "white U ?s1 = white U s - {n}" by (auto simp: white_def)
  have c1: "card (white U ?s1) \<le> depth"
    using Suc.prems(2,3,5) fin w1 by (simp add: white_def)
  have nexts: "(n, m) \<in> E \<longleftrightarrow> m \<in> set (opt_or (hm_get edges n) [])" for m
    by (simp add: E edge_rel_nexts)
  have good: "dfs_good E U (set (opt_or (hm_get edges n) [])) ?s1 (dfs_nexts (dfs depth edges) (opt_or (hm_get edges n) []) ?s1)"
  proof (rule dfs_nexts_good [OF _ inv1])
    fix m s'
    assume m: "dfs_inv E s'" "color_of (fst s') m = 0" "m \<in> set (opt_or (hm_get edges n) [])"
      "snd s' = snd ?s1" "white U s' \<subseteq> white U ?s1"
    have "card (white U s') \<le> depth"
      using card_mono [OF _ m(5)] fin w1 c1 by simp
    moreover have "m \<in> U" using m(3) nexts edge_rel_nodes E U by blast
    ultimately show "dfs_good E U {m} s' (dfs depth edges m s')"
      using m nexts by (intro Suc.IH) auto
  qed (use nexts in auto)
  show ?case
  proof (cases "dfs_nexts (dfs depth edges) (opt_or (hm_get edges n) []) ?s1")
    case None
    then show ?thesis using good by (simp add: dfs_good_def)
  next
    case (Some r)
    show ?thesis
    proof (cases r)
      case (Inl cyc)
      then show ?thesis using good Some by (simp add: dfs_good_def)
    next
      case (Inr s2)
      have s2: "dfs_inv E s2" "snd s2 = snd s @ [n]" "white U s2 \<subseteq> white U s - {n}"
        "\<forall>m. color_of (hm_insert n 1 (fst s)) m = 2 \<longrightarrow> color_of (fst s2) m = 2"
        "\<forall>m \<in> set (opt_or (hm_get edges n) []). color_of (fst s2) m = 2"
        using good Some Inr w1 by (simp_all add: dfs_good_def)
      have "dfs_inv E (hm_insert n 2 (fst s2), snd s)"
        using dfs_leave [OF s2(1,2)] s2(5) nexts by blast
      moreover have "white U (hm_insert n 2 (fst s2), snd s) \<subseteq> white U s"
        using s2(3) by (auto simp: white_def split: if_splits)
      ultimately show ?thesis
        using Some Inr s2(2,4) Suc.prems(2) by (auto simp: dfs_good_def split: if_splits)
    qed
  qed
qed

lemma find_cycle_from_correct:
  assumes E: "E = edge_rel edges" and U: "U = set (graph_nodes edges)"
    and "dfs_inv E s" "snd s = []" "set nodes \<subseteq> U" "card (white U s) \<le> depth"
  shows "case find_cycle_from depth edges nodes s of
      None \<Rightarrow> False
    | Some (Some cyc) \<Rightarrow> is_cycle E cyc
    | Some None \<Rightarrow> \<forall>n. n \<in> set nodes \<or> color_of (fst s) n = 2 \<longrightarrow> (n, n) \<notin> E\<^sup>+"
  using assms(3-)
proof (induction nodes arbitrary: s)
  case Nil
  then show ?case by (simp add: dfs_inv_def)
next
  case (Cons n nodes)
  show ?case
  proof (cases "color_of (fst s) n = 0")
    case False
    then have "color_of (fst s) n = 2"
      using Cons.prems(1,2) unfolding dfs_inv_def
      by (metis One_nat_def Suc_1 empty_iff le_SucE le_zero_eq list.set(1))
    then show ?thesis
      using False Cons.IH [OF Cons.prems(1,2) _ Cons.prems(4)] Cons.prems(3) by (auto split: option.splits)
  next
    case True
    have good: "dfs_good E U {n} s (dfs depth edges n s)"
      using dfs_correct [OF E U Cons.prems(1) True] Cons.prems by simp
    have fin: "finite (white U s)" using U by (simp add: white_def)
    show ?thesis
    proof (cases "dfs depth edges n s")
      case None
      then show ?thesis using good by (simp add: dfs_good_def)
    next
      case (Some r)
      show ?thesis
      proof (cases r)
        case (Inl cyc)
        then show ?thesis using good Some True by (simp add: dfs_good_def)
      next
        case (Inr s')
        have s': "dfs_inv E s'" "snd s' = []" "white U s' \<subseteq> white U s" "color_of (fst s') n = 2"
          "\<forall>m. color_of (fst s) m = 2 \<longrightarrow> color_of (fst s') m = 2"
          using good Some Inr Cons.prems(2) by (simp_all add: dfs_good_def)
        have "card (white U s') \<le> depth" using card_mono [OF fin s'(3)] Cons.prems(4) by simp
        then show ?thesis
          using Cons.IH [OF s'(1,2)] Cons.prems(3) Some Inr True s'(4,5) by (auto split: option.splits)
      qed
    qed
  qed
qed

lemma dfs_inv_start: "dfs_inv E ([], [])"
  by (simp add: dfs_inv_def color_of_def)

lemma keys_nodes: "set (sort (hm_keys edges)) \<subseteq> set (graph_nodes edges)"
  by (auto simp: graph_nodes_def)

lemma find_cycle_fuel_correct:
  "case find_cycle_fuel edges of
     None \<Rightarrow> False
   | Some (Some cyc) \<Rightarrow> is_cycle (edge_rel edges) cyc
   | Some None \<Rightarrow> acyclic (edge_rel edges)"
proof -
  let ?U = "set (graph_nodes edges)"
  have "white ?U ([], []) \<subseteq> ?U" by (auto simp: white_def)
  then have "card (white ?U ([], [])) \<le> card ?U" by (rule card_mono [rotated]) simp
  also have "card ?U \<le> length (graph_nodes edges)" by (rule card_length)
  finally have "card (white ?U ([], [])) \<le> Suc (length (graph_nodes edges))" by simp
  then have res: "case find_cycle_fuel edges of
      None \<Rightarrow> False
    | Some (Some cyc) \<Rightarrow> is_cycle (edge_rel edges) cyc
    | Some None \<Rightarrow> \<forall>n. n \<in> set (sort (hm_keys edges)) \<or> color_of [] n = 2 \<longrightarrow> (n, n) \<notin> (edge_rel edges)\<^sup>+"
    using find_cycle_from_correct [OF refl refl dfs_inv_start snd_conv, of "sort (hm_keys edges)" edges
        "Suc (length (graph_nodes edges))"] keys_nodes [of edges]
    unfolding find_cycle_fuel_def fst_conv by blast
  have dom: "x \<in> set (sort (hm_keys edges))" if "(x, x) \<in> (edge_rel edges)\<^sup>+" for x
    using tranclD [OF that] hm_get_in_keys [of edges x] by (auto simp: edge_rel_def)
  have "acyclic (edge_rel edges)"
    if "\<forall>n. n \<in> set (sort (hm_keys edges)) \<or> color_of [] n = 2 \<longrightarrow> (n, n) \<notin> (edge_rel edges)\<^sup>+"
    unfolding acyclic_def using that dom by blast
  then show ?thesis using res by (cases "find_cycle_fuel edges" rule: option.exhaust) (auto split: option.splits)
qed

lemma find_cycle_sound: "find_cycle edges = Some cyc \<Longrightarrow> is_cycle (edge_rel edges) cyc"
  using find_cycle_fuel_correct [of edges] by (auto simp: find_cycle_def split: option.splits)

lemma find_cycle_complete: "find_cycle edges = None \<longleftrightarrow> acyclic (edge_rel edges)"
proof
  show "find_cycle edges = None \<Longrightarrow> acyclic (edge_rel edges)"
    using find_cycle_fuel_correct [of edges] by (auto simp: find_cycle_def split: option.splits)
  show "find_cycle edges = None" if ac: "acyclic (edge_rel edges)"
  proof (cases "find_cycle edges")
    case (Some cyc)
    then show ?thesis using is_cycle_trancl [OF find_cycle_sound [OF Some]] ac by (simp add: acyclic_def)
  qed simp
qed

subsection \<open>Kahn's algorithm\<close>

text \<open>
  The in-degree of a consumer counts its providers, and the reversed lists hold every
  consumer once per provider, when the provider lists have no repetitions.
\<close>

definition deps_of :: "edges \<Rightarrow> string \<Rightarrow> string list" where
  "deps_of edges c = opt_or (hm_get edges c) []"

definition edges_ok :: "edges \<Rightarrow> bool" where
  "edges_ok edges \<longleftrightarrow> hm_wf edges \<and> (\<forall>c. distinct (deps_of edges c))"

lemma edges_ok_graph: "hm_wf R \<Longrightarrow> edges_ok (graph_edges R P)"
  using graph_edges_distinct [of R P]
  by (auto simp: edges_ok_def graph_edges_wf deps_of_def opt_or_def split: option.splits)

lemma deps_of_edge: "d \<in> set (deps_of edges c) \<longleftrightarrow> (c, d) \<in> edge_rel edges"
  by (simp add: deps_of_def edge_rel_nexts)

definition degree :: "(string, nat) hmap \<Rightarrow> string \<Rightarrow> nat" where
  "degree indeg c = opt_or (hm_get indeg c) 0"

definition rev_of :: "(string, string list) hmap \<Rightarrow> string \<Rightarrow> string list" where
  "rev_of r d = opt_or (hm_get r d) []"

lemma count_edge_effect:
  "degree (fst (count_edge c d st)) x = degree (fst st) x + (if x = c then 1 else 0)"
  "rev_of (snd (count_edge c d st)) y = rev_of (snd st) y @ (if y = d then [c] else [])"
  "set (hm_keys (fst (count_edge c d st))) = set (hm_keys (fst st)) \<union> {c, d}"
  "hm_wf (fst st) \<Longrightarrow> hm_wf (fst (count_edge c d st))"
     apply (simp_all add: count_edge_def Let_def degree_def rev_of_def)
  by (auto simp: hm_contains_def) (auto simp: hm_contains_keys [symmetric] hm_contains_def)

lemma count_edges_effect:
  "degree (fst (fold (count_edge c) ds st)) x = degree (fst st) x + (if x = c then length ds else 0)"
  "rev_of (snd (fold (count_edge c) ds st)) y = rev_of (snd st) y @ replicate (count_list ds y) c"
  "set (hm_keys (fst (fold (count_edge c) ds st))) = set (hm_keys (fst st)) \<union> (if ds = [] then {} else {c}) \<union> set ds"
  "hm_wf (fst st) \<Longrightarrow> hm_wf (fst (fold (count_edge c) ds st))"
proof (induction ds arbitrary: st)
  case (Cons d ds)
  {
    case 2
    then show ?case by (simp add: Cons.IH(2) count_edge_effect replicate_app_Cons_same)
  next
    case 3
    then show ?case by (simp add: Cons.IH(3) count_edge_effect del: set_map) auto
  }
qed (simp_all add: count_edge_effect)

lemma or_insert_effect:
  "degree (if hm_contains m c then m else hm_insert c 0 m) x = degree m x"
  "fst ` set (if hm_contains m c then m else hm_insert c 0 m) = insert c (fst ` set m)"
  "hm_wf m \<Longrightarrow> hm_wf (if hm_contains m c then m else hm_insert c 0 m)"
  by (auto simp: degree_def hm_contains_keys insert_absorb) (auto simp: hm_contains_keys [symmetric] hm_contains_def)

lemma count_consumer_effect:
  "degree (fst (count_consumer p st)) x = degree (fst st) x + (if x = fst p then length (snd p) else 0)"
  "rev_of (snd (count_consumer p st)) y = rev_of (snd st) y @ replicate (count_list (snd p) y) (fst p)"
  "set (hm_keys (fst (count_consumer p st))) = set (hm_keys (fst st)) \<union> {fst p} \<union> set (snd p)"
  "hm_wf (fst st) \<Longrightarrow> hm_wf (fst (count_consumer p st))"
  unfolding count_consumer_def count_edges_effect fst_conv snd_conv
  by (auto simp: or_insert_effect intro!: count_edges_effect(4))

lemma count_all_effect:
  "hm_wf es \<Longrightarrow> degree (fst (fold count_consumer es st)) x = degree (fst st) x + length (deps_of es x)"
  "rev_of (snd (fold count_consumer es st)) y =
     rev_of (snd st) y @ concat (map (\<lambda>p. replicate (count_list (snd p) y) (fst p)) es)"
  "set (hm_keys (fst (fold count_consumer es st))) = set (hm_keys (fst st)) \<union> set (graph_nodes es)"
  "hm_wf (fst st) \<Longrightarrow> hm_wf (fst (fold count_consumer es st))"
proof (induction es arbitrary: st)
  case (Cons p es)
  {
    case 1
    then show ?case
      by (cases p) (auto simp: Cons.IH(1) count_consumer_effect deps_of_def hm_absent_keys)
  next
    case 2
    then show ?case by (simp add: Cons.IH(2) count_consumer_effect)
  next
    case 3
    then show ?case by (simp add: Cons.IH(3) count_consumer_effect del: set_map) (auto simp: graph_nodes_def)
  next
    case 4
    then show ?case by (simp add: Cons.IH(4) count_consumer_effect)
  }
qed (simp_all add: deps_of_def graph_nodes_def)

lemma distinct_count_list: "distinct xs \<Longrightarrow> count_list xs y = (if y \<in> set xs then 1 else 0)"
  by (induction xs) auto

lemma rev_lists_ok:
  assumes "edges_ok es"
  shows "distinct (concat (map (\<lambda>p. replicate (count_list (snd p) y) (fst p)) es))"
    and "x \<in> set (concat (map (\<lambda>p. replicate (count_list (snd p) y) (fst p)) es)) \<longleftrightarrow> (x, y) \<in> edge_rel es"
proof -
  have wf: "hm_wf es" and ds: "\<And>p. p \<in> set es \<Longrightarrow> distinct (snd p)"
    using assms by (auto simp: edges_ok_def deps_of_def map_of_eq_Some_iff dest: spec)
      (metis map_of_eq_Some_iff opt_or_simps(1))
  have rep: "replicate (count_list (snd p) y) (fst p) = (if y \<in> set (snd p) then [fst p] else [])" if "p \<in> set es" for p
    using ds [OF that] by (simp add: distinct_count_list)
  have eq: "concat (map (\<lambda>p. replicate (count_list (snd p) y) (fst p)) es) =
      map fst (filter (\<lambda>p. y \<in> set (snd p)) es)"
    using rep by (induction es) auto
  show "distinct (concat (map (\<lambda>p. replicate (count_list (snd p) y) (fst p)) es))"
    unfolding eq using wf by (simp add: distinct_map_filter)
  show "x \<in> set (concat (map (\<lambda>p. replicate (count_list (snd p) y) (fst p)) es)) \<longleftrightarrow> (x, y) \<in> edge_rel es"
    unfolding eq edge_rel_def using wf by (force simp: map_of_eq_Some_iff)
qed

lemma degree_insert [simp]: "degree (hm_insert c k indeg) x = (if x = c then k else degree indeg x)"
  by (simp add: degree_def)

lemma relax_effect:
  assumes "distinct cs" "\<And>c. c \<in> set cs \<Longrightarrow> c \<in> set (hm_keys indeg) \<and> 0 < degree indeg c" "hm_wf indeg"
  obtains indeg' where "relax cs (indeg, ready) = Some (indeg', ready @ filter (\<lambda>c. degree indeg c = 1) cs)"
    "\<And>x. degree indeg' x = degree indeg x - (if x \<in> set cs then 1 else 0)"
    "set (hm_keys indeg') = set (hm_keys indeg)" "hm_wf indeg'"
proof -
  have "\<exists>indeg'. relax cs (indeg, ready) = Some (indeg', ready @ filter (\<lambda>c. degree indeg c = 1) cs) \<and>
      (\<forall>x. degree indeg' x = degree indeg x - (if x \<in> set cs then 1 else 0)) \<and>
      set (hm_keys indeg') = set (hm_keys indeg) \<and> hm_wf indeg'"
    using assms
  proof (induction cs arbitrary: indeg ready)
    case (Cons c cs)
    have c: "c \<in> set (hm_keys indeg)" "0 < degree indeg c" using Cons.prems by auto
    then obtain e where e: "hm_get indeg c = Some e" unfolding hm_keys_get by blast
    then have de: "degree indeg c = e" by (simp add: degree_def)
    let ?i = "hm_insert c (e - 1) indeg" and ?r = "if e - 1 = 0 then ready @ [c] else ready"
    have keys: "set (hm_keys ?i) = set (hm_keys indeg)" using c(1) by auto
    have "\<exists>indeg'. relax cs (?i, ?r) = Some (indeg', ?r @ filter (\<lambda>c. degree ?i c = 1) cs) \<and>
      (\<forall>x. degree indeg' x = degree ?i x - (if x \<in> set cs then 1 else 0)) \<and>
      set (hm_keys indeg') = set (hm_keys ?i) \<and> hm_wf indeg'"
    proof (rule Cons.IH)
      show "x \<in> set (hm_keys ?i) \<and> 0 < degree ?i x" if "x \<in> set cs" for x
        using that Cons.prems(1,2) unfolding keys by auto
    qed (use Cons.prems in auto)
    moreover have "filter (\<lambda>c. degree ?i c = 1) cs = filter (\<lambda>c. degree indeg c = 1) cs"
      using Cons.prems(1) by (intro filter_cong) auto
    ultimately obtain indeg' where i': "relax cs (?i, ?r) = Some (indeg', ?r @ filter (\<lambda>c. degree indeg c = 1) cs)"
      "\<forall>x. degree indeg' x = degree ?i x - (if x \<in> set cs then 1 else 0)"
      "set (hm_keys indeg') = set (hm_keys indeg)" "hm_wf indeg'"
      unfolding keys by auto
    have "relax (c # cs) (indeg, ready) = Some (indeg', ready @ filter (\<lambda>c. degree indeg c = 1) (c # cs))"
      using i'(1) e de c(2) by auto
    moreover have "\<forall>x. degree indeg' x = degree indeg x - (if x \<in> set (c # cs) then 1 else 0)"
      using i'(2) de Cons.prems(1) by auto
    ultimately show ?case using i'(3,4) by blast
  qed auto
  then show ?thesis using that by blast
qed

definition kahn_inv ::
  "edges \<Rightarrow> string set \<Rightarrow> (string, nat) hmap \<Rightarrow> string list \<Rightarrow> string list \<Rightarrow> bool" where
  "kahn_inv edges N indeg ready order \<longleftrightarrow>
     hm_wf indeg \<and> set (hm_keys indeg) = N \<and> distinct order \<and> set order \<subseteq> N \<and> distinct ready \<and>
     set ready = {c \<in> N. c \<notin> set order \<and> degree indeg c = 0} \<and>
     (\<forall>c \<in> N. degree indeg c = length (filter (\<lambda>d. d \<notin> set order) (deps_of edges c))) \<and>
     (\<forall>i < length order. set (deps_of edges (order ! i)) \<subseteq> set (take i order))"

lemma length_filter_step:
  "distinct xs \<Longrightarrow> n \<notin> S \<Longrightarrow> length (filter (\<lambda>d. d \<notin> insert n S) xs) =
     length (filter (\<lambda>d. d \<notin> S) xs) - (if n \<in> set xs then 1 else 0)"
proof (induction xs)
  case (Cons x xs)
  show ?case
  proof (cases "x = n")
    case True
    then have "filter (\<lambda>d. d \<notin> insert n S) xs = filter (\<lambda>d. d \<notin> S) xs"
      using Cons.prems by (intro filter_cong) auto
    then show ?thesis using True Cons.prems by simp
  next
    case False
    have "0 < length (filter (\<lambda>d. d \<notin> S) xs)" if "n \<in> set xs"
      using that Cons.prems(2) by (auto simp: filter_empty_conv)
    then show ?thesis using False Cons by (auto simp: Suc_diff_le)
  qed
qed simp

lemma kahn_step:
  assumes ok: "edges_ok edges" and N: "N = set (graph_nodes edges)"
    and inv: "kahn_inv edges N indeg ready order" and ne: "ready \<noteq> []" and n: "n = last ready"
    and rv: "distinct (rev_of rv n)" "\<And>x. x \<in> set (rev_of rv n) \<longleftrightarrow> (x, n) \<in> edge_rel edges"
  obtains indeg' ready' where
    "relax (sort (rev_of rv n)) (indeg, butlast ready) = Some (indeg', ready')"
    "kahn_inv edges N indeg' (rev (sort ready')) (order @ [n])"
proof -
  have nr: "n \<in> set ready" using n ne by simp
  have nN: "n \<in> N" "n \<notin> set order" "degree indeg n = 0" using inv nr by (auto simp: kahn_inv_def)
  have deg: "degree indeg c = length (filter (\<lambda>d. d \<notin> set order) (deps_of edges c))" if "c \<in> N" for c
    using inv that by (simp add: kahn_inv_def)
  have pos: "c \<in> N \<and> 0 < degree indeg c" if "(c, n) \<in> edge_rel edges" for c
  proof -
    have "c \<in> N" using edge_rel_nodes [OF that] N by simp
    moreover have "n \<in> set (deps_of edges c)" using that by (simp add: deps_of_edge)
    ultimately show ?thesis using deg nN(2) by (auto simp: filter_empty_conv)
  qed
  have closed: "set (deps_of edges c) \<subseteq> set order" if "c \<in> set order" for c
  proof -
    obtain i where i: "i < length order" "order ! i = c" using \<open>c \<in> set order\<close> by (auto simp: in_set_conv_nth)
    have "set (deps_of edges (order ! i)) \<subseteq> set (take i order)" using inv i(1) by (simp add: kahn_inv_def)
    then show ?thesis using i(2) set_take_subset [of i order] by auto
  qed
  obtain bs where bs: "ready = bs @ [n]" using ne n by (metis append_butlast_last_id)
  then have rdy: "butlast ready = bs" "distinct bs" "n \<notin> set bs"
    "\<And>c. c \<in> set bs \<longleftrightarrow> c \<in> N \<and> c \<notin> set order \<and> c \<noteq> n \<and> degree indeg c = 0"
    using inv nN by (auto simp: kahn_inv_def)
  have keys: "set (hm_keys indeg) = N" and wf: "hm_wf indeg" using inv by (simp_all add: kahn_inv_def)
  have "c \<in> set (hm_keys indeg) \<and> 0 < degree indeg c" if "c \<in> set (sort (rev_of rv n))" for c
    unfolding keys using pos [of c] rv(2) [of c] that by simp
  moreover have "distinct (sort (rev_of rv n))" using rv(1) by simp
  ultimately obtain indeg' where "relax (sort (rev_of rv n)) (indeg, bs) =
      Some (indeg', bs @ filter (\<lambda>c. degree indeg c = 1) (sort (rev_of rv n)))"
    "\<And>x. degree indeg' x = degree indeg x - (if x \<in> set (sort (rev_of rv n)) then 1 else 0)"
    "set (hm_keys indeg') = set (hm_keys indeg)" "hm_wf indeg'"
    using relax_effect [OF _ _ wf, of "sort (rev_of rv n)" bs] by blast
  then have i': "relax (sort (rev_of rv n)) (indeg, butlast ready) =
      Some (indeg', bs @ filter (\<lambda>c. degree indeg c = 1) (sort (rev_of rv n)))"
    "\<And>x. degree indeg' x = degree indeg x - (if (x, n) \<in> edge_rel edges then 1 else 0)"
    "set (hm_keys indeg') = set (hm_keys indeg)" "hm_wf indeg'"
    using rdy(1) rv(2) by simp_all
  let ?ready' = "bs @ filter (\<lambda>c. degree indeg c = 1) (sort (rev_of rv n))"
  have deg': "degree indeg' c = length (filter (\<lambda>d. d \<notin> set (order @ [n])) (deps_of edges c))" if "c \<in> N" for c
    using length_filter_step [of "deps_of edges c" n "set order"] ok nN(2) deg [OF that] i'(2) [of c]
    by (simp add: edges_ok_def deps_of_edge)
  have mem: "c \<in> set ?ready' \<longleftrightarrow> c \<in> N \<and> c \<notin> set (order @ [n]) \<and> degree indeg' c = 0" for c
  proof (cases "(c, n) \<in> edge_rel edges")
    case True
    then have "c \<in> N" "0 < degree indeg c" "n \<in> set (deps_of edges c)" using pos by (auto simp: deps_of_edge)
    moreover from this have "c \<notin> set order" "c \<noteq> n" using closed [of c] nN by auto
    ultimately show ?thesis using True rdy(4) [of c] rv(2) [of c] i'(2) [of c] by auto
  next
    case False
    then show ?thesis using rdy(4) [of c] rv(2) [of c] i'(2) [of c] by auto
  qed
  have d0: "degree indeg c = 0" if "c \<in> set bs" for c using rdy(4) that by blast
  have dis: "distinct ?ready'" using rdy(2) rv(1) by (auto dest!: d0)
  have dn: "set (deps_of edges n) \<subseteq> set order" using deg [OF nN(1)] nN(3) by (auto simp: filter_empty_conv)
  have "kahn_inv edges N indeg' (rev (sort ?ready')) (order @ [n])"
    unfolding kahn_inv_def
  proof (intro conjI)
    show "hm_wf indeg'" "set (hm_keys indeg') = N" using i'(3,4) keys by simp_all
    show "distinct (order @ [n])" "set (order @ [n]) \<subseteq> N" using inv nN by (auto simp: kahn_inv_def)
    show "distinct (rev (sort ?ready'))" using dis by simp
    show "set (rev (sort ?ready')) = {c \<in> N. c \<notin> set (order @ [n]) \<and> degree indeg' c = 0}"
      unfolding set_rev set_sort using mem by blast
    show "\<forall>c \<in> N. degree indeg' c = length (filter (\<lambda>d. d \<notin> set (order @ [n])) (deps_of edges c))"
      using deg' by blast
    show "\<forall>i < length (order @ [n]). set (deps_of edges ((order @ [n]) ! i)) \<subseteq> set (take i (order @ [n]))"
    proof (intro allI impI)
      fix i
      assume "i < length (order @ [n])"
      then consider "i < length order" | "i = length order" by fastforce
      then show "set (deps_of edges ((order @ [n]) ! i)) \<subseteq> set (take i (order @ [n]))"
      proof cases
        case 1
        then show ?thesis using inv by (simp add: kahn_inv_def nth_append)
      next
        case 2
        then show ?thesis using dn by simp
      qed
    qed
  qed
  then show thesis using that i'(1) by blast
qed

lemma kahn_loop:
  assumes ok: "edges_ok edges" and N: "N = set (graph_nodes edges)"
    and rv: "\<And>n. distinct (rev_of rv n)" "\<And>n x. x \<in> set (rev_of rv n) \<longleftrightarrow> (x, n) \<in> edge_rel edges"
    and inv: "kahn_inv edges N indeg ready order"
  shows "\<exists>indeg' order'. topo_loop rv indeg ready order = Some order' \<and> kahn_inv edges N indeg' [] order'"
  using rv inv
proof (induction rv indeg ready order rule: topo_loop.induct)
  case (1 rv indeg ready order)
  show ?case
  proof (cases "ready = []")
    case True
    then show ?thesis using "1.prems"(3) by (subst topo_loop.simps) auto
  next
    case False
    obtain indeg' ready' where s: "relax (sort (rev_of rv (last ready))) (indeg, butlast ready) = Some (indeg', ready')"
      "kahn_inv edges N indeg' (rev (sort ready')) (order @ [last ready])"
      by (rule kahn_step [OF ok N "1.prems"(3) False refl "1.prems"(1,2)])
    have "topo_loop rv indeg ready order = topo_loop rv indeg' (rev (sort ready')) (order @ [last ready])"
      using False s(1) by (subst topo_loop.simps) (simp add: rev_of_def)
    moreover have "\<exists>i o'. topo_loop rv indeg' (rev (sort ready')) (order @ [last ready]) = Some o' \<and> kahn_inv edges N i [] o'"
      by (rule "1.IH" [OF False refl]) (use "1.prems"(1,2) s in \<open>simp_all add: rev_of_def\<close>)
    ultimately show ?thesis by simp
  qed
qed

lemma kahn_start:
  assumes ok: "edges_ok edges" and st: "fold count_consumer edges ([], []) = (indeg, rv)"
  shows "kahn_inv edges (set (graph_nodes edges)) indeg (rev (sort (map fst (filter (\<lambda>(_, d). d = 0) indeg)))) []"
    and "distinct (rev_of rv n)" and "x \<in> set (rev_of rv n) \<longleftrightarrow> (x, n) \<in> edge_rel edges"
proof -
  have wf: "hm_wf edges" using ok by (simp add: edges_ok_def)
  have eff: "degree indeg c = length (deps_of edges c)" "set (hm_keys indeg) = set (graph_nodes edges)" "hm_wf indeg" for c
    using count_all_effect(1) [OF wf, of "([], [])" c] count_all_effect(3,4) [where es = edges and st = "([], [])"] st
    by (simp_all add: degree_def)
  have rvn: "rev_of rv n = concat (map (\<lambda>p. replicate (count_list (snd p) n) (fst p)) edges)"
    using count_all_effect(2) [where es = edges and st = "([], [])" and y = n] st by (simp add: rev_of_def)
  have deg0: "c \<in> set (map fst (filter (\<lambda>(_, d). d = 0) indeg)) \<longleftrightarrow> c \<in> set (hm_keys indeg) \<and> degree indeg c = 0" for c
  proof -
    have "c \<in> set (map fst (filter (\<lambda>(_, d). d = 0) indeg)) \<longleftrightarrow> (c, 0) \<in> set indeg" by force
    also have "\<dots> \<longleftrightarrow> hm_get indeg c = Some 0" using eff(3) by (simp add: map_of_eq_Some_iff)
    finally show ?thesis unfolding hm_keys_get by (auto simp: degree_def)
  qed
  have "distinct (map fst (filter (\<lambda>(_, d). d = 0) indeg))" using eff(3) by (rule distinct_map_filter)
  then show "kahn_inv edges (set (graph_nodes edges)) indeg (rev (sort (map fst (filter (\<lambda>(_, d). d = 0) indeg)))) []"
    unfolding kahn_inv_def set_rev set_sort using deg0 eff by auto
  show "distinct (rev_of rv n)" "x \<in> set (rev_of rv n) \<longleftrightarrow> (x, n) \<in> edge_rel edges"
    unfolding rvn using rev_lists_ok [OF ok] by blast+
qed

lemma finite_edge_rel: "finite (edge_rel edges)"
proof (rule finite_subset)
  show "edge_rel edges \<subseteq> set (graph_nodes edges) \<times> set (graph_nodes edges)" using edge_rel_nodes by fast
qed simp

text \<open>When nothing is ready, what is left has a provider that is left.\<close>

lemma kahn_done:
  assumes N: "N = set (graph_nodes edges)" and inv: "kahn_inv edges N indeg [] order"
  shows "length order = length indeg \<longleftrightarrow> acyclic (edge_rel edges)" and "length order = length indeg \<Longrightarrow> set order = N"
proof -
  have keys: "set (hm_keys indeg) = N" "distinct (hm_keys indeg)" "distinct order" "set order \<subseteq> N"
    using inv by (simp_all add: kahn_inv_def)
  have len: "length indeg = card N" using distinct_card [OF keys(2)] keys(1) by simp
  have full: "length order = length indeg \<longleftrightarrow> set order = N"
    using distinct_card [OF keys(3)] len keys(4) N by (metis card_subset_eq List.finite_set)
  then show "length order = length indeg \<Longrightarrow> set order = N" by simp
  have deps: "set (deps_of edges (order ! i)) \<subseteq> set (take i order)" if "i < length order" for i
    using inv that by (simp add: kahn_inv_def)
  have before_trancl: "y \<in> set (take i order)"
    if "(x, y) \<in> (edge_rel edges)\<^sup>+" "i < length order" "order ! i = x" for x y i
    using that
  proof (induction rule: trancl_induct)
    case (base y)
    then show ?case using deps [of i] by (auto simp: deps_of_edge [symmetric])
  next
    case (step y z)
    then obtain j where j: "j < i" "j < length order" "order ! j = y" by (auto simp: in_set_conv_nth)
    then have "z \<in> set (take j order)" using deps [of j] step.hyps(2) by (auto simp: deps_of_edge [symmetric])
    then show ?case using j(1) set_take_subset_set_take [of j i order] by auto
  qed
  have "acyclic (edge_rel edges)" if all: "set order = N"
    unfolding acyclic_def
  proof (intro allI notI)
    fix x
    assume "(x, x) \<in> (edge_rel edges)\<^sup>+"
    moreover from this have "x \<in> set order"
      using all N edge_rel_nodes [of x _ edges] by (auto dest!: tranclD)
    ultimately obtain i where i: "i < length order" "order ! i = x" "x \<in> set (take i order)"
      using before_trancl by (metis in_set_conv_nth)
    then obtain j where "j < i" "order ! j = x" by (auto simp: in_set_conv_nth)
    then show False using i keys(3) by (metis less_irrefl nth_eq_iff_index_eq order.strict_trans)
  qed
  moreover have "set order = N" if ac: "acyclic (edge_rel edges)"
  proof (rule ccontr)
    assume "set order \<noteq> N"
    then obtain x where x: "x \<in> N - set order" using keys(4) by blast
    have "wf ((edge_rel edges)\<inverse>)" using finite_acyclic_wf_converse [OF finite_edge_rel ac] .
    then obtain z where z: "z \<in> N - set order" "\<And>y. (z, y) \<in> edge_rel edges \<Longrightarrow> y \<notin> N - set order"
      using wfE_min [OF _ x] by (metis converse_iff)
    have "set [] = {c \<in> N. c \<notin> set order \<and> degree indeg c = 0}"
      using inv unfolding kahn_inv_def by (elim conjE)
    then have "degree indeg z \<noteq> 0" using z(1) by (metis (mono_tags, lifting) DiffE empty_iff empty_set mem_Collect_eq)
    moreover have "degree indeg z = length (filter (\<lambda>d. d \<notin> set order) (deps_of edges z))"
      using inv z(1) by (simp add: kahn_inv_def)
    ultimately obtain d where "d \<in> set (deps_of edges z)" "d \<notin> set order" by (auto simp: filter_empty_conv)
    then show False using z(2) [of d] edge_rel_nodes [of z d edges] N by (simp add: deps_of_edge)
  qed
  ultimately show "length order = length indeg \<longleftrightarrow> acyclic (edge_rel edges)" using full by blast
qed

lemma topo_order_correct:
  assumes ok: "edges_ok edges"
  shows "case topo_order edges of
      None \<Rightarrow> False
    | Some None \<Rightarrow> \<not> acyclic (edge_rel edges)
    | Some (Some order) \<Rightarrow> acyclic (edge_rel edges) \<and> distinct order \<and> set order = set (graph_nodes edges) \<and>
        (\<forall>i < length order. \<forall>d. (order ! i, d) \<in> edge_rel edges \<longrightarrow> d \<in> set (take i order))"
proof -
  obtain indeg rv where st: "fold count_consumer edges ([], []) = (indeg, rv)" by fastforce
  let ?ready = "rev (sort (map fst (filter (\<lambda>(_, d). d = 0) indeg)))"
  obtain indeg' order where o: "topo_loop rv indeg ?ready [] = Some order"
    "kahn_inv edges (set (graph_nodes edges)) indeg' [] order"
    using kahn_loop [OF ok refl kahn_start(2,3,1) [OF ok st]] by blast
  have "length indeg' = length indeg"
    using o(2) kahn_start(1) [OF ok st] unfolding kahn_inv_def by (metis distinct_card length_map)
  then have topo: "topo_order edges = Some (if length order = length indeg' then Some order else None)"
    using o(1) st by (simp add: topo_order_def)
  show ?thesis
  proof (cases "length order = length indeg'")
    case True
    moreover have "\<forall>i < length order. \<forall>d. (order ! i, d) \<in> edge_rel edges \<longrightarrow> d \<in> set (take i order)" "distinct order"
      using o(2) unfolding kahn_inv_def deps_of_edge [symmetric] by blast+
    ultimately show ?thesis using topo kahn_done [OF refl o(2)] by simp
  next
    case False
    then show ?thesis using topo kahn_done(1) [OF refl o(2)] by simp
  qed
qed

subsection \<open>Transitive consumers\<close>

lemma reverse_fold_inner:
  "x \<in> set (rev_of (fold (\<lambda>d r. hm_insert d (opt_or (hm_get r d) [] @ [c]) r) ds r) y) \<longleftrightarrow>
     x \<in> set (rev_of r y) \<or> x = c \<and> y \<in> set ds"
  by (induction ds arbitrary: r) (auto simp: rev_of_def)

lemma reverse_fold_outer:
  "x \<in> set (rev_of (fold (\<lambda>(c, deps) r. fold (\<lambda>d r. hm_insert d (opt_or (hm_get r d) [] @ [c]) r) deps r) es r) y) \<longleftrightarrow>
     x \<in> set (rev_of r y) \<or> (\<exists>ds. (x, ds) \<in> set es \<and> y \<in> set ds)"
  by (induction es arbitrary: r) (auto simp: reverse_fold_inner)

lemma reverse_edges_rel:
  "hm_wf edges \<Longrightarrow> x \<in> set (rev_of (reverse_edges edges) y) \<longleftrightarrow> (x, y) \<in> edge_rel edges"
  unfolding reverse_edges_def reverse_fold_outer by (auto simp: rev_of_def edge_rel_def map_of_eq_Some_iff)

lemma consumers_loop_correct:
  assumes "\<And>x y. x \<in> set (rev_of rv y) \<longleftrightarrow> (x, y) \<in> E"
    and "seen = insert t (set out)" "distinct out" "t \<notin> set out" "set stack \<subseteq> seen"
    and "\<And>x. x \<in> seen \<Longrightarrow> (x, t) \<in> E\<^sup>*"
    and "\<And>x y. y \<in> seen - set stack \<Longrightarrow> (x, y) \<in> E \<Longrightarrow> x \<in> seen"
  shows "set (consumers_loop rv seen out stack) = {x. (x, t) \<in> E\<^sup>*} - {t} \<and> distinct (consumers_loop rv seen out stack)"
  using assms
proof (induction rv seen out stack rule: consumers_loop.induct)
  case (1 rv seen out stack)
  show ?case
  proof (cases "stack = []")
    case True
    have "x \<in> seen" if "(x, t) \<in> E\<^sup>*" for x
      using that by (induction rule: converse_rtrancl_induct) (use "1.prems"(2,7) True in auto)
    then have "set out = {x. (x, t) \<in> E\<^sup>*} - {t}" using "1.prems"(2,4,6) by auto
    then show ?thesis using True "1.prems"(3) by (simp add: consumers_loop.simps)
  next
    case False
    let ?cs = "sort (opt_or (hm_get rv (last stack)) [])"
    obtain new where new: "visit_consumers ?cs (seen, out, butlast stack) = (seen \<union> set new, out @ new, butlast stack @ new)"
      "set new = set ?cs - seen" "distinct new"
      using visit_consumers_new by blast
    have cs: "x \<in> set ?cs \<longleftrightarrow> (x, last stack) \<in> E" for x using "1.prems"(1) [of x "last stack"] by (simp add: rev_of_def)
    have st: "set stack = insert (last stack) (set (butlast stack))"
      using False by (metis append_butlast_last_id list.simps(15) rotate1.simps(2) set_rotate1)
    have lastr: "(last stack, t) \<in> E\<^sup>*" using "1.prems"(5,6) False by (meson last_in_set subset_iff)
    have "set (consumers_loop rv (seen \<union> set new) (out @ new) (butlast stack @ new)) = {x. (x, t) \<in> E\<^sup>*} - {t} \<and>
        distinct (consumers_loop rv (seen \<union> set new) (out @ new) (butlast stack @ new))"
    proof (rule "1.IH" [OF False new(1) [symmetric] refl])
      show "seen \<union> set new = insert t (set (out @ new))" "distinct (out @ new)" "t \<notin> set (out @ new)"
        using "1.prems"(2,3,4) new(2,3) by auto
      show "set (butlast stack @ new) \<subseteq> seen \<union> set new" using "1.prems"(5) st by auto
      show "(x, t) \<in> E\<^sup>*" if "x \<in> seen \<union> set new" for x
        using that "1.prems"(6) new(2) cs lastr by (auto intro: converse_rtrancl_into_rtrancl)
      show "x \<in> seen \<union> set new" if "y \<in> seen \<union> set new - set (butlast stack @ new)" "(x, y) \<in> E" for x y
        using that "1.prems"(7) [of y x] st new(2) cs by auto
    qed (use "1.prems"(1) in auto)
    then show ?thesis using False new(1) by (subst (1 2) consumers_loop.simps) simp
  qed
qed

lemma transitive_consumers_correct:
  assumes "hm_wf edges"
  shows "set (transitive_consumers t edges) = {x. (x, t) \<in> (edge_rel edges)\<^sup>+} - {t}"
    and "distinct (transitive_consumers t edges)" "sorted (transitive_consumers t edges)"
proof -
  have "set (consumers_loop (reverse_edges edges) {t} [] [t]) = {x. (x, t) \<in> (edge_rel edges)\<^sup>*} - {t} \<and>
      distinct (consumers_loop (reverse_edges edges) {t} [] [t])"
    by (rule consumers_loop_correct) (use reverse_edges_rel [OF assms] in auto)
  moreover have "{x. (x, t) \<in> (edge_rel edges)\<^sup>*} - {t} = {x. (x, t) \<in> (edge_rel edges)\<^sup>+} - {t}"
    by (auto simp: rtrancl_eq_or_trancl)
  ultimately show "set (transitive_consumers t edges) = {x. (x, t) \<in> (edge_rel edges)\<^sup>+} - {t}"
    "distinct (transitive_consumers t edges)" "sorted (transitive_consumers t edges)"
    by (simp_all add: transitive_consumers_def)
qed

subsection \<open>Properties\<close>

text \<open>\<open>split_cap\<close> reads back what \<open>norm_cap\<close> writes: a base that starts with a visible byte and
  a major version that fits a \<open>u64\<close> come back unchanged, so a definition that provides
  exactly the normalised interface of a requirement satisfies it, and one with another major
  does not.\<close>

theorem cap_roundtrip:
  assumes "b \<noteq> []" and "solid (hd b)" and "m < 2 ^ 64" and "k < 2 ^ 64"
  shows "split_cap (norm_cap b (Some m)) = (b, Some m) \<and>
    (cap_satisfies (norm_cap b (Some k))
       \<lparr>rq_interface = norm_cap b (Some m), rq_base = b, rq_major = Some m, rq_provider = p\<rparr> \<longleftrightarrow> k = m)"
  using split_norm_cap [OF assms(1-3)] split_norm_cap [OF assms(1,2,4)] by (auto simp: cap_satisfies_def)

theorem cap_roundtrip_witness:
  "split_cap (norm_cap ''workspace.fs'' (Some 12)) = (''workspace.fs'', Some 12)"
  by (rule cap_roundtrip [where k = 0, THEN conjunct1]) (simp_all add: solid_def utf8_ws_def)

text \<open>C23. \<open>find_cycle\<close> decides whether the graph has a cycle: the search always has enough depth, it
  answers nothing exactly on an acyclic graph, and what it answers is a closed walk along
  edges of the graph.\<close>

theorem find_cycle_decides:
  "find_cycle_fuel edges \<noteq> None \<and> (find_cycle edges = None \<longleftrightarrow> acyclic (edge_rel edges)) \<and>
   (case find_cycle edges of None \<Rightarrow> True
    | Some cyc \<Rightarrow> 2 \<le> length cyc \<and> hd cyc = last cyc \<and> successively (\<lambda>a b. (a, b) \<in> edge_rel edges) cyc)"
  using find_cycle_fuel_correct [of edges] find_cycle_complete [of edges] find_cycle_sound [of edges]
  by (auto simp: is_cycle_def split: option.splits)

text \<open>C24. \<open>topo_order\<close> of the graph built from the manifests never underflows a degree; it answers
  \<open>None\<close> exactly when \<open>find_cycle\<close> finds a cycle, and otherwise lists every node once with the
  providers of each node before it.\<close>

theorem topo_order_providers_first:
  assumes "hm_wf R" and "edges = graph_edges R P"
  shows "case topo_order edges of
      None \<Rightarrow> False
    | Some None \<Rightarrow> find_cycle edges \<noteq> None
    | Some (Some order) \<Rightarrow> find_cycle edges = None \<and> distinct order \<and> set order = set (graph_nodes edges) \<and>
        (\<forall>i < length order. \<forall>d. (order ! i, d) \<in> edge_rel edges \<longrightarrow> d \<in> set (take i order))"
  using topo_order_correct [OF edges_ok_graph [OF assms(1), of P]] find_cycle_complete [of edges] assms(2)
  by (auto split: option.splits)

theorem topo_order_providers_first_witness:
  "topo_order (graph_edges [(''app'', [\<lparr>rq_interface = ''fs'', rq_base = ''fs'', rq_major = None, rq_provider = Some ''disk''\<rparr>])] [])
     \<noteq> None"
  using topo_order_providers_first [of "[(''app'', [\<lparr>rq_interface = ''fs'', rq_base = ''fs'', rq_major = None, rq_provider = Some ''disk''\<rparr>])]"
      "graph_edges [(''app'', [\<lparr>rq_interface = ''fs'', rq_base = ''fs'', rq_major = None, rq_provider = Some ''disk''\<rparr>])] []" "[]"]
  by (auto split: option.splits)

text \<open>\<open>transitive_consumers\<close> is reachability: the sorted list, without repetitions, of the other
  nodes from which the target can be reached along dependencies.\<close>

theorem transitive_consumers_reach:
  assumes "hm_wf edges"
  shows "set (transitive_consumers t edges) = {x. (x, t) \<in> (edge_rel edges)\<^sup>+} - {t} \<and>
    distinct (transitive_consumers t edges) \<and> sorted (transitive_consumers t edges)"
  using transitive_consumers_correct [OF assms] by blast

theorem transitive_consumers_reach_witness:
  "set (transitive_consumers ''disk'' [(''app'', [''fs'']), (''fs'', [''disk''])]) =
     {x. (x, ''disk'') \<in> (edge_rel [(''app'', [''fs'']), (''fs'', [''disk''])])\<^sup>+} - {''disk''}"
  by (rule transitive_consumers_reach [THEN conjunct1]) simp

end
