(* ===== verification/Mx_Journal.thy ===== *)
theory Mx_Journal
  imports Mx_Json
begin

text \<open>
  The journal (\<open>journal.rs\<close>): an append-only file of JSON lines numbered by \<open>seq\<close>. The file is
  the list of its lines, \<open>None\<close> for a line that does not parse; writing and parsing the text
  of a line is the JSON library's. The failures of the file system are not modelled.
\<close>

record journal_entry =
  je_seq :: nat
  je_fiber :: string
  je_kind :: string
  je_args :: json
  je_ts :: string
  je_undo :: json
  je_v :: nat

record journal =
  jn_file :: "json option list"
  jn_seq :: nat
  jn_core_v2 :: bool

definition entry_of_line :: "json \<Rightarrow> journal_entry" where
  "entry_of_line v =
     \<lparr>je_seq = opt_or (get_u64 v ''seq'') 0, je_fiber = opt_or (get_str v ''fiber'') [],
      je_kind = opt_or (get_str v ''kind'') [], je_args = opt_or (j_get v ''args'') JNull,
      je_ts = opt_or (get_str v ''ts'') [], je_undo = opt_or (j_get v ''undo'') JNull,
      je_v = opt_or (get_u64 v ''v'') 1\<rparr>"

definition journal_read_all :: "json option list \<Rightarrow> journal_entry list" where
  "journal_read_all file = sort_key je_seq (map entry_of_line (filter_map (\<lambda>l. l) file))"

definition journal_open :: "json option list \<Rightarrow> bool \<Rightarrow> journal" where
  "journal_open file core_v2 =
     \<lparr>jn_file = file,
      jn_seq = (case journal_read_all file of [] \<Rightarrow> 0 | es \<Rightarrow> je_seq (last es)),
      jn_core_v2 = core_v2\<rparr>"

definition journal_adopt_seq :: "nat \<Rightarrow> journal \<Rightarrow> journal" where
  "journal_adopt_seq seq j = (if jn_seq j < seq then j\<lparr>jn_seq := seq\<rparr> else j)"

definition line_of :: "nat \<Rightarrow> string \<Rightarrow> string \<Rightarrow> json \<Rightarrow> string \<Rightarrow> json \<Rightarrow> bool \<Rightarrow> json" where
  "line_of seq fiber kind args ts undo core_v2 =
     JObj [(''seq'', j_nat seq), (''fiber'', JStr fiber), (''kind'', JStr kind), (''args'', args),
           (''ts'', JStr ts), (''undo'', undo), (''v'', j_nat (if core_v2 then 2 else 1))]"

definition journal_append :: "string \<Rightarrow> string \<Rightarrow> string \<Rightarrow> json \<Rightarrow> json \<Rightarrow> journal \<Rightarrow> journal \<times> nat" where
  "journal_append now_ts fiber kind args undo j =
     (let seq = jn_seq j + 1
      in (j\<lparr>jn_seq := seq, jn_file := jn_file j @ [Some (line_of seq fiber kind args now_ts undo (jn_core_v2 j))]\<rparr>, seq))"

definition journal_reset :: "journal \<Rightarrow> journal" where
  "journal_reset j = j\<lparr>jn_file := [], jn_seq := 0\<rparr>"

definition journal_tail :: "nat \<Rightarrow> journal \<Rightarrow> journal_entry list" where
  "journal_tail n j =
     (let all = journal_read_all (jn_file j) in drop (length all - n) all)"

subsection \<open>Reading back what was appended\<close>

lemma read_line:
  assumes "seq < 2 ^ 64"
  shows "entry_of_line (line_of seq fiber kind args ts undo v2) =
    \<lparr>je_seq = seq, je_fiber = fiber, je_kind = kind, je_args = args, je_ts = ts, je_undo = undo,
     je_v = (if v2 then 2 else 1)\<rparr>"
  using assms by (simp add: entry_of_line_def line_of_def get_u64_def get_str_def j_get_def as_u64_def)

text \<open>
  A journal whose file holds entries numbered one to \<open>seq\<close>, the state of every journal that was
  created empty and appended to.
\<close>

definition journal_ok :: "journal \<Rightarrow> bool" where
  "journal_ok j \<longleftrightarrow> None \<notin> set (jn_file j) \<and>
     map je_seq (map entry_of_line (filter_map (\<lambda>l. l) (jn_file j))) = [1 ..< Suc (jn_seq j)]"

lemma filter_map_append: "filter_map f (xs @ ys) = filter_map f xs @ filter_map f ys"
  by (simp add: filter_map_def List.map_filter_def)

lemma journal_ok_append:
  assumes "journal_ok j" "jn_seq j + 1 < 2 ^ 64"
  shows "journal_ok (fst (journal_append ts fiber kind args undo j))"
proof -
  have "entry_of_line (line_of (Suc (jn_seq j)) fiber kind args ts undo (jn_core_v2 j)) =
      \<lparr>je_seq = Suc (jn_seq j), je_fiber = fiber, je_kind = kind, je_args = args, je_ts = ts, je_undo = undo,
       je_v = (if jn_core_v2 j then 2 else 1)\<rparr>"
    by (rule read_line) (use assms(2) in simp)
  then show ?thesis
    using assms(1) by (simp add: journal_ok_def journal_append_def Let_def filter_map_append)
      (simp add: filter_map_def)
qed

lemma read_all_ok:
  assumes "journal_ok j"
  shows "journal_read_all (jn_file j) = map entry_of_line (filter_map (\<lambda>l. l) (jn_file j))"
proof -
  have "sorted (map je_seq (map entry_of_line (filter_map (\<lambda>l. l) (jn_file j))))"
    using assms unfolding journal_ok_def by (metis sorted_upt)
  then show ?thesis unfolding journal_read_all_def by (rule sort_key_id_if_sorted)
qed

text \<open>Appending a list of records, each a fiber, a kind, its arguments and its undo.\<close>

definition append_all :: "string \<Rightarrow> (string \<times> string \<times> json \<times> json) list \<Rightarrow> journal \<Rightarrow> journal" where
  "append_all ts recs j = fold (\<lambda>(f, k, a, u) j. fst (journal_append ts f k a u j)) recs j"

lemma append_seq [simp]: "jn_seq (fst (journal_append ts f k a u j)) = Suc (jn_seq j)"
  "jn_core_v2 (fst (journal_append ts f k a u j)) = jn_core_v2 j"
  by (simp_all add: journal_append_def Let_def)

lemma append_all_seq: "jn_seq (append_all ts recs j) = jn_seq j + length recs"
  unfolding append_all_def by (induction recs arbitrary: j) auto

lemma append_all_ok:
  "journal_ok j \<Longrightarrow> jn_seq j + length recs < 2 ^ 64 \<Longrightarrow> journal_ok (append_all ts recs j)"
proof (induction recs arbitrary: j)
  case (Cons x recs)
  obtain f k a u where x: "x = (f, k, a, u)" by (cases x)
  have "journal_ok (fst (journal_append ts f k a u j))"
    by (rule journal_ok_append) (use Cons.prems in simp_all)
  then show ?case using Cons.IH [of "fst (journal_append ts f k a u j)"] Cons.prems(2) x
    by (simp add: append_all_def)
qed (simp add: append_all_def)

lemma append_entries:
  assumes "journal_ok j" "jn_seq j + 1 < 2 ^ 64"
  shows "journal_read_all (jn_file (fst (journal_append ts f k a u j))) =
    journal_read_all (jn_file j) @ [\<lparr>je_seq = Suc (jn_seq j), je_fiber = f, je_kind = k, je_args = a, je_ts = ts,
      je_undo = u, je_v = (if jn_core_v2 j then 2 else 1)\<rparr>]"
proof -
  have "Suc (jn_seq j) < 2 ^ 64" using assms(2) by simp
  from read_line [OF this] show ?thesis
    unfolding read_all_ok [OF assms(1)] read_all_ok [OF journal_ok_append [OF assms]]
    by (simp add: journal_append_def Let_def filter_map_append) (simp add: filter_map_def)
qed

lemma append_all_entries:
  assumes "journal_ok j" "jn_seq j + length recs < 2 ^ 64"
  shows "map (\<lambda>e. (je_fiber e, je_kind e, je_args e, je_undo e)) (journal_read_all (jn_file (append_all ts recs j))) =
    map (\<lambda>e. (je_fiber e, je_kind e, je_args e, je_undo e)) (journal_read_all (jn_file j)) @ recs"
  using assms
proof (induction recs arbitrary: j)
  case (Cons x recs)
  obtain f k a u where x: "x = (f, k, a, u)" by (cases x)
  have b: "jn_seq j + 1 < 2 ^ 64" using Cons.prems(2) by simp
  show ?case
    using Cons.IH [OF journal_ok_append [OF Cons.prems(1) b]] Cons.prems(2) x append_entries [OF Cons.prems(1) b]
    by (simp add: append_all_def)
qed (simp add: append_all_def)

lemma journal_ok_empty [simp]: "journal_ok (journal_open [] v2)"
  by (simp add: journal_ok_def journal_open_def journal_read_all_def filter_map_def)

text \<open>The journal replays what was appended: reading the file back gives the records in order,
  numbered from one without a gap, and reopening the file continues with the next number.\<close>

theorem journal_replays:
  assumes "length recs < 2 ^ 64" and "j = append_all ts recs (journal_open [] v2)"
  shows "map (\<lambda>e. (je_fiber e, je_kind e, je_args e, je_undo e)) (journal_read_all (jn_file j)) = recs \<and>
    map je_seq (journal_read_all (jn_file j)) = [1 ..< Suc (length recs)] \<and>
    journal_open (jn_file j) v2 = j"
proof -
  have z: "jn_seq (journal_open [] v2) = 0" "jn_file (journal_open [] v2) = []" "jn_core_v2 (journal_open [] v2) = v2"
    by (simp_all add: journal_open_def journal_read_all_def filter_map_def)
  have ok: "journal_ok j" using append_all_ok [OF journal_ok_empty, of v2 recs ts] assms z by simp
  have seq: "jn_seq j = length recs" using append_all_seq assms(2) z by simp
  have v: "jn_core_v2 j = v2"
    unfolding assms(2) append_all_def using z(3)
    by (induction recs rule: rev_induct) (auto split: prod.splits)
  have seqs: "map je_seq (journal_read_all (jn_file j)) = [1 ..< Suc (length recs)]"
    using ok seq unfolding read_all_ok [OF ok] by (simp only: journal_ok_def)
  have lst: "(case es of [] \<Rightarrow> 0 | es \<Rightarrow> je_seq (last es)) = (if map je_seq es = [] then 0 else last (map je_seq es))" for es
    by (cases es) (simp_all add: last_map)
  have "(case journal_read_all (jn_file j) of [] \<Rightarrow> 0 | es \<Rightarrow> je_seq (last es)) = length recs"
    unfolding lst seqs by (cases recs) simp_all
  then have "journal_open (jn_file j) v2 = j"
    using seq v by (simp add: journal_open_def)
  moreover have "map (\<lambda>e. (je_fiber e, je_kind e, je_args e, je_undo e)) (journal_read_all (jn_file j)) = recs"
    using append_all_entries [OF journal_ok_empty, of v2 recs ts] assms z
    by (simp add: journal_read_all_def filter_map_def)
  ultimately show ?thesis using seqs by blast
qed

theorem journal_replays_witness:
  "journal_open (jn_file (append_all ''0.000'' [(''kernel'', ''emit'', JNull, JNull), (''a'', ''b'', JInt 3, JNull)]
      (journal_open [] True))) True =
   append_all ''0.000'' [(''kernel'', ''emit'', JNull, JNull), (''a'', ''b'', JInt 3, JNull)] (journal_open [] True)"
  by (rule journal_replays [OF _ refl, THEN conjunct2, THEN conjunct2]) simp

end
