(* ===== verification/Mx_Manifest.thy ===== *)
theory Mx_Manifest
  imports Mx_Calls Mx_Graph
begin

text \<open>
  Manifests: how a definition is read from its JSON value (\<open>external.rs\<close>, the first part of
  \<open>kernel.rs\<close>). The textual messages of the errors are values of one datatype.
\<close>

subsection \<open>Execution\<close>

datatype execution_kind =
    InProcess
  | External (ex_entrypoint: string) (ex_args: "string list") (ex_timeout_ms: nat)

fun is_external :: "execution_kind \<Rightarrow> bool" where
  "is_external InProcess = False"
| "is_external (External e a t) = True"

fun execution_timeout_ms :: "execution_kind \<Rightarrow> nat" where
  "execution_timeout_ms InProcess = 0"
| "execution_timeout_ms (External e a t) = t"

datatype manifest_error =
    DepsError deps_error
  | ExecNeedsObject
  | ExecUnknown string
  | ExecShape
  | ExecNoEntrypoint
  | ExecTimeoutRange
  | ExecKindUnknown string
  | OutboundShape
  | OutboundRequestShape
  | OutboundRequestEmpty
  | OutboundCapInvalid string
  | OutboundNoLimits
  | OutboundLimit string
  | CallsShape
  | CallsEmptyCap
  | CallsOnWithdraw string string
  | CallsDrainMs string
  | NoId
  | CapabilitiesShape
  | SubscriptionsShape
  | CapabilityEmpty
  | SubscriptionEmpty
  | RemoteRequires

definition parse_execution :: "json option \<Rightarrow> (manifest_error, execution_kind) result" where
  "parse_execution v0 =
     (case v0 of
        None \<Rightarrow> Inr InProcess
      | Some v \<Rightarrow>
          (case as_str v of
             Some s \<Rightarrow>
               if s = ''inprocess'' \<or> s = ''in-process'' then Inr InProcess
               else if s = ''process'' then Inl ExecNeedsObject
               else Inl (ExecUnknown s)
           | None \<Rightarrow>
               (case as_object v of
                  None \<Rightarrow> Inl ExecShape
                | Some _ \<Rightarrow>
                    (let kind = opt_or (get_str v ''kind'') ''inprocess'' in
                     if kind = ''inprocess'' \<or> kind = ''in-process'' then Inr InProcess
                     else if kind = ''process'' then
                       (let entrypoint = trim (opt_or (get_str v ''entrypoint'') []) in
                        if entrypoint = [] then Inl ExecNoEntrypoint
                        else (let args = (case get_array v ''args'' of None \<Rightarrow> [] | Some a \<Rightarrow> filter_map as_str a);
                                  timeout_ms = opt_or (get_u64 v ''timeout_ms'') 5000
                              in if timeout_ms = 0 \<or> 300000 < timeout_ms then Inl ExecTimeoutRange
                                 else Inr (External entrypoint args timeout_ms)))
                     else Inl (ExecKindUnknown kind)))))"

definition expand_args :: "string list \<Rightarrow> string \<Rightarrow> string \<Rightarrow> string list" where
  "expand_args args sock i =
     map (\<lambda>a. str_replace ''{id}'' i (str_replace ''{sock}'' sock a)) args"

datatype forward_error = FwdCancelled | FwdTimeout | FwdGone string | FwdProtocol string

fun forward_error_code :: "forward_error \<Rightarrow> string" where
  "forward_error_code FwdCancelled = ''cancelled''"
| "forward_error_code FwdTimeout = ''deadline-exceeded''"
| "forward_error_code (FwdGone s) = ''outcome-unknown''"
| "forward_error_code (FwdProtocol s) = ''internal''"

datatype forward_outcome = FwdOk json | FwdErr string string | FwdFailed forward_error

record forward_request =
  fr_ticket :: ticket_id
  fr_cap :: string
  fr_input :: json
  fr_logical :: string
  fr_instance :: instance_id
  fr_generation :: nat
  fr_timeout_ms :: nat
  fr_cancel :: bool

datatype lifecycle_event =
    EvActivated string nat nat string "string list" nat
  | EvWithdrawn string nat nat
  | EvRemoved string

subsection \<open>Outbound policy\<close>

record outbound_limits =
  ol_max_depth :: nat
  ol_max_children_per_parent :: nat
  ol_max_calls_per_session :: nat
  ol_max_calls_global :: nat
  ol_max_seen_requests :: nat
  ol_max_queued_bytes :: nat
  ol_max_deadline_ms :: nat

record outbound_policy =
  op_requested :: "string list"
  op_limits :: outbound_limits

text \<open>A capability with exactly one separator, a name and a version of digits.\<close>

definition versioned_cap_ok :: "string \<Rightarrow> bool" where
  "versioned_cap_ok c =
     (case split_on CHR ''@'' c of
        [name, ver] \<Rightarrow> name \<noteq> [] \<and> ver \<noteq> [] \<and> list_all is_ascii_digit ver
      | _ \<Rightarrow> False)"

definition outbound_cap :: "json \<Rightarrow> (manifest_error, string) result" where
  "outbound_cap c =
     (case map_option trim (as_str c) of
        Some s \<Rightarrow> if s = [] then Inl OutboundRequestEmpty else Inr s
      | None \<Rightarrow> Inl OutboundRequestEmpty)"

definition limit_of :: "json \<Rightarrow> string \<Rightarrow> (manifest_error, nat) result" where
  "limit_of lim k =
     (case get_u64 lim k of
        Some n \<Rightarrow> if 0 < n then Inr n else Inl (OutboundLimit k)
      | None \<Rightarrow> Inl (OutboundLimit k))"

definition parse_outbound_limits :: "json \<Rightarrow> (manifest_error, outbound_limits) result" where
  "parse_outbound_limits lim =
     (case collect_results (limit_of lim)
        [''max_depth'', ''max_children_per_parent'', ''max_calls_per_session'', ''max_calls_global'',
         ''max_seen_requests'', ''max_queued_bytes'', ''max_deadline_ms''] of
        Inl e \<Rightarrow> Inl e
      | Inr [a, b, c, d, e, f, g] \<Rightarrow>
          Inr \<lparr>ol_max_depth = a, ol_max_children_per_parent = b, ol_max_calls_per_session = c,
               ol_max_calls_global = d, ol_max_seen_requests = e, ol_max_queued_bytes = f, ol_max_deadline_ms = g\<rparr>
      | Inr _ \<Rightarrow> Inl OutboundNoLimits)"

definition parse_outbound :: "json option \<Rightarrow> (manifest_error, outbound_policy option) result" where
  "parse_outbound v0 =
     (case v0 of
        None \<Rightarrow> Inr None
      | Some v \<Rightarrow>
          (case as_object v of
             None \<Rightarrow> Inl OutboundShape
           | Some _ \<Rightarrow>
               (case get_array v ''request'' of
                  None \<Rightarrow> Inl OutboundRequestShape
                | Some arr \<Rightarrow>
                    (case collect_results outbound_cap arr of
                       Inl e \<Rightarrow> Inl e
                     | Inr requested \<Rightarrow>
                         (case find (\<lambda>c. \<not> versioned_cap_ok c) requested of
                            Some c \<Rightarrow> Inl (OutboundCapInvalid c)
                          | None \<Rightarrow>
                              (case j_get v ''limits'' of
                                 Some (JObj m) \<Rightarrow>
                                   (case parse_outbound_limits (JObj m) of
                                      Inl e \<Rightarrow> Inl e
                                    | Inr lims \<Rightarrow> Inr (Some \<lparr>op_requested = requested, op_limits = lims\<rparr>))
                               | _ \<Rightarrow> Inl OutboundNoLimits))))))"

subsection \<open>Call policies\<close>

definition parse_call_policy :: "string \<times> json \<Rightarrow> (manifest_error, string \<times> call_policy) result" where
  "parse_call_policy p =
     (case p of (cap, pv) \<Rightarrow>
        if trim cap = [] then Inl CallsEmptyCap
        else (case (case get_str pv ''on_withdraw'' of
                      None \<Rightarrow> Inr (cp_on_withdraw policy_default)
                    | Some o' \<Rightarrow> (case wp_parse o' of None \<Rightarrow> Inl (CallsOnWithdraw cap o') | Some w \<Rightarrow> Inr w)) of
                Inl e \<Rightarrow> Inl e
              | Inr w \<Rightarrow>
                  (case get_u64 pv ''drain_ms'' of
                     Some d \<Rightarrow> Inr (cap, \<lparr>cp_on_withdraw = w, cp_drain_ms = d\<rparr>)
                   | None \<Rightarrow> if j_get pv ''drain_ms'' \<noteq> None then Inl (CallsDrainMs cap)
                             else Inr (cap, \<lparr>cp_on_withdraw = w, cp_drain_ms = cp_drain_ms policy_default\<rparr>))))"

definition parse_call_policies :: "json option \<Rightarrow> (manifest_error, (string, call_policy) hmap) result" where
  "parse_call_policies v0 =
     (case v0 of
        None \<Rightarrow> Inr []
      | Some v \<Rightarrow>
          (case as_object v of
             None \<Rightarrow> Inl CallsShape
           | Some obj \<Rightarrow>
               (case collect_results parse_call_policy obj of
                  Inl e \<Rightarrow> Inl e
                | Inr ps \<Rightarrow> Inr (fold (\<lambda>(cap, pol) m. hm_insert cap pol m) ps []))))"

subsection \<open>Definitions\<close>

record stored_manifest =
  sm_id :: string
  sm_caps :: "string list"
  sm_requires :: "requirement list"
  sm_subs :: "string list"
  sm_calls :: "(string, call_policy) hmap"
  sm_reducer :: string
  sm_init_state :: json
  sm_tier :: string
  sm_trust :: string
  sm_restart :: string
  sm_source :: "string option"
  sm_execution :: execution_kind
  sm_remote :: bool
  sm_outbound :: "outbound_policy option"

text \<open>The trimmed non-empty strings of an array, absent entries dropped.\<close>

definition string_items :: "json \<Rightarrow> string \<Rightarrow> string list" where
  "string_items v k =
     (case get_array v k of
        None \<Rightarrow> []
      | Some a \<Rightarrow> filter (\<lambda>s. s \<noteq> []) (filter_map (\<lambda>x. map_option trim (as_str x)) a))"

definition has_blank_item :: "json \<Rightarrow> string \<Rightarrow> bool" where
  "has_blank_item v k =
     (case get_array v k of
        None \<Rightarrow> False
      | Some a \<Rightarrow> \<exists>x \<in> set a. (case as_str x of None \<Rightarrow> True | Some s \<Rightarrow> trim s = []))"

definition add_new :: "string list \<Rightarrow> string list \<Rightarrow> string list" where
  "add_new caps extra = fold (\<lambda>c caps. if c \<in> set caps then caps else caps @ [c]) extra caps"

definition lift_deps :: "(deps_error, 'a) result \<Rightarrow> (manifest_error, 'a) result" where
  "lift_deps r = (case r of Inl e \<Rightarrow> Inl (DepsError e) | Inr x \<Rightarrow> Inr x)"

definition parse_manifest_value :: "json \<Rightarrow> (manifest_error, stored_manifest) result" where
  "parse_manifest_value v =
     (let i = opt_or (get_str v ''id'') [] in
      bind_result (ensure (trim i \<noteq> []) NoId) (\<lambda>_.
      let caps0 = string_items v ''capabilities'' in
      bind_result (ensure (j_get v ''capabilities'' = None \<or> get_array v ''capabilities'' \<noteq> None) CapabilitiesShape) (\<lambda>_.
      bind_result (lift_deps (parse_provides (j_get v ''provides''))) (\<lambda>extra.
      let caps = add_new caps0 extra in
      bind_result (lift_deps (parse_requires (j_get v ''requires''))) (\<lambda>requires.
      let subs = string_items v ''subscriptions'' in
      bind_result (ensure (j_get v ''subscriptions'' = None \<or> get_array v ''subscriptions'' \<noteq> None) SubscriptionsShape) (\<lambda>_.
      bind_result (ensure (\<not> has_blank_item v ''capabilities'') CapabilityEmpty) (\<lambda>_.
      bind_result (ensure (\<not> has_blank_item v ''subscriptions'') SubscriptionEmpty) (\<lambda>_.
      bind_result (parse_call_policies (j_get v ''calls'')) (\<lambda>calls.
      bind_result (parse_execution (j_get v ''execution'')) (\<lambda>execution.
      bind_result (parse_outbound (j_get v ''outbound'')) (\<lambda>outbound.
      let remote = opt_or (Option.bind (j_get v ''remote'') as_bool) False in
      bind_result (ensure (\<not> (remote \<and> (case get_array v ''requires'' of None \<Rightarrow> False | Some a \<Rightarrow> a \<noteq> []))) RemoteRequires) (\<lambda>_.
      Inr \<lparr>sm_id = i, sm_caps = caps, sm_requires = requires, sm_subs = subs, sm_calls = calls,
           sm_reducer = opt_or (get_str v ''reducer'') ''noop'',
           sm_init_state = opt_or (j_get v ''init_state'') (JObj []),
           sm_tier = opt_or (get_str v ''tier'') ''inproc'',
           sm_trust = opt_or (get_str v ''trust'') ''trusted'',
           sm_restart = opt_or (get_str v ''restart'') ''permanent'',
           sm_source = None, sm_execution = execution, sm_remote = remote, sm_outbound = outbound\<rparr>))))))))))))"

definition provides_of :: "(string, stored_manifest) hmap \<Rightarrow> (string, string list) hmap" where
  "provides_of defs = hm_map_values sm_caps defs"

definition requires_of :: "(string, stored_manifest) hmap \<Rightarrow> (string, requirement list) hmap" where
  "requires_of defs = hm_map_values sm_requires defs"

subsection \<open>What a definition that was read satisfies\<close>

lemma lift_deps_Inr [simp]: "lift_deps r = Inr x \<longleftrightarrow> r = Inr x"
  by (cases r) (simp_all add: lift_deps_def)

lemma set_add_new [simp]: "set (add_new caps extra) = set caps \<union> set extra"
  unfolding add_new_def by (induction extra arbitrary: caps) auto

lemma add_new_prefix: "\<exists>rest. add_new caps extra = caps @ rest \<and> set rest \<inter> set caps = {} \<and> distinct rest"
proof (induction extra rule: rev_induct)
  case (snoc x xs)
  then obtain rest where "add_new caps xs = caps @ rest" "set rest \<inter> set caps = {}" "distinct rest" by blast
  then show ?case
    by (cases "x \<in> set (caps @ rest)")
      (auto simp: add_new_def intro!: exI [of _ "rest @ [x]"] exI [of _ rest])
qed (simp add: add_new_def)

lemma parse_execution_ok:
  "parse_execution v = Inr (External e a t) \<Longrightarrow> e \<noteq> [] \<and> 0 < t \<and> t \<le> 300000"
  by (auto simp: parse_execution_def Let_def split: option.splits if_splits)

lemma limit_of_Inr: "limit_of lim k = Inr n \<Longrightarrow> 0 < n"
  by (auto simp: limit_of_def split: option.splits if_splits)

lemma parse_outbound_limits_ok:
  assumes "parse_outbound_limits lim = Inr l"
  shows "0 < ol_max_depth l \<and> 0 < ol_max_children_per_parent l \<and> 0 < ol_max_calls_per_session l \<and>
    0 < ol_max_calls_global l \<and> 0 < ol_max_seen_requests l \<and> 0 < ol_max_queued_bytes l \<and> 0 < ol_max_deadline_ms l"
proof -
  obtain xs where xs: "collect_results (limit_of lim)
        [''max_depth'', ''max_children_per_parent'', ''max_calls_per_session'', ''max_calls_global'',
         ''max_seen_requests'', ''max_queued_bytes'', ''max_deadline_ms''] = Inr xs"
    using assms by (simp only: parse_outbound_limits_def split: sum.splits) auto
  then have pos: "\<forall>x \<in> set xs. 0 < x"
    unfolding collect_results_Inr by (auto simp: list_all2_conv_all_nth in_set_conv_nth dest!: limit_of_Inr)
  have "length xs = 7" using xs unfolding collect_results_Inr by (simp add: list_all2_lengthD [symmetric])
  then obtain a b c d e f g where "xs = [a, b, c, d, e, f, g]"
    by (auto simp: numeral_eq_Suc length_Suc_conv)
  then show ?thesis using assms xs pos by (auto simp: parse_outbound_limits_def)
qed

lemma parse_outbound_ok:
  assumes "parse_outbound v = Inr (Some pol)"
  shows "(\<forall>c \<in> set (op_requested pol). versioned_cap_ok c)" and "\<exists>lim. parse_outbound_limits lim = Inr (op_limits pol)"
  using assms
  by (auto simp: parse_outbound_def find_None_iff_all split: option.splits sum.splits json.splits)

lemma parse_require_ok:
  "parse_require_value v = Inr r \<Longrightarrow> rq_base r \<noteq> [] \<and> rq_interface r = norm_cap (rq_base r) (rq_major r)"
  by (auto simp: parse_require_value_def Let_def split: json.splits if_splits prod.splits)

lemma parse_requires_ok:
  assumes "parse_requires v = Inr rs" "r \<in> set rs"
  shows "rq_base r \<noteq> [] \<and> rq_interface r = norm_cap (rq_base r) (rq_major r)"
proof -
  obtain arr where "collect_results parse_require_value arr = Inr rs \<or> rs = []"
    using assms(1) by (auto simp: parse_requires_def split: option.splits)
  then obtain x where "parse_require_value x = Inr r"
    using assms(2) unfolding collect_results_Inr by (auto simp: list_all2_conv_all_nth in_set_conv_nth)
  then show ?thesis by (rule parse_require_ok)
qed

lemma parse_requires_empty:
  "parse_requires (j_get v ''requires'') = Inr rs \<Longrightarrow>
   (case get_array v ''requires'' of None \<Rightarrow> False | Some a \<Rightarrow> a \<noteq> []) \<or> rs = []"
  by (auto simp: parse_requires_def get_array_def as_array_def split: option.splits json.splits)

lemma string_items_solid: "s \<in> set (string_items v k) \<Longrightarrow> s \<noteq> []"
  by (auto simp: string_items_def split: option.splits)



end
