(* ===== verification/Mx_Kernel.thy ===== *)
theory Mx_Kernel
  imports Mx_Context Mx_Resources Mx_Registry Mx_Calls Mx_Graph Mx_Journal Mx_Manifest
begin

text \<open>
  The state of the kernel (\<open>kernel.rs\<close>) and the operations on resources. The kernel is one
  record over the tables of the other theories. Besides the source's fields it has the inputs
  the code reads from outside: the monotonic clock, the wall clock, the text of the journal's
  timestamp and the outcome of creating a thread. The lifecycle hook and the event sink are
  the lists of what was delivered to them, \<open>None\<close> while none is registered.

  An operation runs between the moments at which other threads can interfere. Where the code
  expects interference and looks again, the operation takes an argument \<open>env\<close> that says what
  the other threads do in each of these windows; it is arbitrary in the statements below.
\<close>

named_theorems kernel_defs \<open>definitions of the kernel operations\<close>

record plugin =
  pl_id :: string
  pl_state :: fsm
  pl_tier :: string
  pl_trust :: string
  pl_generation :: nat
  pl_restart_policy :: string
  pl_caps :: "string list"
  pl_subs :: "string list"
  pl_requires :: "requirement list"
  pl_bindings :: "binding list"
  pl_calls :: "(string, call_policy) hmap"
  pl_execution :: execution_kind
  pl_wait_cause :: "string option"
  pl_reducer :: string
  pl_init_state :: json
  pl_json_state :: json
  pl_leases :: "lease list"
  pl_panic_count :: nat
  pl_restart_times :: "nat list"
  pl_instance_id :: nat
  pl_context_id :: nat
  pl_epoch :: nat
  pl_resources :: "resource_handle list"

definition plugin_instance_ref :: "plugin \<Rightarrow> instance_ref" where
  "plugin_instance_ref p =
     instance_ref_new (pl_epoch p) (pl_instance_id p) (pl_context_id p) (pl_id p) (pl_generation p)"

datatype dispose_outcome = ODisposed | OAlreadyDisposed | OCleanupPending string

fun outcome_as_str :: "dispose_outcome \<Rightarrow> string" where
  "outcome_as_str ODisposed = ''Disposed''"
| "outcome_as_str OAlreadyDisposed = ''AlreadyDisposed''"
| "outcome_as_str (OCleanupPending reason) = ''CleanupPending''"

record dep_binding =
  db_id :: string
  db_consumer_logical :: string
  db_consumer_instance :: instance_id
  db_consumer_generation :: nat
  db_consumer_context :: context_id
  db_interface :: string
  db_capability :: string
  db_provider_logical :: string
  db_provider_instance :: instance_id
  db_provider_generation :: nat

record dep_usage =
  du_per_session :: "(string, nat) hmap"
  du_global :: nat

record dep_admit =
  da_parent :: ticket_id
  da_binding :: string
  da_caller_logical :: string
  da_caller_instance :: nat
  da_caller_generation :: nat
  da_session :: string
  da_timeout_ms :: nat

record dep_deny =
  dd_code :: string
  dd_reason :: string

record remote_provider =
  rp_logical :: string
  rp_instance :: nat
  rp_generation :: nat
  rp_peer :: string

record open_call =
  oc_ticket :: ticket_id
  oc_cap :: string
  oc_logical :: string
  oc_instance :: instance_id
  oc_generation :: nat
  oc_context :: context_id
  oc_policy :: call_policy

definition MAX_EXTERNAL_RESOURCES_PER_CONTEXT :: nat where
  "MAX_EXTERNAL_RESOURCES_PER_CONTEXT = 64"

definition INFLIGHT_CAUSE_PREFIX :: string where
  "INFLIGHT_CAUSE_PREFIX = ''in-flight calls pending: ''"

record kernel =
  k_plugins :: "(string, plugin) hmap"
  k_caps :: registry
  k_bus :: bus
  k_journal :: journal
  k_dry_run :: bool
  k_contexts :: context_table
  k_resources :: resource_table
  k_definitions :: "(string, stored_manifest) hmap"
  k_calls :: calls_table
  k_hook :: "lifecycle_event list option"
  k_dep_bindings :: "(string, dep_binding) hmap"
  k_dep_seq :: nat
  k_outbound_grants :: "(string \<times> string, nat) hmap"
  k_remote_providers :: "(string, remote_provider) hmap"
  k_grant_seq :: nat
  k_dep_usage :: dep_usage
  k_event_sink :: "(string \<times> json) list option"
  k_now :: nat
  k_wall :: nat
  k_ts :: string
  k_spawn :: "string option"

definition kernel_new :: "nat \<Rightarrow> journal \<Rightarrow> bool \<Rightarrow> kernel" where
  "kernel_new fresh_epoch journal dry_run =
     \<lparr>k_plugins = [], k_caps = reg_new, k_bus = bus_new, k_journal = journal, k_dry_run = dry_run,
      k_contexts = ctx_new fresh_epoch, k_resources = res_new, k_definitions = [], k_calls = calls_new,
      k_hook = None, k_dep_bindings = [], k_dep_seq = 1, k_outbound_grants = [], k_remote_providers = [],
      k_grant_seq = 1, k_dep_usage = \<lparr>du_per_session = [], du_global = 0\<rparr>, k_event_sink = None,
      k_now = 0, k_wall = 0, k_ts = [], k_spawn = None\<rparr>"

text \<open>The windows in which other threads run.\<close>

datatype window = AcqChecked | AcqRegistered | AcqPublished | DrainWait | Parked
  | CallAdmitted | CallAllocated | DepReserved | DepRegistered

type_synonym interference = "window \<Rightarrow> kernel \<Rightarrow> kernel"

subsection \<open>Journal, hook and queries\<close>

definition k_append :: "string \<Rightarrow> string \<Rightarrow> json \<Rightarrow> kernel \<Rightarrow> kernel" where
  "k_append fiber kind args k =
     k\<lparr>k_journal := fst (journal_append (k_ts k) fiber kind args JNull (k_journal k))\<rparr>"

definition set_hook :: "kernel \<Rightarrow> kernel" where
  "set_hook k = k\<lparr>k_hook := Some []\<rparr>"

definition emit_hook :: "lifecycle_event \<Rightarrow> kernel \<Rightarrow> kernel" where
  "emit_hook ev k = (case k_hook k of None \<Rightarrow> k | Some evs \<Rightarrow> k\<lparr>k_hook := Some (evs @ [ev])\<rparr>)"

definition emit_activated :: "string \<Rightarrow> nat \<Rightarrow> nat \<Rightarrow> kernel \<Rightarrow> kernel" where
  "emit_activated logical inst gen k =
     (case hm_get (k_definitions k) logical of
        None \<Rightarrow> k
      | Some d \<Rightarrow> (case sm_execution d of
                     InProcess \<Rightarrow> k
                   | External entrypoint args timeout_ms \<Rightarrow>
                       emit_hook (EvActivated logical inst gen entrypoint args timeout_ms) k))"

definition epoch :: "kernel \<Rightarrow> nat" where
  "epoch k = ct_epoch (k_contexts k)"

definition provide :: "string \<Rightarrow> string \<Rightarrow> kernel \<Rightarrow> kernel" where
  "provide cap fiber k = k\<lparr>k_caps := reg_provide cap fiber (k_caps k)\<rparr>"

definition instance_ref_of :: "kernel \<Rightarrow> string \<Rightarrow> instance_ref option" where
  "instance_ref_of k logical = map_option reference (ctx_current (k_contexts k) logical)"

definition instance_of :: "kernel \<Rightarrow> string \<Rightarrow> instance_id option" where
  "instance_of k logical = map_option cr_instance (ctx_current (k_contexts k) logical)"

definition waiting_reason_of :: "kernel \<Rightarrow> string \<Rightarrow> string option" where
  "waiting_reason_of k logical = Option.bind (ctx_current (k_contexts k) logical) cr_cause"

definition bindings_of :: "kernel \<Rightarrow> string \<Rightarrow> binding list" where
  "bindings_of k logical = opt_or (map_option pl_bindings (hm_get (k_plugins k) logical)) []"

definition policy_for :: "kernel \<Rightarrow> string \<Rightarrow> string \<Rightarrow> call_policy" where
  "policy_for k logical cap =
     opt_or (Option.bind (hm_get (k_plugins k) logical) (\<lambda>p. hm_get (pl_calls p) cap)) policy_default"

definition outbound_policy_of :: "kernel \<Rightarrow> string \<Rightarrow> outbound_policy option" where
  "outbound_policy_of k logical = Option.bind (hm_get (k_definitions k) logical) sm_outbound"

definition set_event_sink :: "bool \<Rightarrow> kernel \<Rightarrow> kernel" where
  "set_event_sink present k = k\<lparr>k_event_sink := (if present then Some [] else None)\<rparr>"

definition subscriptions_of :: "kernel \<Rightarrow> string \<Rightarrow> string list" where
  "subscriptions_of k logical = opt_or (map_option sm_subs (hm_get (k_definitions k) logical)) []"

definition active_resources_for :: "kernel \<Rightarrow> string \<Rightarrow> nat" where
  "active_resources_for k logical =
     opt_or (map_option (\<lambda>c. res_active_for (k_resources k) (cr_context c)) (ctx_current (k_contexts k) logical)) 0"

definition context_state_of :: "kernel \<Rightarrow> string \<Rightarrow> string option" where
  "context_state_of k logical = map_option (\<lambda>c. fsm_as_str (cr_state c)) (ctx_current (k_contexts k) logical)"

subsection \<open>Publishing a resource\<close>

definition k_register ::
  "context_record \<Rightarrow> string \<Rightarrow> resource_kind \<Rightarrow> kernel \<Rightarrow> kernel \<times> (acquire_error, resource_handle) result" where
  "k_register ctx logical kind k =
     (case res_register (k_spawn k) (cr_context ctx) (cr_instance ctx) logical (cr_generation ctx) kind (k_resources k) of
        (t, r) \<Rightarrow> (k\<lparr>k_resources := t\<rparr>, r))"

definition k_rollback_register :: "resource_handle \<Rightarrow> kernel \<Rightarrow> kernel" where
  "k_rollback_register h k = k\<lparr>k_resources := fst (res_rollback_register h (k_resources k))\<rparr>"

fun publish :: "string \<Rightarrow> context_record \<Rightarrow> resource_kind \<Rightarrow> kernel \<Rightarrow> kernel" where
  "publish logical ctx (Cap name) k = k\<lparr>k_caps := reg_provide_instance name (reference ctx) (k_caps k)\<rparr>"
| "publish logical ctx (Sub topic) k = k\<lparr>k_bus := bus_subscribe_instance logical (cr_instance ctx) topic (k_bus k)\<rparr>"
| "publish logical ctx _ k = k"

fun retract :: "instance_id \<Rightarrow> resource_kind \<Rightarrow> kernel \<Rightarrow> kernel" where
  "retract inst (Cap name) k = k\<lparr>k_caps := fst (reg_revoke_cap_if_owned name inst (k_caps k))\<rparr>"
| "retract inst (Sub topic) k = k\<lparr>k_bus := fst (bus_unsubscribe_topic_if_owned inst topic (k_bus k))\<rparr>"
| "retract inst _ k = k"

definition push_handle :: "string \<Rightarrow> context_record \<Rightarrow> resource_handle \<Rightarrow> kernel \<Rightarrow> kernel" where
  "push_handle logical ctx h k =
     k\<lparr>k_plugins := hm_modify logical (\<lambda>p.
         if pl_instance_id p = cr_instance ctx \<and> pl_generation p = cr_generation ctx
         then p\<lparr>pl_resources := pl_resources p @ [h]\<rparr> else p) (k_plugins k)\<rparr>"

fun acquire_refusal :: "context_error \<Rightarrow> string" where
  "acquire_refusal (NotActive logical state) = ''context-not-active''"
| "acquire_refusal (StaleGeneration logical expected got) = ''stale-generation''"
| "acquire_refusal _ = ''plugin-not-loaded''"

definition journal_rejected :: "string \<Rightarrow> context_record \<Rightarrow> resource_handle \<Rightarrow> resource_kind \<Rightarrow> kernel \<Rightarrow> kernel" where
  "journal_rejected logical ctx h kind =
     k_append logical ''resource.rejected''
       (JObj [(''handle'', j_nat h), (''kind'', JStr (rk_kind_name kind)), (''label'', JStr (rk_label kind)),
              (''instance'', j_nat (cr_instance ctx)), (''generation'', j_nat (cr_generation ctx)),
              (''reason'', JStr ''acquire-race'')])"

definition journal_acquired ::
  "string \<Rightarrow> context_record \<Rightarrow> resource_handle \<Rightarrow> resource_kind \<Rightarrow> (string \<times> json) list \<Rightarrow> kernel \<Rightarrow> kernel" where
  "journal_acquired logical ctx h kind extra =
     k_append logical ''resource.acquired''
       (JObj ([(''handle'', j_nat h), (''kind'', JStr (rk_kind_name kind)), (''label'', JStr (rk_label kind)),
              (''instance'', j_nat (cr_instance ctx)), (''context'', j_nat (cr_context ctx)),
              (''generation'', j_nat (cr_generation ctx))] @ extra))"

text \<open>The look at the activation after publication: \<open>None\<close> while it is still the active one.\<close>

definition acquire_stale :: "string \<Rightarrow> context_record \<Rightarrow> kernel \<Rightarrow> string option" where
  "acquire_stale logical ctx k =
     (case ctx_current (k_contexts k) logical of
        Some cur \<Rightarrow>
          if cr_instance cur = cr_instance ctx \<and> cr_generation cur = cr_generation ctx
          then (if canonical (cr_state cur) = Active then None else Some ''context-not-active'')
          else Some ''stale-generation''
      | None \<Rightarrow> Some ''plugin-not-loaded'')"

definition acquire_confirm ::
  "string \<Rightarrow> context_record \<Rightarrow> resource_kind \<Rightarrow> resource_handle \<Rightarrow> kernel \<Rightarrow> kernel \<times> (string, resource_handle) result" where
  "acquire_confirm logical ctx kind h k =
     (case acquire_stale logical ctx k of
        Some err \<Rightarrow>
          (let k1 = k_rollback_register h (retract (cr_instance ctx) kind k);
               k2 = k1\<lparr>k_plugins := hm_modify logical (\<lambda>p. p\<lparr>pl_resources := filter (\<lambda>x. x \<noteq> h) (pl_resources p)\<rparr>) (k_plugins k1)\<rparr>
           in (journal_rejected logical ctx h kind k2, Inl err))
      | None \<Rightarrow> (journal_acquired logical ctx h kind [] k, Inr h))"

definition acquire ::
  "interference \<Rightarrow> string \<Rightarrow> resource_kind \<Rightarrow> kernel \<Rightarrow> kernel \<times> (string, resource_handle) result" where
  "acquire env logical kind k =
     (case ctx_current (k_contexts k) logical of
        None \<Rightarrow> (k, Inl ''plugin-not-loaded'')
      | Some ctx \<Rightarrow>
          (case ctx_require_active (k_contexts k) (cr_instance ctx) of
             Inl e \<Rightarrow> (k, Inl (acquire_refusal e))
           | Inr _ \<Rightarrow>
               (case k_register ctx (cr_logical ctx) kind (env AcqChecked k) of
                  (k1, Inl e) \<Rightarrow> (k1, Inl (show_acquire_error e))
                | (k1, Inr h) \<Rightarrow>
                    acquire_confirm logical ctx kind h
                      (env AcqPublished (push_handle logical ctx h (publish (cr_logical ctx) ctx kind (env AcqRegistered k1)))))))"

definition acquire_external ::
  "interference \<Rightarrow> string \<Rightarrow> resource_kind \<Rightarrow> instance_id \<Rightarrow> nat \<Rightarrow> kernel \<Rightarrow> kernel \<times> (string, resource_handle) result" where
  "acquire_external env logical kind caller_instance caller_generation k =
     (case ctx_current (k_contexts k) logical of
        None \<Rightarrow> (k, Inl ''plugin-not-loaded'')
      | Some cur \<Rightarrow>
          if cr_instance cur \<noteq> caller_instance \<or> cr_generation cur \<noteq> caller_generation
          then (k, Inl ''stale-generation'')
          else (case ctx_require_active (k_contexts k) (cr_instance cur) of
             Inl e \<Rightarrow> (k, Inl (acquire_refusal e))
           | Inr _ \<Rightarrow>
               (case k_register cur (cr_logical cur) kind (env AcqChecked k) of
                  (k1, Inl e) \<Rightarrow> (k1, Inl (show_acquire_error e))
                | (k1, Inr h) \<Rightarrow>
                    if MAX_EXTERNAL_RESOURCES_PER_CONTEXT < res_active_for (k_resources k1) (cr_context cur)
                    then (k_rollback_register h k1, Inl ''resource-exhausted'')
                    else (let k2 = env AcqPublished (publish (cr_logical cur) cur kind (env AcqRegistered k1)) in
                          if acquire_stale logical cur k2 \<noteq> None
                          then (journal_rejected logical cur h kind
                                  (k_rollback_register h (retract (cr_instance cur) kind k2)), Inl ''stale-generation'')
                          else (journal_acquired logical cur h kind [(''external'', JBool True)]
                                  (push_handle logical cur h k2), Inr h)))))"

fun release_refusal :: "release_error \<Rightarrow> string" where
  "release_refusal (AlreadyReleased h) = ''already-released''"
| "release_refusal (UnknownHandle h) = ''unknown-handle''"
| "release_refusal (CleanupFailed h reason) = reason"

text \<open>\<open>begin_release\<close>, retraction of the publication and \<open>finish_release\<close>; the threads end outside the tables.\<close>

definition release_published ::
  "instance_id \<Rightarrow> resource_handle \<Rightarrow> kernel \<Rightarrow> kernel \<times> (release_error, unit) result" where
  "release_published inst h k =
     (case res_begin_release h (k_resources k) of
        (t, Inl e) \<Rightarrow> (k\<lparr>k_resources := t\<rparr>, Inl e)
      | (t, Inr claim) \<Rightarrow> (retract inst (rc_kind claim) (k\<lparr>k_resources := t\<rparr>), Inr ()))"

definition release :: "resource_handle \<Rightarrow> kernel \<Rightarrow> kernel \<times> (string, unit) result" where
  "release h k =
     (case res_record (k_resources k) h of
        None \<Rightarrow> (k, Inl ''unknown-handle'')
      | Some rec \<Rightarrow>
          if rr_state rec = RActive \<and> (\<exists>t \<in> set (calls_pending_for (k_calls k) (rr_owner_instance rec)). h \<in> set (tr_pins t))
          then (k, Inl ''resource-pinned'')
          else (case release_published (rr_owner_instance rec) h k of
                  (k1, Inl e) \<Rightarrow> (k1, Inl (release_refusal e))
                | (k1, Inr _) \<Rightarrow>
                    (k_append (rr_owner_logical rec) ''resource.released''
                       (JObj [(''handle'', j_nat h), (''instance'', j_nat (rr_owner_instance rec)),
                              (''generation'', j_nat (rr_generation rec))]) k1, Inr ())))"

definition release_all :: "resource_handle list \<Rightarrow> kernel \<Rightarrow> kernel" where
  "release_all hs k = fold (\<lambda>h k. fst (release h k)) (rev hs) k"

fun acquire_each ::
  "interference \<Rightarrow> string \<Rightarrow> resource_handle list \<Rightarrow> resource_kind list \<Rightarrow> kernel \<Rightarrow>
     kernel \<times> (string, resource_handle list) result" where
  "acquire_each env logical out [] k = (k, Inr out)"
| "acquire_each env logical out (kd # kds) k =
     (case acquire env logical kd k of
        (k1, Inr h) \<Rightarrow> acquire_each env logical (out @ [h]) kds k1
      | (k1, Inl e) \<Rightarrow> (release_all out k1, Inl e))"

definition acquire_batch ::
  "interference \<Rightarrow> string \<Rightarrow> resource_kind list \<Rightarrow> kernel \<Rightarrow> kernel \<times> (string, resource_handle list) result" where
  "acquire_batch env logical kinds k = acquire_each env logical [] kinds k"

fun handle_refusal :: "release_error \<Rightarrow> string" where
  "handle_refusal (AlreadyReleased h) = ''stale-handle''"
| "handle_refusal (UnknownHandle h) = ''unknown-handle''"
| "handle_refusal (CleanupFailed h reason) = reason"

definition validate_handle :: "resource_handle \<Rightarrow> string \<Rightarrow> kernel \<Rightarrow> (string, unit) result" where
  "validate_handle h logical k =
     (case ctx_current (k_contexts k) logical of
        None \<Rightarrow> Inl ''plugin-not-loaded''
      | Some cur \<Rightarrow>
          (case res_validate (k_resources k) h (cr_instance cur) (cr_generation cur) of
             Inl e \<Rightarrow> Inl (handle_refusal e)
           | Inr _ \<Rightarrow> Inr ()))"

end
