(* ===== verification/Mx_Lifecycle.thy ===== *)
theory Mx_Lifecycle
  imports Mx_Kernel
begin

text \<open>
  The lifecycle of activations (\<open>kernel.rs\<close>): resolving requirements, waiting, activating,
  withdrawing, disposing and the reconciliation engine that drives them.

  Disposal ends with a second look for the tickets of the instance and finalises it when they
  have gone in between; finalising reconciles, and reconciling disposes. The disposal takes
  the finalisation as the argument \<open>fin\<close>, and \<open>maybe_finalize\<close> ties the knot to a depth of
  nested finalisations: each level stands for a call that another thread closed in the window
  \<open>Parked\<close>, and without such a call the depth has no influence.
\<close>

subsection \<open>Remote providers and opaque bindings\<close>

definition dependency_bindings_of :: "kernel \<Rightarrow> string \<Rightarrow> dep_binding list" where
  "dependency_bindings_of k logical =
     (case ctx_current (k_contexts k) logical of
        None \<Rightarrow> []
      | Some cur \<Rightarrow> filter (\<lambda>b. db_consumer_logical b = logical \<and> db_consumer_instance b = cr_instance cur \<and>
                                db_consumer_generation b = cr_generation cur) (hm_values (k_dep_bindings k)))"

definition remote_provider_of :: "kernel \<Rightarrow> string \<Rightarrow> remote_provider option" where
  "remote_provider_of k logical = hm_get (k_remote_providers k) logical"

definition remote_providers_of_peer :: "kernel \<Rightarrow> string \<Rightarrow> string list" where
  "remote_providers_of_peer k peer =
     map rp_logical (filter (\<lambda>r. rp_peer r = peer) (hm_values (k_remote_providers k)))"

definition remote_state :: "kernel \<Rightarrow> string \<Rightarrow> context_record option" where
  "remote_state k logical =
     (case hm_get (k_remote_providers k) logical of
        None \<Rightarrow> None
      | Some reg \<Rightarrow>
          if \<not> hm_contains (k_definitions k) logical then None
          else Some \<lparr>cr_context = 2 ^ 64 - 1, cr_instance = rp_instance reg, cr_logical = rp_logical reg,
                     cr_generation = rp_generation reg, cr_epoch = epoch k, cr_state = Active,
                     cr_parent = None, cr_cause = None\<rparr>)"

definition current_all_merged :: "kernel \<Rightarrow> (string, context_record) hmap" where
  "current_all_merged k =
     fold (\<lambda>logical states. case remote_state k logical of
             Some rec \<Rightarrow> hm_insert logical rec states
           | None \<Rightarrow> states)
       (hm_keys (k_remote_providers k)) (ctx_current_all (k_contexts k))"

definition binding_capability :: "(string, stored_manifest) hmap \<Rightarrow> binding \<Rightarrow> string option" where
  "binding_capability defs b =
     Option.bind (hm_get defs (bd_provider_logical b)) (\<lambda>d.
       case split_cap (bd_interface b) of (base, major) \<Rightarrow>
         find (\<lambda>c. cap_satisfies c \<lparr>rq_interface = bd_interface b, rq_base = base, rq_major = major,
                                    rq_provider = Some (bd_provider_logical b)\<rparr>) (sm_caps d))"

definition is_remote_def :: "(string, stored_manifest) hmap \<Rightarrow> string \<Rightarrow> bool" where
  "is_remote_def defs logical = (case hm_get defs logical of None \<Rightarrow> False | Some d \<Rightarrow> sm_remote d)"

definition issue_binding ::
  "string \<Rightarrow> context_record \<Rightarrow> binding \<Rightarrow> kernel \<Rightarrow> kernel" where
  "issue_binding logical cur b k =
     (case binding_capability (k_definitions k) b of
        None \<Rightarrow> k
      | Some capability \<Rightarrow>
          (let n = k_dep_seq k;
               i = (if is_remote_def (k_definitions k) (bd_provider_logical b) then ''rb-'' else ''bind-'') @ show_nat n
           in k\<lparr>k_dep_seq := n + 1,
                k_dep_bindings := hm_insert i
                  \<lparr>db_id = i, db_consumer_logical = logical, db_consumer_instance = cr_instance cur,
                   db_consumer_generation = cr_generation cur, db_consumer_context = cr_context cur,
                   db_interface = bd_interface b, db_capability = capability,
                   db_provider_logical = bd_provider_logical b, db_provider_instance = bd_provider_instance b,
                   db_provider_generation = bd_provider_generation b\<rparr> (k_dep_bindings k)\<rparr>))"

definition issue_dep_bindings :: "string \<Rightarrow> instance_id \<Rightarrow> nat \<Rightarrow> binding list \<Rightarrow> kernel \<Rightarrow> kernel" where
  "issue_dep_bindings logical inst gen bindings k =
     (case ctx_get_by_instance (k_contexts k) inst of
        None \<Rightarrow> k
      | Some cur \<Rightarrow>
          if cr_logical cur \<noteq> logical \<or> cr_generation cur \<noteq> gen then k
          else fold (issue_binding logical cur) bindings
                 (k\<lparr>k_dep_bindings := hm_retain (\<lambda>_ b. db_consumer_instance b \<noteq> inst) (k_dep_bindings k)\<rparr>))"

definition prune_dep_bindings :: "instance_id \<Rightarrow> kernel \<Rightarrow> kernel" where
  "prune_dep_bindings inst k =
     k\<lparr>k_dep_bindings := hm_retain (\<lambda>_ b. db_consumer_instance b \<noteq> inst \<and>
         (hm_contains (k_remote_providers k) (db_provider_logical b) \<or> db_provider_instance b \<noteq> inst)) (k_dep_bindings k)\<rparr>"

definition drop_provider_bindings :: "string \<Rightarrow> kernel \<Rightarrow> kernel" where
  "drop_provider_bindings logical k =
     k\<lparr>k_dep_bindings := hm_retain (\<lambda>_ b. db_provider_logical b \<noteq> logical) (k_dep_bindings k)\<rparr>"

text \<open>A registration that goes away with its bindings; nothing happens when there is none.\<close>

definition drop_remote :: "string \<Rightarrow> json \<Rightarrow> kernel \<Rightarrow> kernel \<times> bool" where
  "drop_remote logical args k =
     (if hm_contains (k_remote_providers k) logical
      then (k_append logical ''remote.unregistered'' args
              (drop_provider_bindings logical (k\<lparr>k_remote_providers := hm_remove logical (k_remote_providers k)\<rparr>)), True)
      else (k, False))"

subsection \<open>Resolving requirements\<close>

definition bind_provider :: "string \<Rightarrow> string \<Rightarrow> context_record option \<Rightarrow> (resolve_error, binding) result" where
  "bind_provider iface p st =
     (case st of
        None \<Rightarrow> Inl (ProviderNotActive iface p ''unknown'')
      | Some r \<Rightarrow>
          if canonical (cr_state r) \<noteq> Active
          then Inl (ProviderNotActive iface p
                 (case cr_cause r of None \<Rightarrow> fsm_as_str (cr_state r)
                  | Some c \<Rightarrow> fsm_as_str (cr_state r) @ '' ('' @ c @ '')''))
          else Inr \<lparr>bd_interface = iface, bd_provider_logical = p, bd_provider_instance = cr_instance r,
                    bd_provider_generation = cr_generation r\<rparr>)"

definition resolve_req ::
  "(string, stored_manifest) hmap \<Rightarrow> (string, context_record) hmap \<Rightarrow> requirement \<Rightarrow> (resolve_error, binding) result" where
  "resolve_req defs states req =
     (case rq_provider req of
        Some want \<Rightarrow>
          (case hm_get defs want of
             None \<Rightarrow> Inl (UnknownProvider (rq_interface req) want)
           | Some pdef \<Rightarrow>
               if \<not> (\<exists>c \<in> set (sm_caps pdef). cap_satisfies c req)
               then Inl (VersionMismatch (rq_interface req) want (want @ '' provides ['' @ join '', '' (sm_caps pdef) @ '']''))
               else bind_provider (rq_interface req) want (hm_get states want))
      | None \<Rightarrow>
          (case provider_candidates req (provides_of defs) of
             [] \<Rightarrow> Inl (Missing (rq_interface req))
           | [p] \<Rightarrow> bind_provider (rq_interface req) p (hm_get states p)
           | cands \<Rightarrow> Inl (Ambiguous (rq_interface req) (sort cands))))"

definition resolve_for ::
  "string \<Rightarrow> (string, stored_manifest) hmap \<Rightarrow> (string, context_record) hmap \<Rightarrow> string set \<Rightarrow> string list \<Rightarrow>
     (resolve_error, binding list) result" where
  "resolve_for logical defs states cycle_members cycle_path =
     (if logical \<in> cycle_members then Inl (Cycle cycle_path)
      else case hm_get defs logical of
             None \<Rightarrow> Inl (Missing logical)
           | Some def \<Rightarrow>
               if sm_requires def = [] then Inr []
               else collect_results (resolve_req defs states) (sm_requires def))"

definition binding_valid :: "(string, context_record) hmap \<Rightarrow> binding \<Rightarrow> bool" where
  "binding_valid states b =
     (case hm_get states (bd_provider_logical b) of
        Some st \<Rightarrow> canonical (cr_state st) = Active \<and> cr_instance st = bd_provider_instance b \<and>
                   cr_generation st = bd_provider_generation b
      | None \<Rightarrow> False)"

definition bindings_stale :: "kernel \<Rightarrow> string \<Rightarrow> (string, context_record) hmap \<Rightarrow> bool" where
  "bindings_stale k logical states = (\<not> (\<forall>b \<in> set (bindings_of k logical). binding_valid states b))"

subsection \<open>Waiting\<close>

definition initial_json_state :: "string \<Rightarrow> json \<Rightarrow> json" where
  "initial_json_state reducer init_state =
     (if reducer = ''counter'' then JObj [(''state'', JInt 0)]
      else if reducer = ''clock'' then JObj [(''count'', JInt 0)]
      else init_state)"

text \<open>The entry of an activation of a definition.\<close>

definition plugin_of ::
  "stored_manifest \<Rightarrow> context_record \<Rightarrow> fsm \<Rightarrow> binding list \<Rightarrow> string option \<Rightarrow> json \<Rightarrow> resource_handle list \<Rightarrow> plugin" where
  "plugin_of def ctx st bindings cause json_state res =
     \<lparr>pl_id = sm_id def, pl_state = st, pl_tier = sm_tier def, pl_trust = sm_trust def,
      pl_generation = cr_generation ctx, pl_restart_policy = sm_restart def, pl_caps = sm_caps def,
      pl_subs = sm_subs def, pl_requires = sm_requires def, pl_bindings = bindings, pl_calls = sm_calls def,
      pl_execution = sm_execution def, pl_wait_cause = cause, pl_reducer = sm_reducer def,
      pl_init_state = sm_init_state def, pl_json_state = json_state, pl_leases = [], pl_panic_count = 0,
      pl_restart_times = [], pl_instance_id = cr_instance ctx, pl_context_id = cr_context ctx,
      pl_epoch = cr_epoch ctx, pl_resources = res\<rparr>"

definition waiting_plugin :: "stored_manifest \<Rightarrow> context_record \<Rightarrow> string \<Rightarrow> plugin" where
  "waiting_plugin def ctx reason =
     plugin_of def ctx Waiting [] (Some reason) (initial_json_state (sm_reducer def) (sm_init_state def)) []"

definition create_waiting_instance :: "stored_manifest \<Rightarrow> string \<Rightarrow> kernel \<Rightarrow> kernel \<times> context_record" where
  "create_waiting_instance def reason k =
     (case ctx_create_waiting (sm_id def) reason (k_contexts k) of
        (cs, ctx) \<Rightarrow>
          (k_append (sm_id def) ''plugin.waiting''
             (JObj [(''id'', JStr (sm_id def)), (''instance'', j_nat (cr_instance ctx)), (''context'', j_nat (cr_context ctx)),
                    (''generation'', j_nat (cr_generation ctx)), (''reason'', JStr reason),
                    (''requires'', JArr (map (\<lambda>r. JStr (rq_interface r)) (sm_requires def)))])
             (k\<lparr>k_contexts := cs,
                k_plugins := hm_insert (sm_id def) (waiting_plugin def ctx reason) (k_plugins k)\<rparr>), ctx))"

definition refresh_waiting :: "string \<Rightarrow> stored_manifest \<Rightarrow> context_record \<Rightarrow> string \<Rightarrow> kernel \<Rightarrow> kernel \<times> bool" where
  "refresh_waiting logical def st reason k =
     (if cr_cause st = Some reason then
        (let changed = (case hm_get (k_plugins k) logical of
                          Some p \<Rightarrow> canonical (pl_state p) \<noteq> Waiting \<or> pl_wait_cause p \<noteq> Some reason
                        | None \<Rightarrow> True)
         in if changed
            then (k\<lparr>k_plugins := hm_insert logical (waiting_plugin def st reason) (k_plugins k)\<rparr>, True)
            else (k, False))
      else
        (k_append logical ''plugin.waiting''
           (JObj [(''id'', JStr logical), (''instance'', j_nat (cr_instance st)),
                  (''generation'', j_nat (cr_generation st)), (''reason'', JStr reason)])
           (k\<lparr>k_contexts := fst (ctx_mark_waiting (cr_instance st) reason (k_contexts k)),
              k_plugins := hm_modify logical (\<lambda>p. p\<lparr>pl_state := Waiting, pl_wait_cause := Some reason\<rparr>) (k_plugins k)\<rparr>),
         True))"

definition ensure_waiting ::
  "string \<Rightarrow> (string, stored_manifest) hmap \<Rightarrow> string \<Rightarrow> kernel \<Rightarrow> kernel \<times> bool" where
  "ensure_waiting logical defs reason k =
     (case hm_get defs logical of
        None \<Rightarrow> (k, False)
      | Some def \<Rightarrow>
          (case ctx_current (k_contexts k) logical of
             None \<Rightarrow> (fst (create_waiting_instance def reason k), True)
           | Some st \<Rightarrow>
               (case canonical (cr_state st) of
                  Waiting \<Rightarrow> refresh_waiting logical def st reason k
                | Preparing \<Rightarrow> refresh_waiting logical def st reason k
                | Registered \<Rightarrow> refresh_waiting logical def st reason k
                | Disposed \<Rightarrow> (fst (create_waiting_instance def reason k), True)
                | _ \<Rightarrow> (k, False))))"

subsection \<open>Disposal\<close>

definition dep_release :: "string \<Rightarrow> kernel \<Rightarrow> kernel" where
  "dep_release session k =
     (let u = k_dep_usage k;
          per = (case hm_get (du_per_session u) session of
                   None \<Rightarrow> du_per_session u
                 | Some c \<Rightarrow> if c - 1 = 0 then hm_remove session (du_per_session u)
                             else hm_insert session (c - 1) (du_per_session u))
      in k\<lparr>k_dep_usage := \<lparr>du_per_session = per, du_global = du_global u - 1\<rparr>\<rparr>)"

definition journal_cancelled :: "string \<Rightarrow> ticket_record list \<Rightarrow> kernel \<Rightarrow> kernel" where
  "journal_cancelled reason ts k =
     fold (\<lambda>t. k_append (tr_logical t) ''call.cancelled''
                 (JObj [(''ticket'', j_nat (tr_id t)), (''reason'', JStr reason)])) ts k"

definition revoke_ticket_descendants :: "ticket_id \<Rightarrow> string \<Rightarrow> kernel \<Rightarrow> kernel" where
  "revoke_ticket_descendants parent reason k =
     (case calls_revoke_descendants parent reason (k_calls k) of
        (c, ts) \<Rightarrow> journal_cancelled reason ts (k\<lparr>k_calls := c\<rparr>))"

definition mark_plugin :: "string \<Rightarrow> instance_id \<Rightarrow> (plugin \<Rightarrow> plugin) \<Rightarrow> kernel \<Rightarrow> kernel" where
  "mark_plugin logical inst f k =
     k\<lparr>k_plugins := hm_modify logical (\<lambda>p. if pl_instance_id p = inst then f p else p) (k_plugins k)\<rparr>"

text \<open>One handle of \<open>release_context_resources\<close>, with the failure it adds.\<close>

definition release_one :: "context_record \<Rightarrow> resource_handle \<Rightarrow> kernel \<times> string list \<Rightarrow> kernel \<times> string list" where
  "release_one rec h s =
     (case s of (k, failures) \<Rightarrow>
        (case res_record (k_resources k) h of
           None \<Rightarrow> (k, failures)
         | Some rr \<Rightarrow>
             if rr_state rr \<noteq> RActive \<or> rr_owner_context rr \<noteq> cr_context rec then (k, failures)
             else (case release_published (cr_instance rec) h k of
                     (k1, Inl (CleanupFailed _ reason)) \<Rightarrow> (k1, failures @ [reason])
                   | (k1, _) \<Rightarrow> (k1, failures))))"

definition release_context_resources :: "context_record \<Rightarrow> kernel \<Rightarrow> kernel \<times> string list" where
  "release_context_resources rec k =
     fold (release_one rec) (rev (res_handles_for (k_resources k) (cr_context rec))) (k, [])"

text \<open>Step by step: the publications are revoked at once.\<close>

definition revoke_publication :: "context_record \<Rightarrow> resource_handle \<Rightarrow> kernel \<Rightarrow> kernel" where
  "revoke_publication rec h k =
     (case res_record (k_resources k) h of
        None \<Rightarrow> k
      | Some rr \<Rightarrow> if rr_owner_context rr \<noteq> cr_context rec then k
                  else retract (cr_instance rec) (rr_kind rr) k)"

definition revoke_publications :: "context_record \<Rightarrow> kernel \<Rightarrow> kernel" where
  "revoke_publications rec k = fold (revoke_publication rec) (res_handles_for (k_resources k) (cr_context rec)) k"

text \<open>The calls of the instance are cancelled or told their deadline.\<close>

definition withdraw_call :: "string \<Rightarrow> ticket_record \<Rightarrow> kernel \<times> nat option \<Rightarrow> kernel \<times> nat option" where
  "withdraw_call logical t s =
     (case s of (k, drain_until) \<Rightarrow>
        (case cp_on_withdraw (tr_policy t) of
           Cancel \<Rightarrow>
             (case calls_cancel (tr_id t) ''withdraw'' (k_calls k) of
                (c, True) \<Rightarrow> (k_append logical ''call.cancelled''
                               (JObj [(''ticket'', j_nat (tr_id t)), (''reason'', JStr ''withdraw'')]) (k\<lparr>k_calls := c\<rparr>), drain_until)
              | (c, False) \<Rightarrow> (k\<lparr>k_calls := c\<rparr>, drain_until))
         | Drain \<Rightarrow>
             (let until = k_now k + from_millis (cp_drain_ms (tr_policy t))
              in (k_append logical ''call.draining''
                    (JObj [(''ticket'', j_nat (tr_id t)), (''drain_ms'', j_nat (cp_drain_ms (tr_policy t)))])
                    (k\<lparr>k_calls := fst (calls_set_drain_until (tr_id t) until (k_calls k))\<rparr>),
                  Some (case drain_until of None \<Rightarrow> until | Some u \<Rightarrow> max u until)))))"

definition withdraw_calls :: "context_record \<Rightarrow> kernel \<Rightarrow> kernel \<times> nat option" where
  "withdraw_calls rec k =
     fold (withdraw_call (cr_logical rec)) (calls_pending_for (k_calls k) (cr_instance rec)) (k, None)"

definition dispose_quiesce :: "context_record \<Rightarrow> kernel \<Rightarrow> kernel \<times> nat option" where
  "dispose_quiesce rec k =
     withdraw_calls rec
       (revoke_publications rec
         (emit_hook (EvWithdrawn (cr_logical rec) (cr_instance rec) (cr_generation rec))
           (prune_dep_bindings (cr_instance rec)
             (mark_plugin (cr_logical rec) (cr_instance rec) (\<lambda>p. p\<lparr>pl_state := Quiescing\<rparr>) k))))"

definition drain_wait :: "interference \<Rightarrow> nat option \<Rightarrow> kernel \<Rightarrow> kernel" where
  "drain_wait env drain_until k =
     (case drain_until of
        None \<Rightarrow> k
      | Some until \<Rightarrow> if k_now k < until then env DrainWait k else k)"

definition expire_call :: "string \<Rightarrow> ticket_id \<Rightarrow> kernel \<Rightarrow> kernel" where
  "expire_call logical i k =
     revoke_ticket_descendants i ''parent-expired''
       (k_append logical ''call.expired''
          (JObj [(''ticket'', j_nat i), (''reason'', JStr ''drain-exceeded'')]) k)"

text \<open>After the drain the children of the consumer lose their authority and overdue drains expire.\<close>

definition dispose_expire :: "context_record \<Rightarrow> kernel \<Rightarrow> kernel" where
  "dispose_expire rec k =
     (case calls_revoke_children_of_consumer (cr_instance rec) ''consumer-withdraw'' (k_calls k) of
        (c1, ts) \<Rightarrow>
          (let k1 = journal_cancelled ''consumer-withdraw'' ts (k\<lparr>k_calls := c1\<rparr>) in
           case calls_expire_overdue (k_now k1) (k_calls k1) of
             (c2, ids) \<Rightarrow> fold (expire_call (cr_logical rec)) ids (k1\<lparr>k_calls := c2\<rparr>)))"

definition show_ids :: "nat list \<Rightarrow> string" where
  "show_ids ids = ''['' @ join '', '' (map show_nat ids) @ '']''"

definition inflight_cause :: "kernel \<Rightarrow> instance_id \<Rightarrow> string" where
  "inflight_cause k inst =
     INFLIGHT_CAUSE_PREFIX @ show_ids (sort (map tr_id (calls_pending_for (k_calls k) inst)))"

definition pend_cleanup :: "context_record \<Rightarrow> string \<Rightarrow> kernel \<Rightarrow> kernel" where
  "pend_cleanup rec reason k =
     k_append (cr_logical rec) ''plugin.cleanup_pending''
       (JObj [(''id'', JStr (cr_logical rec)), (''instance'', j_nat (cr_instance rec)),
              (''generation'', j_nat (cr_generation rec)), (''reason'', JStr reason)])
       (mark_plugin (cr_logical rec) (cr_instance rec) (\<lambda>p. p\<lparr>pl_state := CleanupPending\<rparr>)
         (k\<lparr>k_contexts := ctx_mark_cleanup_pending (cr_instance rec) reason (k_contexts k)\<rparr>))"

text \<open>Work is still in flight: the instance is parked, and looked at again.\<close>

definition dispose_park ::
  "(instance_id \<Rightarrow> kernel \<Rightarrow> kernel) \<Rightarrow> interference \<Rightarrow> context_record \<Rightarrow> kernel \<Rightarrow> kernel \<times> dispose_outcome" where
  "dispose_park fin env rec k =
     (let inst = cr_instance rec;
          reason = inflight_cause k inst;
          k1 = env Parked (pend_cleanup rec reason k);
          k2 = (if calls_pending_count (k_calls k1) inst = 0 then fin inst k1 else k1)
      in (k2, case ctx_get_by_instance (k_contexts k2) inst of
                Some r \<Rightarrow> if canonical (cr_state r) = Disposed then ODisposed
                          else OCleanupPending (opt_or (cr_cause r) reason)
              | None \<Rightarrow> OCleanupPending reason))"

definition unload :: "context_record \<Rightarrow> (string \<times> json) list \<Rightarrow> kernel \<Rightarrow> kernel" where
  "unload rec extra k =
     k_append (cr_logical rec) ''plugin.unloaded''
       (JObj ([(''id'', JStr (cr_logical rec)), (''instance'', j_nat (cr_instance rec)),
              (''context'', j_nat (cr_context rec)), (''generation'', j_nat (cr_generation rec))] @ extra))
       (mark_plugin (cr_logical rec) (cr_instance rec) (\<lambda>p. p\<lparr>pl_state := Disposed, pl_leases := []\<rparr>)
         (k\<lparr>k_contexts := ctx_mark_disposed (cr_instance rec) (k_contexts k)\<rparr>))"

definition dispose_settle :: "context_record \<Rightarrow> kernel \<Rightarrow> kernel \<times> dispose_outcome" where
  "dispose_settle rec k =
     (case release_context_resources rec k of
        (k1, failures) \<Rightarrow>
          if failures = [] then (unload rec [] k1, ODisposed)
          else (pend_cleanup rec (join ''; '' failures) k1, OCleanupPending (join ''; '' failures)))"

definition dispose_claimed ::
  "(instance_id \<Rightarrow> kernel \<Rightarrow> kernel) \<Rightarrow> interference \<Rightarrow> context_record \<Rightarrow> kernel \<Rightarrow> kernel \<times> dispose_outcome" where
  "dispose_claimed fin env rec k =
     (case dispose_quiesce rec k of
        (k1, drain_until) \<Rightarrow>
          (let k2 = dispose_expire rec (drain_wait env drain_until k1) in
           if 0 < calls_pending_count (k_calls k2) (cr_instance rec)
           then dispose_park fin env rec k2
           else dispose_settle rec k2))"

definition dispose_instance_inner ::
  "(instance_id \<Rightarrow> kernel \<Rightarrow> kernel) \<Rightarrow> interference \<Rightarrow> instance_id \<Rightarrow> kernel \<Rightarrow> kernel \<times> dispose_outcome" where
  "dispose_instance_inner fin env inst k =
     (case ctx_get_by_instance (k_contexts k) inst of
        None \<Rightarrow> (k, OAlreadyDisposed)
      | Some rec0 \<Rightarrow>
          if canonical (cr_state rec0) \<in> {Disposed, Failed} then (k, OAlreadyDisposed)
          else if canonical (cr_state rec0) = CleanupPending
          then (k, OCleanupPending (opt_or (cr_cause rec0) ''cleanup pending''))
          else (case ctx_claim_dispose inst (k_contexts k) of
                  (cs, Inr (Fresh rec)) \<Rightarrow> dispose_claimed fin env rec (k\<lparr>k_contexts := cs\<rparr>)
                | (cs, Inr (InFlight _)) \<Rightarrow> (k\<lparr>k_contexts := cs\<rparr>, OCleanupPending ''dispose in progress'')
                | (cs, Inl _) \<Rightarrow> (k\<lparr>k_contexts := cs\<rparr>, OAlreadyDisposed)))"

definition withdraw_to_waiting ::
  "(instance_id \<Rightarrow> kernel \<Rightarrow> kernel) \<Rightarrow> interference \<Rightarrow> string \<Rightarrow> (string, stored_manifest) hmap \<Rightarrow> string \<Rightarrow> kernel \<Rightarrow>
     kernel \<times> bool" where
  "withdraw_to_waiting fin env logical defs reason k =
     (case hm_get defs logical of
        None \<Rightarrow> (k, False)
      | Some def \<Rightarrow>
          (case ctx_current (k_contexts k) logical of
             None \<Rightarrow> (fst (create_waiting_instance def reason k), True)
           | Some st \<Rightarrow>
               if canonical (cr_state st) \<in> {Active, Preparing, Registered}
               then (fst (create_waiting_instance def reason
                            (fst (dispose_instance_inner fin env (cr_instance st) k))), True)
               else if canonical (cr_state st) = Waiting then ensure_waiting logical defs reason k
               else if canonical (cr_state st) = Disposed
               then (fst (create_waiting_instance def reason k), True)
               else (k, False)))"

subsection \<open>Activation\<close>

definition rollback_acquired :: "instance_id \<Rightarrow> resource_handle list \<Rightarrow> kernel \<Rightarrow> kernel" where
  "rollback_acquired inst acquired k = fold (\<lambda>h k. fst (release_published inst h k)) (rev acquired) k"

fun acquire_kinds ::
  "context_record \<Rightarrow> string \<Rightarrow> resource_handle list \<Rightarrow> resource_kind list \<Rightarrow> kernel \<Rightarrow>
     kernel \<times> (string, resource_handle list) result" where
  "acquire_kinds ctx i acquired [] k = (k, Inr acquired)"
| "acquire_kinds ctx i acquired (kd # kds) k =
     (case k_register ctx i kd k of
        (k1, Inr h) \<Rightarrow> acquire_kinds ctx i (acquired @ [h]) kds (publish i ctx kd k1)
      | (k1, Inl e) \<Rightarrow> (rollback_acquired (cr_instance ctx) acquired k1, Inl (show_acquire_error e)))"

definition acquire_definition_resources ::
  "context_record \<Rightarrow> stored_manifest \<Rightarrow> kernel \<Rightarrow> kernel \<times> (string, resource_handle list) result" where
  "acquire_definition_resources ctx def k =
     acquire_kinds ctx (sm_id def) [] (map Cap (sm_caps def) @ map Sub (sm_subs def)) k"

definition binding_json :: "binding \<Rightarrow> json" where
  "binding_json b = JObj [(''interface'', JStr (bd_interface b)), (''provider'', JStr (bd_provider_logical b)),
     (''instance'', j_nat (bd_provider_instance b)), (''generation'', j_nat (bd_provider_generation b))]"

definition announce_active :: "string \<Rightarrow> context_record \<Rightarrow> binding list \<Rightarrow> kernel \<Rightarrow> kernel" where
  "announce_active logical ctx bindings k =
     issue_dep_bindings logical (cr_instance ctx) (cr_generation ctx) bindings
       (emit_activated logical (cr_instance ctx) (cr_generation ctx)
         (k_append logical ''plugin.active''
            (JObj [(''id'', JStr logical), (''instance'', j_nat (cr_instance ctx)), (''generation'', j_nat (cr_generation ctx)),
                   (''bindings'', JArr (map binding_json bindings))]) k))"

definition promote_commit ::
  "string \<Rightarrow> context_record \<Rightarrow> binding list \<Rightarrow> resource_handle list \<Rightarrow> kernel \<Rightarrow> kernel \<times> bool" where
  "promote_commit logical st bindings acquired k =
     (case hm_get (k_plugins k) logical of
        None \<Rightarrow> (rollback_acquired (cr_instance st) acquired k, False)
      | Some p \<Rightarrow>
          if pl_instance_id p \<noteq> cr_instance st then (rollback_acquired (cr_instance st) acquired k, False)
          else (let k1 = k\<lparr>k_plugins := hm_modify logical (\<lambda>p. p\<lparr>pl_state := Active, pl_bindings := bindings,
                             pl_wait_cause := None, pl_resources := acquired\<rparr>) (k_plugins k)\<rparr>
                in case ctx_mark_active (cr_instance st) (k_contexts k1) of
                     (cs, False) \<Rightarrow> (k1\<lparr>k_contexts := cs\<rparr>, False)
                   | (cs, True) \<Rightarrow> (announce_active logical st bindings (k1\<lparr>k_contexts := cs\<rparr>), True)))"

definition promote_waiting :: "string \<Rightarrow> stored_manifest \<Rightarrow> kernel \<Rightarrow> kernel \<times> bool" where
  "promote_waiting logical def k =
     (case ctx_current (k_contexts k) logical of
        None \<Rightarrow> (k, False)
      | Some st \<Rightarrow>
          if canonical (cr_state st) \<notin> {Waiting, Preparing, Registered} then (k, False)
          else (case resolve_for logical (k_definitions k) (current_all_merged k) {} [] of
                  Inl e \<Rightarrow> (fst (ensure_waiting logical (k_definitions k) (show_resolve_error e) k), False)
                | Inr bindings \<Rightarrow>
                    (case acquire_definition_resources st def k of
                       (k1, Inl e) \<Rightarrow> (fst (ensure_waiting logical (k_definitions k) (''acquire failed: '' @ e) k1), False)
                     | (k1, Inr acquired) \<Rightarrow> promote_commit logical st bindings acquired k1)))"

definition create_active ::
  "(instance_id \<Rightarrow> kernel \<Rightarrow> kernel) \<Rightarrow> interference \<Rightarrow> stored_manifest \<Rightarrow> binding list \<Rightarrow> json \<Rightarrow> kernel \<Rightarrow> kernel \<times> bool" where
  "create_active fin env def bindings json_state k =
     (case ctx_create (sm_id def) (k_contexts k) of
        (cs, ctx) \<Rightarrow>
          (case acquire_definition_resources ctx def (k\<lparr>k_contexts := cs\<rparr>) of
             (k1, Inr acquired) \<Rightarrow>
               (announce_active (sm_id def) ctx bindings
                  (k1\<lparr>k_plugins := hm_insert (sm_id def) (plugin_of def ctx Active bindings None json_state acquired) (k_plugins k1)\<rparr>), True)
           | (k1, Inl e) \<Rightarrow>
               (let k2 = fst (dispose_instance_inner fin env (cr_instance ctx) k1)
                in (fst (ensure_waiting (sm_id def) (k_definitions k2) (''acquire failed: '' @ e) k2), False))))"

definition preserved_json_state :: "kernel \<Rightarrow> string \<Rightarrow> stored_manifest \<Rightarrow> json \<Rightarrow> json" where
  "preserved_json_state k logical def fresh =
     (case map_option pl_json_state (hm_get (k_plugins k) logical) of
        None \<Rightarrow> fresh
      | Some s \<Rightarrow>
          if sm_reducer def = ''counter'' \<and> j_get s ''state'' \<noteq> None then s
          else if sm_reducer def = ''clock'' \<and> j_get s ''count'' \<noteq> None then s
          else fresh)"

end
