(* ===== verification/Mx_Reconcile.thy ===== *)
theory Mx_Reconcile
  imports Mx_Lifecycle
begin

text \<open>
  The reconciliation engine (\<open>kernel.rs\<close>) and the operations that end with it: withdrawing
  consumers before providers and activating providers before consumers until nothing
  changes, finalising a parked instance, the ends of a ticket, loading, reloading and
  removing definitions, and the registration of remote providers.
\<close>

subsection \<open>One step\<close>

definition stale_remotes :: "kernel \<Rightarrow> string list" where
  "stale_remotes k = filter (\<lambda>l. \<not> is_remote_def (k_definitions k) l) (hm_keys (k_remote_providers k))"

definition drop_stale_remotes :: "string list \<Rightarrow> kernel \<Rightarrow> kernel" where
  "drop_stale_remotes stale k =
     fold (\<lambda>l k. fst (drop_remote l (JObj [(''reason'', JStr ''definition-gone'')]) k)) stale k"

definition kernel_edges :: "(string, stored_manifest) hmap \<Rightarrow> edges" where
  "kernel_edges defs = graph_edges (requires_of defs) (provides_of defs)"

text \<open>The loops of a step stop or go on with a flag; each iteration answers whether it changed something.\<close>

fun any_change :: "('a \<Rightarrow> kernel \<Rightarrow> kernel \<times> bool) \<Rightarrow> 'a list \<Rightarrow> kernel \<Rightarrow> kernel \<times> bool" where
  "any_change f [] k = (k, False)"
| "any_change f (x # xs) k =
     (case f x k of (k1, b) \<Rightarrow> (case any_change f xs k1 of (k2, c) \<Rightarrow> (k2, b \<or> c)))"

fun first_change :: "('a \<Rightarrow> kernel \<Rightarrow> kernel \<times> bool) \<Rightarrow> 'a list \<Rightarrow> kernel \<Rightarrow> kernel \<times> bool" where
  "first_change f [] k = (k, False)"
| "first_change f (x # xs) k =
     (case f x k of (k1, b) \<Rightarrow> if b then (k1, True) else first_change f xs k1)"

definition cycle_member ::
  "(instance_id \<Rightarrow> kernel \<Rightarrow> kernel) \<Rightarrow> interference \<Rightarrow> (string, stored_manifest) hmap \<Rightarrow> string list \<Rightarrow> string \<Rightarrow> kernel \<Rightarrow>
     kernel \<times> bool" where
  "cycle_member fin env defs path m k =
     (if \<not> hm_contains defs m then (k, False)
      else (let reason = show_resolve_error (Cycle path) in
            case map_option (\<lambda>r. canonical (cr_state r)) (ctx_current (k_contexts k) m) of
              None \<Rightarrow> withdraw_to_waiting fin env m defs reason k
            | Some st \<Rightarrow>
                if st \<in> {Active, Preparing, Registered, Disposed} then withdraw_to_waiting fin env m defs reason k
                else if st = Waiting then ensure_waiting m defs reason k
                else (k, False)))"

definition reconcile_order :: "(string, stored_manifest) hmap \<Rightarrow> string list" where
  "reconcile_order defs =
     (let order = (case topo_order (kernel_edges defs) of Some (Some o') \<Rightarrow> o' | _ \<Rightarrow> [])
      in if order = [] then sort (hm_keys defs) else order)"

definition STALE_BINDING :: string where
  "STALE_BINDING = ''stale-binding: provider replaced; rebinding''"

definition withdraw_invalid ::
  "(instance_id \<Rightarrow> kernel \<Rightarrow> kernel) \<Rightarrow> interference \<Rightarrow> (string, stored_manifest) hmap \<Rightarrow> (string, context_record) hmap \<Rightarrow>
     string \<Rightarrow> kernel \<Rightarrow> kernel \<times> bool" where
  "withdraw_invalid fin env defs states logical k =
     (if \<not> hm_contains defs logical then (k, False)
      else case hm_get states logical of
             None \<Rightarrow> (k, False)
           | Some st \<Rightarrow>
               if canonical (cr_state st) \<noteq> Active then (k, False)
               else (case resolve_for logical defs states {} [] of
                       Inl e \<Rightarrow> withdraw_to_waiting fin env logical defs (show_resolve_error e) k
                     | Inr _ \<Rightarrow>
                         if bindings_stale k logical states
                         then withdraw_to_waiting fin env logical defs STALE_BINDING k
                         else (k, False)))"

definition activate ::
  "(instance_id \<Rightarrow> kernel \<Rightarrow> kernel) \<Rightarrow> interference \<Rightarrow> (string, stored_manifest) hmap \<Rightarrow> (string, context_record) hmap \<Rightarrow>
     string \<Rightarrow> kernel \<Rightarrow> kernel \<times> bool" where
  "activate fin env defs states logical k =
     (case hm_get defs logical of
        None \<Rightarrow> (k, False)
      | Some def \<Rightarrow>
          if sm_remote def then (k, False)
          else (let cur_state = map_option (\<lambda>r. canonical (cr_state r)) (hm_get states logical) in
                if cur_state = Some Active
                then (if bindings_stale k logical states
                      then withdraw_to_waiting fin env logical defs STALE_BINDING k
                      else (k, False))
                else if cur_state \<in> {Some Failed, Some CleanupPending, Some Quiescing} then (k, False)
                else (case resolve_for logical defs states {} [] of
                        Inl e \<Rightarrow> ensure_waiting logical defs (show_resolve_error e) k
                      | Inr bindings \<Rightarrow>
                          if cur_state \<in> {Some Waiting, Some Preparing, Some Registered}
                          then promote_waiting logical def k
                          else create_active fin env def bindings
                                 (preserved_json_state k logical def
                                    (initial_json_state (sm_reducer def) (sm_init_state def))) k)))"

definition reconcile_step ::
  "(instance_id \<Rightarrow> kernel \<Rightarrow> kernel) \<Rightarrow> interference \<Rightarrow> kernel \<Rightarrow> kernel \<times> bool" where
  "reconcile_step fin env k =
     (let defs = k_definitions k in
      if defs = [] then (k, False)
      else if stale_remotes k \<noteq> [] then (drop_stale_remotes (stale_remotes k) k, True)
      else case find_cycle (kernel_edges defs) of
             Some path \<Rightarrow> any_change (cycle_member fin env defs path) (sort (remdups path)) k
           | None \<Rightarrow>
               (case any_change (withdraw_invalid fin env defs (current_all_merged k)) (rev (reconcile_order defs)) k of
                  (k1, True) \<Rightarrow> (k1, True)
                | (k1, False) \<Rightarrow>
                    first_change (activate fin env defs (current_all_merged k1)) (reconcile_order defs) k1))"

fun reconcile_loop ::
  "(instance_id \<Rightarrow> kernel \<Rightarrow> kernel) \<Rightarrow> interference \<Rightarrow> nat \<Rightarrow> kernel \<Rightarrow> kernel" where
  "reconcile_loop fin env 0 k = k"
| "reconcile_loop fin env (Suc n) k =
     (case reconcile_step fin env k of (k1, changed) \<Rightarrow> if changed then reconcile_loop fin env n k1 else k1)"

definition reconcile_with :: "(instance_id \<Rightarrow> kernel \<Rightarrow> kernel) \<Rightarrow> interference \<Rightarrow> kernel \<Rightarrow> kernel" where
  "reconcile_with fin env k = reconcile_loop fin env (length (k_definitions k) * 2 + 4) k"

subsection \<open>Finalisation\<close>

definition refresh_cleanup_cause :: "instance_id \<Rightarrow> kernel \<Rightarrow> kernel" where
  "refresh_cleanup_cause inst k =
     (case ctx_get_by_instance (k_contexts k) inst of
        None \<Rightarrow> k
      | Some r \<Rightarrow>
          if canonical (cr_state r) \<noteq> CleanupPending then k
          else if \<not> (case cr_cause r of None \<Rightarrow> False | Some c \<Rightarrow> starts_with c INFLIGHT_CAUSE_PREFIX) then k
          else k\<lparr>k_contexts := ctx_mark_cleanup_pending inst (inflight_cause k inst) (k_contexts k)\<rparr>)"

definition finalize_with :: "(kernel \<Rightarrow> kernel) \<Rightarrow> instance_id \<Rightarrow> kernel \<Rightarrow> kernel" where
  "finalize_with reconcile inst k =
     (case ctx_get_by_instance (k_contexts k) inst of
        None \<Rightarrow> k
      | Some rec \<Rightarrow>
          if canonical (cr_state rec) \<noteq> CleanupPending then k
          else if 0 < calls_pending_count (k_calls k) inst then refresh_cleanup_cause inst k
          else case calls_try_claim_cleanup inst (k_calls k) of
                 (c, False) \<Rightarrow> k\<lparr>k_calls := c\<rparr>
               | (c, True) \<Rightarrow>
                   (case release_context_resources rec (k\<lparr>k_calls := c\<rparr>) of
                      (k1, failures) \<Rightarrow>
                        (let k2 = (if failures = []
                                   then unload rec [(''after'', JStr ''cleanup-settled'')] k1
                                   else k1\<lparr>k_contexts := ctx_mark_cleanup_pending inst (join ''; '' failures) (k_contexts k1)\<rparr>);
                             k3 = k2\<lparr>k_calls := calls_release_cleanup_claim inst (k_calls k2)\<rparr>
                         in if failures = [] then reconcile k3 else k3)))"

primrec maybe_finalize :: "nat \<Rightarrow> interference \<Rightarrow> instance_id \<Rightarrow> kernel \<Rightarrow> kernel" where
  "maybe_finalize 0 = (\<lambda>env inst k. k)"
| "maybe_finalize (Suc depth) =
     (\<lambda>env inst k. finalize_with (reconcile_with (maybe_finalize depth env) env) inst k)"

definition reconcile :: "nat \<Rightarrow> interference \<Rightarrow> kernel \<Rightarrow> kernel" where
  "reconcile depth env k = reconcile_with (maybe_finalize depth env) env k"

subsection \<open>The ends of a ticket\<close>

definition end_ticket :: "ticket_record \<Rightarrow> ticket_id \<Rightarrow> kernel \<Rightarrow> kernel" where
  "end_ticket r ticket k =
     (let k1 = revoke_ticket_descendants ticket ''parent-ended'' k
      in case tr_dep r of None \<Rightarrow> k1 | Some dep \<Rightarrow> dep_release (dc_session dep) k1)"

definition call_close :: "nat \<Rightarrow> interference \<Rightarrow> ticket_id \<Rightarrow> kernel \<Rightarrow> kernel \<times> bool" where
  "call_close depth env ticket k =
     (case calls_remove ticket (k_calls k) of
        (c, None) \<Rightarrow> (k\<lparr>k_calls := c\<rparr>, False)
      | (c, Some r) \<Rightarrow>
          (maybe_finalize depth env (tr_instance r)
             (end_ticket r ticket
               (k_append (tr_logical r) ''call.closed''
                  (JObj [(''ticket'', j_nat ticket), (''state'', JStr (ts_as_str (tr_state r)))]) (k\<lparr>k_calls := c\<rparr>))), True))"

definition settle_ticket :: "nat \<Rightarrow> interference \<Rightarrow> ticket_id \<Rightarrow> kernel \<Rightarrow> kernel \<times> ticket_record option" where
  "settle_ticket depth env ticket k =
     (case calls_remove ticket (k_calls k) of
        (c, None) \<Rightarrow> (k\<lparr>k_calls := c\<rparr>, None)
      | (c, Some r) \<Rightarrow> (maybe_finalize depth env (tr_instance r) (end_ticket r ticket (k\<lparr>k_calls := c\<rparr>)), Some r))"

definition call_cancel :: "ticket_id \<Rightarrow> string \<Rightarrow> kernel \<Rightarrow> kernel \<times> bool" where
  "call_cancel ticket reason k =
     (case calls_get (k_calls k) ticket of
        None \<Rightarrow> (k, False)
      | Some r \<Rightarrow>
          (case calls_cancel ticket reason (k_calls k) of
             (c, True) \<Rightarrow>
               (revoke_ticket_descendants ticket ''parent-cancelled''
                 (k_append (tr_logical r) ''call.cancelled''
                    (JObj [(''ticket'', j_nat ticket), (''reason'', JStr reason)]) (k\<lparr>k_calls := c\<rparr>)), True)
           | (c, False) \<Rightarrow> (k\<lparr>k_calls := c\<rparr>, False)))"

definition call_reap :: "nat \<Rightarrow> interference \<Rightarrow> ticket_id \<Rightarrow> string \<Rightarrow> kernel \<Rightarrow> kernel \<times> bool" where
  "call_reap depth env ticket reason k =
     (case calls_get (k_calls k) ticket of
        None \<Rightarrow> (k, False)
      | Some r0 \<Rightarrow>
          if tr_state r0 = Admitted then (k, False)
          else (case settle_ticket depth env ticket k of
                  (k1, None) \<Rightarrow> (k1, False)
                | (k1, Some r) \<Rightarrow>
                    (k_append (tr_logical r) ''call.reaped''
                       (JObj [(''ticket'', j_nat ticket), (''state'', JStr (ts_as_str (tr_state r))), (''reason'', JStr reason)]) k1, True)))"

definition pending_calls :: "kernel \<Rightarrow> ticket_record list" where
  "pending_calls k = calls_snapshot (k_calls k)"

definition committed_effects :: "kernel \<Rightarrow> string option \<Rightarrow> committed_effect list" where
  "committed_effects k logical = calls_effects_for (k_calls k) logical"

subsection \<open>Operator grants\<close>

definition grant_outbound :: "string \<Rightarrow> string \<Rightarrow> kernel \<Rightarrow> kernel \<times> nat \<times> ticket_record list" where
  "grant_outbound consumer cap k =
     (let rev = k_grant_seq k in
      case calls_revoke_grant_children consumer cap (Some rev) ''grant-superseded'' (k_calls k) of
        (c, revoked) \<Rightarrow>
          (journal_cancelled ''grant-superseded'' revoked
             (k\<lparr>k_grant_seq := rev + 1, k_outbound_grants := hm_insert (consumer, cap) rev (k_outbound_grants k),
                k_calls := c\<rparr>), rev, revoked))"

definition revoke_outbound :: "string \<Rightarrow> string \<Rightarrow> kernel \<Rightarrow> kernel \<times> ticket_record list" where
  "revoke_outbound consumer cap k =
     (case calls_revoke_grant_children consumer cap None ''grant-revoked'' (k_calls k) of
        (c, revoked) \<Rightarrow>
          (journal_cancelled ''grant-revoked'' revoked
             (k\<lparr>k_outbound_grants := hm_remove (consumer, cap) (k_outbound_grants k), k_calls := c\<rparr>), revoked))"

subsection \<open>Definitions\<close>

definition register_remote_provider ::
  "nat \<Rightarrow> interference \<Rightarrow> string \<Rightarrow> nat \<Rightarrow> nat \<Rightarrow> string \<Rightarrow> kernel \<Rightarrow> kernel \<times> (string, unit) result" where
  "register_remote_provider depth env logical inst gen peer k =
     (if \<not> is_remote_def (k_definitions k) logical then (k, Inl ''not a remote definition'')
      else if peer = [] \<or> 128 < length peer then (k, Inl ''invalid peer'')
      else (reconcile depth env
              (k_append logical ''remote.registered''
                 (JObj [(''instance'', j_nat inst), (''generation'', j_nat gen), (''peer'', JStr peer)])
                 (k\<lparr>k_remote_providers := hm_insert logical
                      \<lparr>rp_logical = logical, rp_instance = inst, rp_generation = gen, rp_peer = peer\<rparr> (k_remote_providers k)\<rparr>)),
            Inr ()))"

definition unregister_remote_provider :: "nat \<Rightarrow> interference \<Rightarrow> string \<Rightarrow> kernel \<Rightarrow> kernel \<times> bool" where
  "unregister_remote_provider depth env logical k =
     (case drop_remote logical (JObj []) k of
        (k1, True) \<Rightarrow> (reconcile depth env k1, True)
      | (k1, False) \<Rightarrow> (k1, False))"

definition install_remote_definition :: "nat \<Rightarrow> interference \<Rightarrow> stored_manifest \<Rightarrow> kernel \<Rightarrow> kernel" where
  "install_remote_definition depth env def k =
     reconcile depth env
       (fst (drop_remote (sm_id def) (JObj [(''reason'', JStr ''definition-reprovisioned'')])
               (k\<lparr>k_definitions := hm_insert (sm_id def) def (k_definitions k)\<rparr>)))"

text \<open>
  Loading a manifest file. The text of the file, read and parsed, is an argument: \<open>Inl\<close> is the
  error of the file system or of the JSON library.
\<close>

datatype load_error = LoadText string | LoadManifest manifest_error

definition withdraw_previous :: "nat \<Rightarrow> interference \<Rightarrow> string \<Rightarrow> kernel \<Rightarrow> kernel" where
  "withdraw_previous depth env i k =
     (case ctx_current (k_contexts k) i of
        None \<Rightarrow> k
      | Some cur \<Rightarrow>
          if canonical (cr_state cur) \<in> {Disposed, Failed, CleanupPending} then k
          else fst (dispose_instance_inner (maybe_finalize depth env) env (cr_instance cur) k))"

definition substitute_waiting :: "string \<Rightarrow> kernel \<Rightarrow> kernel" where
  "substitute_waiting i k =
     (if map_option (\<lambda>r. canonical (cr_state r)) (ctx_current (k_contexts k) i) = Some CleanupPending
      then (case hm_get (k_definitions k) i of
              None \<Rightarrow> k
            | Some def \<Rightarrow> fst (create_waiting_instance def ''reload: awaiting activation'' k))
      else k)"

definition reapply_state :: "stored_manifest \<Rightarrow> (string \<times> json) option \<Rightarrow> kernel \<Rightarrow> kernel" where
  "reapply_state def old k =
     (case old of
        None \<Rightarrow> k
      | Some (old_reducer, old_json) \<Rightarrow>
          if old_reducer = sm_reducer def \<and>
             (sm_reducer def = ''counter'' \<and> j_get old_json ''state'' \<noteq> None \<or>
              sm_reducer def = ''clock'' \<and> j_get old_json ''count'' \<noteq> None)
          then k\<lparr>k_plugins := hm_modify (sm_id def) (\<lambda>p. p\<lparr>pl_json_state := old_json\<rparr>) (k_plugins k)\<rparr>
          else k)"

definition journal_loaded :: "string \<Rightarrow> kernel \<Rightarrow> kernel" where
  "journal_loaded i k =
     (case ctx_current (k_contexts k) i of
        None \<Rightarrow> k
      | Some cur \<Rightarrow>
          k_append i ''plugin.loaded''
            (JObj [(''id'', JStr i), (''instance'', j_nat (cr_instance cur)), (''context'', j_nat (cr_context cur)),
                   (''generation'', j_nat (cr_generation cur)), (''epoch'', j_nat (cr_epoch cur)),
                   (''state'', JStr (fsm_as_str (cr_state cur)))]) k)"

definition load_manifest ::
  "nat \<Rightarrow> interference \<Rightarrow> string \<Rightarrow> (string, json) result \<Rightarrow> kernel \<Rightarrow> kernel \<times> (load_error, string) result" where
  "load_manifest depth env path content k =
     (case content of
        Inl e \<Rightarrow> (k, Inl (LoadText e))
      | Inr v \<Rightarrow>
          (case parse_manifest_value v of
             Inl e \<Rightarrow> (k, Inl (LoadManifest e))
           | Inr def0 \<Rightarrow>
               (let def = def0\<lparr>sm_source := Some path\<rparr>;
                    i = sm_id def;
                    old = map_option (\<lambda>p. (pl_reducer p, pl_json_state p)) (hm_get (k_plugins k) i);
                    k1 = k\<lparr>k_definitions := hm_insert i def (k_definitions k)\<rparr>
                in (journal_loaded i
                      (reapply_state def old
                        (reconcile depth env (substitute_waiting i (withdraw_previous depth env i k1)))), Inr i))))"

definition transitive_dependents :: "kernel \<Rightarrow> string \<Rightarrow> string list" where
  "transitive_dependents k logical =
     filter (hm_contains (k_definitions k)) (transitive_consumers logical (kernel_edges (k_definitions k)))"

definition dispose_plugin :: "nat \<Rightarrow> interference \<Rightarrow> string \<Rightarrow> kernel \<Rightarrow> kernel \<times> dispose_outcome" where
  "dispose_plugin depth env i k =
     (let k1 = fst (drop_remote i (JObj [(''reason'', JStr ''definition-disposed'')]) k);
          k2 = emit_hook (EvRemoved i) (k1\<lparr>k_definitions := hm_remove i (k_definitions k1)\<rparr>)
      in case (case ctx_current (k_contexts k2) i of
                 None \<Rightarrow> (k2, OAlreadyDisposed)
               | Some cur \<Rightarrow> dispose_instance_inner (maybe_finalize depth env) env (cr_instance cur) k2) of
           (k3, out) \<Rightarrow> (reconcile depth env k3, out))"

definition dispose_instance :: "nat \<Rightarrow> interference \<Rightarrow> instance_id \<Rightarrow> kernel \<Rightarrow> kernel \<times> dispose_outcome" where
  "dispose_instance depth env inst k =
     (case dispose_instance_inner (maybe_finalize depth env) env inst k of
        (k1, out) \<Rightarrow> (reconcile depth env k1, out))"

subsection \<open>Reload\<close>

text \<open>
  The directory is the sorted list of its manifest files with their contents as they are read
  first, \<open>None\<close> when it cannot be listed; \<open>reread\<close> is what a file holds when it is loaded.
\<close>

definition path_components :: "string \<Rightarrow> string list" where
  "path_components p =
     (let cs = split_on CHR ''/'' p
      in (if starts_with p ''/'' then [''/''] else if hd cs = ''.'' then [''.''] else [])
         @ filter (\<lambda>c. c \<noteq> [] \<and> c \<noteq> ''.'') cs)"

definition path_starts_with :: "string \<Rightarrow> string \<Rightarrow> bool" where
  "path_starts_with p dir \<longleftrightarrow> take (length (path_components dir)) (path_components p) = path_components dir"

definition reload_candidate :: "string \<times> (string, json) result \<Rightarrow> (load_error, string \<times> stored_manifest) result" where
  "reload_candidate f =
     (case snd f of
        Inl e \<Rightarrow> Inl (LoadText e)
      | Inr v \<Rightarrow> (case parse_manifest_value v of
                    Inl e \<Rightarrow> Inl (LoadManifest e)
                  | Inr def \<Rightarrow> Inr (fst f, def\<lparr>sm_source := Some (fst f)\<rparr>)))"

definition reload_stale :: "string \<Rightarrow> string list \<Rightarrow> (string, string) hmap \<Rightarrow> (string, stored_manifest) hmap \<Rightarrow> string list" where
  "reload_stale dir present path_to_id defs =
     sort (map fst (filter (\<lambda>(i, def).
       case sm_source def of
         None \<Rightarrow> False
       | Some src \<Rightarrow>
           path_starts_with src dir \<and>
           (src \<notin> set present \<or> (case hm_get path_to_id src of None \<Rightarrow> False | Some parsed \<Rightarrow> parsed \<noteq> i))) defs))"

fun reload_publish ::
  "nat \<Rightarrow> interference \<Rightarrow> (string \<Rightarrow> (string, json) result) \<Rightarrow> string list \<Rightarrow> kernel \<Rightarrow> kernel \<times> nat \<times> string list" where
  "reload_publish depth env reread [] k = (k, 0, [])"
| "reload_publish depth env reread (p # ps) k =
     (case load_manifest depth env p (reread p) k of (k1, r) \<Rightarrow>
        (case reload_publish depth env reread ps k1 of (k2, n, failed) \<Rightarrow>
           (case r of Inr _ \<Rightarrow> (k2, n + 1, failed)
            | Inl _ \<Rightarrow> (k2, n, (p @ '': activation failed'') # failed))))"

definition reload ::
  "nat \<Rightarrow> interference \<Rightarrow> string \<Rightarrow> (string \<times> (string, json) result) list option \<Rightarrow> (string \<Rightarrow> (string, json) result) \<Rightarrow>
     (load_error \<Rightarrow> string) \<Rightarrow> kernel \<Rightarrow> kernel \<times> nat" where
  "reload depth env dir listing reread message k =
     (case listing of
        None \<Rightarrow> (k, 0)
      | Some files \<Rightarrow>
          (let results = map (\<lambda>f. (fst f, reload_candidate f)) files;
               candidates = filter_map (\<lambda>(p, r). case r of Inr c \<Rightarrow> Some c | Inl _ \<Rightarrow> None) results;
               failed1 = filter_map (\<lambda>(p, r). case r of Inl e \<Rightarrow> Some (p @ '': '' @ message e) | Inr _ \<Rightarrow> None) results;
               path_to_id = fold (\<lambda>(p, def). hm_insert p (sm_id def)) candidates [];
               stale = reload_stale dir (map fst files) path_to_id (k_definitions k);
               k1 = fold (\<lambda>i k. fst (dispose_plugin depth env i k)) stale k
           in case reload_publish depth env reread (map fst candidates) k1 of
                (k2, n, failed2) \<Rightarrow>
                  (k_append ''sys'' ''sys.reload''
                     (JObj [(''reloaded'', j_nat n), (''removed'', j_nat (length stale)),
                            (''failed'', JArr (map JStr (failed1 @ failed2)))]) k2, n)))"

end
