(* ===== verification/Mx_Admission.thy ===== *)
theory Mx_Admission
  imports Mx_Reconcile
begin

text \<open>
  The call surface of the kernel (\<open>kernel.rs\<close>): admission of a call, dependency calls between
  external components, mediated commits and invocation. Errors are the JSON values the code
  answers. Forwarding to a host is an argument: it says what the host answers and what
  happens to the kernel in the meantime.
\<close>

definition err_json :: "string \<Rightarrow> string \<Rightarrow> (string \<times> json) list \<Rightarrow> json" where
  "err_json msg code extra = JObj ([(''error'', JStr msg), (''code'', JStr code)] @ extra)"

subsection \<open>Admission\<close>

text \<open>No registration of the capability: the error names a definition that would provide it.\<close>

definition unpublished_error :: "kernel \<Rightarrow> string \<Rightarrow> json" where
  "unpublished_error k cap =
     (let none = err_json ''no such capability'' ''no-such-capability'' [] in
      case find (\<lambda>(_, d). cap \<in> set (sm_caps d)) (k_definitions k) of
        None \<Rightarrow> none
      | Some (o', _) \<Rightarrow>
          (case ctx_current (k_contexts k) o' of
             None \<Rightarrow> none
           | Some st \<Rightarrow>
               if canonical (cr_state st) \<in> {Waiting, Preparing, Registered}
               then err_json (opt_or (cr_cause st) ''dependency unavailable'') ''dependency-unavailable'' [(''logical'', JStr o')]
               else if canonical (cr_state st) \<in> {Quiescing, CleanupPending, Disposed, Failed}
               then err_json ''plugin not available'' ''context-not-active'' [(''logical'', JStr o')]
               else none))"

fun admission_refusal :: "context_error \<Rightarrow> json" where
  "admission_refusal (NotActive logical state) =
     err_json ''context not active'' ''context-not-active'' [(''logical'', JStr logical), (''state'', JStr state)]"
| "admission_refusal (StaleGeneration logical expected got) =
     err_json ''stale generation'' ''stale-generation''
       [(''logical'', JStr logical), (''expected'', j_nat expected), (''got'', j_nat got)]"
| "admission_refusal _ = err_json ''stale generation'' ''stale-generation'' []"

definition plugin_active :: "kernel \<Rightarrow> string \<Rightarrow> bool" where
  "plugin_active k fiber =
     (case hm_get (k_plugins k) fiber of None \<Rightarrow> False | Some p \<Rightarrow> canonical (pl_state p) = Active)"

definition admit_context :: "kernel \<Rightarrow> instance_id \<Rightarrow> (json, string \<times> context_record) result" where
  "admit_context k inst =
     (case ctx_require_active (k_contexts k) inst of
        Inl e \<Rightarrow> Inl (admission_refusal e)
      | Inr ctx \<Rightarrow>
          (let fiber = cr_logical ctx in
           if (case ctx_current (k_contexts k) fiber of None \<Rightarrow> False | Some cur \<Rightarrow> cr_instance cur \<noteq> inst)
           then Inl (err_json ''stale generation'' ''stale-generation''
                      [(''logical'', JStr fiber), (''generation'', j_nat (cr_generation ctx))])
           else if \<not> plugin_active k fiber
           then Inl (err_json ''plugin not available'' ''context-not-active'' [])
           else if bindings_stale k fiber (current_all_merged k)
           then Inl (err_json ''dependency-unavailable: binding obsoleto'' ''dependency-unavailable'' [(''logical'', JStr fiber)])
           else Inr (fiber, ctx)))"

definition admission_record :: "kernel \<Rightarrow> string \<Rightarrow> (json, string \<times> context_record) result" where
  "admission_record k cap =
     (case reg_resolve_ref (k_caps k) cap of
        None \<Rightarrow> Inl (unpublished_error k cap)
      | Some r \<Rightarrow>
          if ir_instance r = 0
          then (case ctx_current (k_contexts k) (ir_logical r) of
                  Some c \<Rightarrow> admit_context k (cr_instance c)
                | None \<Rightarrow> Inl (err_json ''plugin not available'' ''plugin-not-loaded'' []))
          else admit_context k (ir_instance r))"

definition alloc_ticket ::
  "string \<Rightarrow> string \<Rightarrow> context_record \<Rightarrow> call_policy \<Rightarrow> resource_handle list \<Rightarrow> kernel \<Rightarrow> kernel \<times> ticket_id" where
  "alloc_ticket cap logical ctx policy pins k =
     (case calls_alloc cap logical (cr_instance ctx) (cr_generation ctx) (cr_context ctx) (cr_epoch ctx) policy pins False (k_now k) (k_calls k) of
        (c, i) \<Rightarrow> (k\<lparr>k_calls := c\<rparr>, i))"

definition open_call_of :: "ticket_id \<Rightarrow> string \<Rightarrow> string \<Rightarrow> context_record \<Rightarrow> call_policy \<Rightarrow> open_call" where
  "open_call_of i cap logical ctx policy =
     \<lparr>oc_ticket = i, oc_cap = cap, oc_logical = logical, oc_instance = cr_instance ctx,
      oc_generation = cr_generation ctx, oc_context = cr_context ctx, oc_policy = policy\<rparr>"

definition invalid_pin :: "kernel \<Rightarrow> context_record \<Rightarrow> resource_handle \<Rightarrow> bool" where
  "invalid_pin k ctx h =
     (case res_validate (k_resources k) h (cr_instance ctx) (cr_generation ctx) of Inl _ \<Rightarrow> True | Inr _ \<Rightarrow> False)"

text \<open>The second look, after the ticket was registered. \<open>note\<close> is the journal entry of a durable call.\<close>

definition open_confirm ::
  "nat \<Rightarrow> interference \<Rightarrow> (string \<Rightarrow> kernel \<Rightarrow> kernel) \<Rightarrow> string \<Rightarrow> string \<Rightarrow> context_record \<Rightarrow> call_policy \<Rightarrow> ticket_id \<Rightarrow> kernel \<Rightarrow>
     kernel \<times> (json, open_call) result" where
  "open_confirm depth env note cap logical ctx policy i k =
     (case admission_record k cap of
        Inr (_, fresh) \<Rightarrow>
          if cr_instance fresh = cr_instance ctx \<and> cr_generation fresh = cr_generation ctx
          then (k, Inr (open_call_of i cap logical ctx policy))
          else (note ''admission-race: superseded'' (fst (settle_ticket depth env i k)),
                Inl (err_json ''stale generation'' ''stale-generation'' [(''logical'', JStr logical)]))
      | Inl v \<Rightarrow> (note ''admission-race'' (fst (settle_ticket depth env i k)), Inl v))"

definition call_open ::
  "nat \<Rightarrow> interference \<Rightarrow> string \<Rightarrow> json \<Rightarrow> call_policy option \<Rightarrow> resource_handle list \<Rightarrow> kernel \<Rightarrow> kernel \<times> (json, open_call) result" where
  "call_open depth env cap input policy_override pins k =
     (if MAX_INFLIGHT_CALLS \<le> calls_inflight_count (k_calls k)
      then (k, Inl (err_json ''too many in-flight calls'' ''resource-exhausted'' []))
      else case admission_record k cap of
             Inl v \<Rightarrow> (k, Inl v)
           | Inr (logical, ctx) \<Rightarrow>
               (case find (invalid_pin k ctx) pins of
                  Some h \<Rightarrow> (k, Inl (err_json (''invalid pin '' @ show_handle h) ''invalid-pin'' []))
                | None \<Rightarrow>
                    (let policy = (case policy_override of Some p \<Rightarrow> p | None \<Rightarrow> policy_for k logical cap) in
                     case alloc_ticket cap logical ctx policy pins (env CallAdmitted k) of
                       (k1, i) \<Rightarrow>
                         open_confirm depth env
                           (\<lambda>reason. k_append logical ''call.cancelled'' (JObj [(''ticket'', j_nat i), (''reason'', JStr reason)]))
                           cap logical ctx policy i
                           (env CallAllocated
                             (k_append logical ''call.open''
                                (JObj [(''ticket'', j_nat i), (''cap'', JStr cap), (''input'', input),
                                       (''instance'', j_nat (cr_instance ctx)), (''generation'', j_nat (cr_generation ctx)),
                                       (''policy'', JStr (wp_as_str (cp_on_withdraw policy))), (''drain_ms'', j_nat (cp_drain_ms policy))]) k1)))))"

definition call_open_ephemeral ::
  "nat \<Rightarrow> interference \<Rightarrow> string \<Rightarrow> kernel \<Rightarrow> kernel \<times> (json, open_call) result" where
  "call_open_ephemeral depth env cap k =
     (if MAX_INFLIGHT_CALLS \<le> calls_inflight_count (k_calls k)
      then (k, Inl (err_json ''too many in-flight calls'' ''resource-exhausted'' []))
      else case admission_record k cap of
             Inl v \<Rightarrow> (k, Inl v)
           | Inr (logical, ctx) \<Rightarrow>
               (let policy = policy_for k logical cap in
                case alloc_ticket cap logical ctx policy [] (env CallAdmitted k) of
                  (k1, i) \<Rightarrow> open_confirm depth env (\<lambda>_ k. k) cap logical ctx policy i (env CallAllocated k1)))"

subsection \<open>Dependency calls\<close>

definition deny :: "string \<Rightarrow> string \<Rightarrow> dep_deny" where
  "deny code reason = \<lparr>dd_code = code, dd_reason = reason\<rparr>"

text \<open>What admission has established when the quotas are looked at.\<close>

record dep_grant =
  dg_parent :: ticket_record
  dg_binding :: dep_binding
  dg_ticket_ctx :: context_id
  dg_remote_peer :: "string option"
  dg_policy :: outbound_policy
  dg_depth :: nat
  dg_rev :: nat

definition check_parent :: "dep_admit \<Rightarrow> kernel \<Rightarrow> (dep_deny, ticket_record) result" where
  "check_parent req k =
     (case calls_get (k_calls k) (da_parent req) of
        None \<Rightarrow> Inl (deny ''invalid-parent'' (''unknown parent tkt-'' @ show_nat (da_parent req)))
      | Some parent \<Rightarrow>
          if tr_state parent \<noteq> Admitted
          then Inl (deny ''invalid-parent'' (''parent '' @ show_nat (da_parent req) @ '' is '' @ ts_as_str (tr_state parent)))
          else if tr_logical parent \<noteq> da_caller_logical req \<or> tr_instance parent \<noteq> da_caller_instance req \<or>
             tr_generation parent \<noteq> da_caller_generation req
          then Inl (deny ''invalid-parent'' ''parent owned by another activation'')
          else Inr parent)"

definition check_binding :: "dep_admit \<Rightarrow> kernel \<Rightarrow> (dep_deny, dep_binding) result" where
  "check_binding req k =
     (case hm_get (k_dep_bindings k) (da_binding req) of
        None \<Rightarrow> Inl (deny ''dependency-unavailable'' ''unknown binding'')
      | Some b \<Rightarrow>
          if db_consumer_logical b \<noteq> da_caller_logical req \<or> db_consumer_instance b \<noteq> da_caller_instance req \<or>
             db_consumer_generation b \<noteq> da_caller_generation req
          then Inl (deny ''invalid-parent'' ''binding of another activation'')
          else Inr b)"

definition check_consumer :: "dep_admit \<Rightarrow> kernel \<Rightarrow> (dep_deny, context_record) result" where
  "check_consumer req k =
     (case ctx_current (k_contexts k) (da_caller_logical req) of
        None \<Rightarrow> Inl (deny ''plugin-not-loaded'' (''consumer '' @ da_caller_logical req @ '' gone''))
      | Some ccur \<Rightarrow>
          if cr_instance ccur \<noteq> da_caller_instance req \<or> canonical (cr_state ccur) \<noteq> Active
          then Inl (deny ''context-not-active'' ''consumer not active'')
          else if cr_generation ccur \<noteq> da_caller_generation req
          then Inl (deny ''stale-generation'' ''consumer superseded'')
          else Inr ccur)"

definition check_provider ::
  "context_record \<Rightarrow> dep_binding \<Rightarrow> kernel \<Rightarrow> (dep_deny, context_id \<times> string option) result" where
  "check_provider ccur b k =
     (case ctx_current (k_contexts k) (db_provider_logical b) of
        Some pcur \<Rightarrow>
          if cr_instance pcur \<noteq> db_provider_instance b \<or> cr_generation pcur \<noteq> db_provider_generation b \<or>
             canonical (cr_state pcur) \<noteq> Active
          then Inl (deny ''dependency-unavailable'' ''provider reintroduced; binding stale'')
          else Inr (cr_context pcur, None)
      | None \<Rightarrow>
          (case hm_get (k_remote_providers k) (db_provider_logical b) of
             None \<Rightarrow> Inl (deny ''dependency-unavailable'' (''provider '' @ db_provider_logical b @ '' gone''))
           | Some reg \<Rightarrow>
               if rp_instance reg \<noteq> db_provider_instance b \<or> rp_generation reg \<noteq> db_provider_generation b
               then Inl (deny ''dependency-unavailable'' ''provider reintroduced; binding stale'')
               else if \<not> is_remote_def (k_definitions k) (db_provider_logical b)
               then Inl (deny ''dependency-unavailable'' ''remote definition withdrawn'')
               else Inr (cr_context ccur, Some (rp_peer reg))))"

definition check_authority :: "dep_admit \<Rightarrow> kernel \<Rightarrow> (dep_deny, dep_grant) result" where
  "check_authority req k =
     bind_result (check_parent req k) (\<lambda>parent.
     bind_result (check_binding req k) (\<lambda>b.
     bind_result (check_consumer req k) (\<lambda>ccur.
     bind_result (check_provider ccur b k) (\<lambda>(ticket_ctx, remote_peer).
       case outbound_policy_of k (da_caller_logical req) of
         None \<Rightarrow> Inl (deny ''permission-denied'' ''no outbound policy'')
       | Some policy \<Rightarrow>
           (let depth = (case tr_dep parent of None \<Rightarrow> 1 | Some d \<Rightarrow> dc_depth d + 1) in
            if ol_max_depth (op_limits policy) < depth
            then Inl (deny ''resource-exhausted'' ''max depth exceeded'')
            else case hm_get (k_outbound_grants k) (da_caller_logical req, db_capability b) of
                   None \<Rightarrow> Inl (deny ''permission-denied''
                             (''no operator grant for '' @ da_caller_logical req @ '' on '' @ db_capability b))
                 | Some revision \<Rightarrow> Inr \<lparr>dg_parent = parent, dg_binding = b, dg_ticket_ctx = ticket_ctx,
                                    dg_remote_peer = remote_peer, dg_policy = policy, dg_depth = depth, dg_rev = revision\<rparr>)))))"

definition check_quotas :: "dep_admit \<Rightarrow> outbound_limits \<Rightarrow> kernel \<Rightarrow> (dep_deny, unit) result" where
  "check_quotas req lim k =
     (if ol_max_children_per_parent lim \<le> length (calls_open_children_of (k_calls k) (da_parent req))
      then Inl (deny ''resource-exhausted'' ''too many children of parent'')
      else if ol_max_calls_per_session lim \<le> opt_or (hm_get (du_per_session (k_dep_usage k)) (da_session req)) 0
      then Inl (deny ''resource-exhausted'' ''too many dependency calls in session'')
      else if ol_max_calls_global lim \<le> du_global (k_dep_usage k)
      then Inl (deny ''resource-exhausted'' ''too many dependency calls'')
      else if MAX_INFLIGHT_CALLS \<le> calls_inflight_count (k_calls k)
      then Inl (deny ''resource-exhausted'' ''too many in-flight calls'')
      else Inr ())"

definition dep_reserve :: "string \<Rightarrow> kernel \<Rightarrow> kernel" where
  "dep_reserve session k =
     (let u = k_dep_usage k
      in k\<lparr>k_dep_usage := \<lparr>du_per_session = hm_insert session (opt_or (hm_get (du_per_session u) session) 0 + 1) (du_per_session u),
                           du_global = du_global u + 1\<rparr>\<rparr>)"

definition dep_deadline :: "dep_admit \<Rightarrow> dep_grant \<Rightarrow> nat \<Rightarrow> nat" where
  "dep_deadline req g now =
     (let own = min (now + from_millis (ol_max_deadline_ms (op_limits (dg_policy g)))) (now + from_millis (da_timeout_ms req))
      in case tr_drain_until (dg_parent g) of None \<Rightarrow> own | Some u \<Rightarrow> min own u)"

definition dep_meta :: "dep_admit \<Rightarrow> dep_grant \<Rightarrow> dep_child" where
  "dep_meta req g =
     \<lparr>dc_parent = da_parent req, dc_binding = db_id (dg_binding g), dc_consumer = da_caller_instance req,
      dc_session = da_session req, dc_grant_consumer = da_caller_logical req,
      dc_grant_cap = db_capability (dg_binding g), dc_grant_rev = dg_rev g, dc_depth = dg_depth g,
      dc_remote_peer = dg_remote_peer g\<rparr>"

definition dep_alloc :: "dep_admit \<Rightarrow> dep_grant \<Rightarrow> kernel \<Rightarrow> kernel \<times> ticket_id" where
  "dep_alloc req g k =
     (let b = dg_binding g in
      case calls_alloc (db_capability b) (db_provider_logical b) (db_provider_instance b) (db_provider_generation b)
             (dg_ticket_ctx g) (epoch k) policy_cancel [] False (k_now k) (k_calls k) of
        (c, i) \<Rightarrow> (k\<lparr>k_calls := fst (calls_set_drain_until i (dep_deadline req g (k_now k)) c)\<rparr>, i))"

definition dep_provider_live :: "dep_grant \<Rightarrow> kernel \<Rightarrow> bool" where
  "dep_provider_live g k =
     (let b = dg_binding g in
      case dg_remote_peer g of
        None \<Rightarrow> (case ctx_current (k_contexts k) (db_provider_logical b) of
                   None \<Rightarrow> False
                 | Some c \<Rightarrow> cr_instance c = db_provider_instance b \<and> canonical (cr_state c) = Active)
      | Some _ \<Rightarrow> (case hm_get (k_remote_providers k) (db_provider_logical b) of
                     None \<Rightarrow> False
                   | Some r \<Rightarrow> rp_instance r = db_provider_instance b \<and> rp_generation r = db_provider_generation b) \<and>
                  is_remote_def (k_definitions k) (db_provider_logical b))"

definition dep_still_valid :: "dep_admit \<Rightarrow> dep_grant \<Rightarrow> kernel \<Rightarrow> bool" where
  "dep_still_valid req g k \<longleftrightarrow>
     (case calls_get (k_calls k) (da_parent req) of None \<Rightarrow> False | Some p \<Rightarrow> tr_state p = Admitted) \<and>
     (case ctx_current (k_contexts k) (da_caller_logical req) of
        None \<Rightarrow> False
      | Some c \<Rightarrow> cr_instance c = da_caller_instance req \<and> canonical (cr_state c) = Active) \<and>
     dep_provider_live g k \<and>
     hm_get (k_outbound_grants k) (da_caller_logical req, db_capability (dg_binding g)) = Some (dg_rev g)"

definition dep_undo :: "ticket_id \<Rightarrow> string \<Rightarrow> kernel \<Rightarrow> kernel" where
  "dep_undo i session k = dep_release session (k\<lparr>k_calls := fst (calls_remove i (k_calls k))\<rparr>)"

definition dep_confirm :: "dep_admit \<Rightarrow> dep_grant \<Rightarrow> ticket_id \<Rightarrow> kernel \<Rightarrow> kernel \<times> (dep_deny, ticket_id) result" where
  "dep_confirm req g i k =
     (if \<not> dep_still_valid req g k
      then (k_append (da_caller_logical req) ''dependency.rejected''
              (JObj [(''binding'', JStr (db_id (dg_binding g))), (''reason'', JStr ''revoked-during-admission'')])
              (dep_undo i (da_session req) k),
            Inl (deny ''dependency-unavailable'' ''revoked during admission''))
      else (k_append (da_caller_logical req) ''dependency.admitted''
              (JObj [(''ticket'', j_nat i), (''parent'', j_nat (da_parent req)), (''binding'', JStr (db_id (dg_binding g))),
                     (''capability'', JStr (db_capability (dg_binding g))), (''provider'', JStr (db_provider_logical (dg_binding g))),
                     (''depth'', j_nat (dg_depth g)), (''grant_rev'', j_nat (dg_rev g)),
                     (''remote'', JBool (dg_remote_peer g \<noteq> None)), (''peer'', JStr (opt_or (dg_remote_peer g) []))]) k,
            Inr i))"

definition dependency_admit :: "interference \<Rightarrow> dep_admit \<Rightarrow> kernel \<Rightarrow> kernel \<times> (dep_deny, ticket_id) result" where
  "dependency_admit env req k =
     (if da_timeout_ms req = 0 then (k, Inl (deny ''invalid-message'' ''timeout must be positive''))
      else if da_session req = [] \<or> da_binding req = []
      then (k, Inl (deny ''invalid-message'' ''session and binding required''))
      else case check_authority req k of
             Inl d \<Rightarrow> (k, Inl d)
           | Inr g \<Rightarrow>
               (case check_quotas req (op_limits (dg_policy g)) k of
                  Inl d \<Rightarrow> (k, Inl d)
                | Inr _ \<Rightarrow>
                    (case dep_alloc req g (env DepReserved (dep_reserve (da_session req) k)) of
                       (k1, i) \<Rightarrow>
                         (case calls_set_dep_meta i (dep_meta req g) (k_calls k1) of
                            (c, False) \<Rightarrow> (dep_undo i (da_session req) (k1\<lparr>k_calls := c\<rparr>),
                                           Inl (deny ''internal'' ''ticket vanished during admission''))
                          | (c, True) \<Rightarrow> dep_confirm req g i (env DepRegistered (k1\<lparr>k_calls := c\<rparr>))))))"

text \<open>The chain of a child, looked at where it ends.\<close>

definition journal_call_rejected :: "ticket_record \<Rightarrow> string \<Rightarrow> string \<Rightarrow> kernel \<Rightarrow> kernel" where
  "journal_call_rejected t reason kind =
     k_append (tr_logical t) ''call.rejected''
       (JObj [(''ticket'', j_nat (tr_id t)), (''reason'', JStr reason), (''kind'', JStr kind)])"

definition consumer_live :: "kernel \<Rightarrow> instance_id \<Rightarrow> bool" where
  "consumer_live k inst =
     (case ctx_get_by_instance (k_contexts k) inst of
        None \<Rightarrow> False
      | Some c \<Rightarrow> canonical (cr_state c) = Active \<and>
          (case ctx_current (k_contexts k) (cr_logical c) of None \<Rightarrow> False | Some cur \<Rightarrow> cr_instance cur = inst))"

definition dep_chain_check :: "ticket_record \<Rightarrow> string \<Rightarrow> kernel \<Rightarrow> kernel \<times> (json, unit) result" where
  "dep_chain_check t kind k =
     (let tick = [(''ticket'', j_nat (tr_id t))] in
      case tr_dep t of
        None \<Rightarrow> (k, Inr ())
      | Some dep \<Rightarrow>
          if (case tr_drain_until t of None \<Rightarrow> False | Some u \<Rightarrow> u \<le> k_now k)
          then (k_append (tr_logical t) ''call.expired''
                  (JObj [(''ticket'', j_nat (tr_id t)), (''reason'', JStr ''deadline-exceeded'')])
                  (k\<lparr>k_calls := fst (calls_set_state (tr_id t) Expired (k_calls k))\<rparr>),
                Inl (err_json ''dependency deadline exceeded'' ''deadline-exceeded'' tick))
          else if \<not> (case calls_get (k_calls k) (dc_parent dep) of None \<Rightarrow> False | Some p \<Rightarrow> tr_state p = Admitted)
          then (journal_call_rejected t ''parent-revoked'' kind k, Inl (err_json ''parent revoked'' ''cancelled'' tick))
          else if \<not> consumer_live k (dc_consumer dep)
          then (journal_call_rejected t ''consumer-withdrawn'' kind k, Inl (err_json ''consumer withdrawn'' ''stale-generation'' tick))
          else if hm_get (k_outbound_grants k) (dc_grant_consumer dep, dc_grant_cap dep) \<noteq> Some (dc_grant_rev dep)
          then (journal_call_rejected t ''grant-revoked'' kind k, Inl (err_json ''operator grant revoked'' ''permission-denied'' tick))
          else (k, Inr ()))"

definition accept_code :: "string \<Rightarrow> string" where
  "accept_code code =
     (if code \<in> {''cancelled'', ''deadline-exceeded'', ''permission-denied'', ''stale-generation'', ''context-not-active''}
      then code else ''internal'')"

definition dependency_accept :: "ticket_id \<Rightarrow> kernel \<Rightarrow> kernel \<times> (dep_deny, unit) result" where
  "dependency_accept child k =
     (case calls_get (k_calls k) child of
        None \<Rightarrow> (k, Inl (deny ''internal'' (''unknown child tkt-'' @ show_nat child)))
      | Some t \<Rightarrow>
          (case dep_chain_check t ''result'' k of
             (k1, Inl e) \<Rightarrow> (k1, Inl (deny (accept_code (opt_or (get_str e ''code'') ''internal''))
                                          (opt_or (get_str e ''error'') ''chain rejected'')))
           | (k1, Inr _) \<Rightarrow>
               (case calls_mark_committed_if_admitted child (k_calls k1) of
                  (c, True) \<Rightarrow> (k1\<lparr>k_calls := c\<rparr>, Inr ())
                | (c, False) \<Rightarrow> (k1\<lparr>k_calls := c\<rparr>,
                     Inl (deny ''cancelled'' (''child tkt-'' @ show_nat child @ '' revoked during accept''))))))"

definition dependency_timeout :: "ticket_id \<Rightarrow> kernel \<Rightarrow> kernel \<times> bool" where
  "dependency_timeout child k =
     (case calls_expire_ticket child (k_calls k) of
        (c, False) \<Rightarrow> (k\<lparr>k_calls := c\<rparr>, False)
      | (c, True) \<Rightarrow>
          (revoke_ticket_descendants child ''parent-expired''
             (k_append (case calls_get c child of Some t \<Rightarrow> tr_logical t | None \<Rightarrow> ''?'') ''call.expired''
                (JObj [(''ticket'', j_nat child), (''reason'', JStr ''deadline-exceeded'')]) (k\<lparr>k_calls := c\<rparr>)), True))"

subsection \<open>Mediated commits\<close>

definition remote_leg_live :: "ticket_record \<Rightarrow> kernel \<Rightarrow> bool" where
  "remote_leg_live t k \<longleftrightarrow>
     (case hm_get (k_remote_providers k) (tr_logical t) of
        None \<Rightarrow> False
      | Some r \<Rightarrow> rp_instance r = tr_instance t \<and> rp_generation r = tr_generation t) \<and>
     is_remote_def (k_definitions k) (tr_logical t)"

text \<open>The owner of a local leg may commit while active, or draining within the deadline.\<close>

definition commit_owner_check :: "ticket_record \<Rightarrow> string \<Rightarrow> kernel \<Rightarrow> kernel \<times> (json, unit) result" where
  "commit_owner_check t kind k =
     (let stale = Inl (err_json ''stale generation'' ''stale-generation'' [(''logical'', JStr (tr_logical t))]) in
      if tr_epoch t \<noteq> epoch k then (k, stale)
      else case ctx_get_by_instance (k_contexts k) (tr_instance t) of
             None \<Rightarrow> (k, stale)
           | Some owner \<Rightarrow>
               if cr_logical owner \<noteq> tr_logical t \<or> cr_generation owner \<noteq> tr_generation t then (k, stale)
               else if (case ctx_current (k_contexts k) (tr_logical t) of None \<Rightarrow> False | Some cur \<Rightarrow> cr_instance cur \<noteq> tr_instance t)
               then (journal_call_rejected t ''stale-generation'' kind k, stale)
               else if canonical (cr_state owner) = Active then (k, Inr ())
               else if canonical (cr_state owner) = Quiescing
               then (if cp_on_withdraw (tr_policy t) = Drain \<and>
                        (case tr_drain_until t of None \<Rightarrow> False | Some u \<Rightarrow> k_now k \<le> u)
                     then (k, Inr ())
                     else (journal_call_rejected t ''revoked'' kind k,
                           Inl (err_json ''ticket revoked'' ''cancelled'' [(''ticket'', j_nat (tr_id t))])))
               else (journal_call_rejected t ''context-not-active'' kind k,
                     Inl (err_json ''context not active'' ''context-not-active'' [(''logical'', JStr (tr_logical t))])))"

definition commit_provider_check :: "ticket_record \<Rightarrow> string \<Rightarrow> kernel \<Rightarrow> kernel \<times> (json, unit) result" where
  "commit_provider_check t kind k =
     (case Option.bind (tr_dep t) dc_remote_peer of
        None \<Rightarrow> commit_owner_check t kind k
      | Some _ \<Rightarrow>
          if remote_leg_live t k then (k, Inr ())
          else (journal_call_rejected t ''remote-withdrawn'' kind k,
                Inl (err_json ''remote provider withdrawn'' ''stale-generation'' [(''logical'', JStr (tr_logical t))])))"

definition commit_apply :: "ticket_id \<Rightarrow> ticket_record \<Rightarrow> string \<Rightarrow> json \<Rightarrow> kernel \<Rightarrow> kernel \<times> nat" where
  "commit_apply ticket t kind payload k =
     (case calls_push_effect ticket (tr_logical t) (tr_instance t) (tr_generation t) kind payload (k_wall k) (k_calls k) of
        (c, e) \<Rightarrow>
          (k_append (tr_logical t) ''call.committed''
             (JObj [(''ticket'', j_nat ticket), (''effect'', j_nat (ce_seq e)), (''kind'', JStr kind),
                    (''instance'', j_nat (tr_instance t)), (''generation'', j_nat (tr_generation t))])
             (k\<lparr>k_calls := fst (calls_set_state ticket Committed c)\<rparr>), ce_seq e))"

text \<open>The checks of \<open>commit_effect\<close> answer the ticket they read; the effect is applied after them.\<close>

definition commit_check :: "ticket_id \<Rightarrow> string \<Rightarrow> kernel \<Rightarrow> kernel \<times> (json, ticket_record) result" where
  "commit_check ticket kind k =
     (let tick = [(''ticket'', j_nat ticket)] in
      case calls_get (k_calls k) ticket of
        None \<Rightarrow> (k, Inl (err_json (''unknown ticket '' @ show_ticket ticket) ''unknown-ticket'' []))
      | Some t \<Rightarrow>
          (case tr_state t of
             Committed \<Rightarrow> (k, Inl (err_json ''already committed'' ''already-committed'' tick))
           | Cancelled \<Rightarrow> (journal_call_rejected t ''cancelled'' kind k, Inl (err_json ''ticket cancelled'' ''cancelled'' tick))
           | Expired \<Rightarrow> (journal_call_rejected t ''drain-exceeded'' kind k,
                         Inl (err_json ''drain deadline exceeded'' ''deadline-exceeded'' tick))
           | Admitted \<Rightarrow>
               (case dep_chain_check t kind k of
                  (k1, Inl e) \<Rightarrow> (k1, Inl e)
                | (k1, Inr _) \<Rightarrow>
                    (case commit_provider_check t kind k1 of
                       (k2, Inl e) \<Rightarrow> (k2, Inl e)
                     | (k2, Inr _) \<Rightarrow> (k2, Inr t)))))"

definition commit_effect :: "ticket_id \<Rightarrow> string \<Rightarrow> json \<Rightarrow> kernel \<Rightarrow> kernel \<times> (json, nat) result" where
  "commit_effect ticket kind payload k =
     (case commit_check ticket kind k of
        (k1, Inl e) \<Rightarrow> (k1, Inl e)
      | (k1, Inr t) \<Rightarrow> (case commit_apply ticket t kind payload k1 of (k2, seq) \<Rightarrow> (k2, Inr seq)))"

end
