(* ===== verification/Mx_Dispatch.thy ===== *)
theory Mx_Dispatch
  imports Mx_Admission
begin

text \<open>
  Dispatch (\<open>kernel.rs\<close>): the built-in reducers, invocation, containment of faults, delivery of
  events, replay of the journal, the reset used by benchmarks and the inventory. The text
  of a forwarding failure (Rust's \<open>Debug\<close> output) is an argument.
\<close>

subsection \<open>Reducers and faults\<close>

text \<open>Adding one to an \<open>i64\<close>, in two's complement.\<close>

definition i64_succ :: "int \<Rightarrow> int" where
  "i64_succ n = (if n = 2 ^ 63 - 1 then - (2 ^ 63) else n + 1)"

definition get_i64 :: "json \<Rightarrow> string \<Rightarrow> int" where
  "get_i64 v key = opt_or (Option.bind (j_get v key) as_i64) 0"

definition dispatch :: "string \<Rightarrow> string \<Rightarrow> json \<Rightarrow> kernel \<Rightarrow> json option" where
  "dispatch reducer fiber input k =
     (if reducer = ''echo'' then Some (JObj [(''echo'', input)])
      else if reducer = ''ancient'' then Some (JObj [(''out'', JInt 42)])
      else if reducer = ''counter'' then
        map_option (\<lambda>p. JObj [(''state'', JInt (get_i64 (pl_json_state p) ''state''))]) (hm_get (k_plugins k) fiber)
      else if reducer = ''clock'' then
        map_option (\<lambda>p. JObj [(''count'', JInt (get_i64 (pl_json_state p) ''count''))]) (hm_get (k_plugins k) fiber)
      else if reducer = ''model'' then Some (JObj [(''text'', JStr ''canned-response''), (''in'', input)])
      else if reducer = ''noop'' then Some (JObj [(''ok'', JBool True)])
      else None)"

definition FAULT_WINDOW :: nat where
  "FAULT_WINDOW = 10 * 1000000000"

definition fault_plugin :: "nat \<Rightarrow> plugin \<Rightarrow> plugin" where
  "fault_plugin now p =
     (let times = filter (\<lambda>t. now - t < FAULT_WINDOW) (pl_restart_times p) @ [now];
          p1 = p\<lparr>pl_restart_times := times, pl_panic_count := pl_panic_count p + 1\<rparr>
      in if 5 < length times then p1\<lparr>pl_state := Failed\<rparr> else p1)"

definition fault :: "string \<Rightarrow> string \<Rightarrow> kernel \<Rightarrow> kernel \<times> json" where
  "fault fiber mode k =
     (let failed = (case hm_get (k_plugins k) fiber of
                      None \<Rightarrow> False
                    | Some p \<Rightarrow> 5 < length (pl_restart_times (fault_plugin (k_now k) p)));
          k1 = k\<lparr>k_plugins := hm_modify fiber (fault_plugin (k_now k)) (k_plugins k)\<rparr>;
          k2 = (if failed then
                  (case ctx_current (k_contexts k1) fiber of
                     None \<Rightarrow> k1
                   | Some cur \<Rightarrow>
                       k1\<lparr>k_contexts := ctx_mark_failed (cr_instance cur) (''fault budget exceeded ('' @ mode @ '')'') (k_contexts k1),
                          k_plugins := hm_modify fiber (\<lambda>p. p\<lparr>pl_state := Failed\<rparr>) (k_plugins k1)\<rparr>)
                else k1);
          info = [(''mode'', JStr mode), (''contained'', JBool True), (''failed'', JBool failed)]
      in (k_append fiber ''sys.fault'' (JObj info) k2, JObj info))"

subsection \<open>Invocation\<close>

type_synonym forwarder = "forward_request \<Rightarrow> kernel \<Rightarrow> kernel \<times> forward_outcome"

definition expects :: "kernel \<Rightarrow> open_call \<Rightarrow> instance_ref \<Rightarrow> bool" where
  "expects k oc r \<longleftrightarrow> ir_epoch r = epoch k \<and> ir_instance r = oc_instance oc \<and> ir_context r = oc_context oc \<and>
     ir_generation r = oc_generation oc \<and> ir_logical r = oc_logical oc"

definition unavailable_code :: "kernel \<Rightarrow> string \<Rightarrow> string" where
  "unavailable_code k fiber =
     (case map_option (\<lambda>p. canonical (pl_state p)) (hm_get (k_plugins k) fiber) of
        None \<Rightarrow> ''plugin-not-loaded''
      | Some st \<Rightarrow>
          if st \<in> {Failed, Disposed} then ''plugin-not-active''
          else if st \<in> {Quiescing, CleanupPending} then ''context-not-active''
          else if st \<in> {Waiting, Preparing, Registered} then ''dependency-unavailable''
          else ''plugin-not-loaded'')"

definition ticket_admitted :: "kernel \<Rightarrow> ticket_id \<Rightarrow> bool" where
  "ticket_admitted k i = (case calls_get (k_calls k) i of None \<Rightarrow> False | Some t \<Rightarrow> tr_state t = Admitted)"

definition journal_invoke :: "string \<Rightarrow> string \<Rightarrow> json \<Rightarrow> kernel \<Rightarrow> kernel" where
  "journal_invoke fiber cap input k =
     (if k_dry_run k then k
      else k_append fiber ''cap.invoke'' (JObj [(''cap'', JStr cap), (''input'', input)]) k)"

definition journal_revoked :: "string \<Rightarrow> ticket_id \<Rightarrow> string \<Rightarrow> string \<Rightarrow> kernel \<Rightarrow> kernel" where
  "journal_revoked fiber ticket reason cap =
     k_append fiber ''call.rejected''
       (JObj [(''ticket'', j_nat ticket), (''reason'', JStr reason), (''cap'', JStr cap)])"

definition invoke_external ::
  "nat \<Rightarrow> interference \<Rightarrow> forwarder option \<Rightarrow> (forward_error \<Rightarrow> string) \<Rightarrow> string \<Rightarrow> json \<Rightarrow> open_call \<Rightarrow> nat \<Rightarrow> kernel \<Rightarrow>
     kernel \<times> json \<times> bool" where
  "invoke_external depth env fwd debug cap input oc timeout_ms k =
     (let ticket = oc_ticket oc; fiber = oc_logical oc in
      case fwd of
        None \<Rightarrow> (fst (settle_ticket depth env ticket k), err_json ''external plugin without host'' ''internal'' [], False)
      | Some f \<Rightarrow>
          (case f \<lparr>fr_ticket = ticket, fr_cap = cap, fr_input = input, fr_logical = fiber, fr_instance = oc_instance oc,
                   fr_generation = oc_generation oc, fr_timeout_ms = timeout_ms, fr_cancel = False\<rparr> k of
             (k1, out) \<Rightarrow>
               (let admitted = ticket_admitted k1 ticket;
                    k2 = fst (settle_ticket depth env ticket k1)
                in case out of
                     FwdOk v \<Rightarrow>
                       if admitted then (journal_invoke fiber cap input k2, v, True)
                       else (journal_revoked fiber ticket ''revoked-during-forward'' cap k2, err_json ''ticket revoked'' ''cancelled'' [], False)
                   | FwdErr code message \<Rightarrow>
                       if admitted then (k2, err_json message code [], False)
                       else (journal_revoked fiber ticket ''revoked-during-forward'' cap k2, err_json message ''cancelled'' [], False)
                   | FwdFailed e \<Rightarrow>
                       (fst (settle_ticket depth env ticket k2),
                        err_json (''forward failed: '' @ debug e) (forward_error_code e) [], False))))"

definition invoke_reducer ::
  "nat \<Rightarrow> interference \<Rightarrow> string \<Rightarrow> string \<Rightarrow> json \<Rightarrow> open_call \<Rightarrow> kernel \<Rightarrow> kernel \<times> json \<times> bool" where
  "invoke_reducer depth env reducer cap input oc k =
     (let ticket = oc_ticket oc; fiber = oc_logical oc in
      if reducer = ''crasher''
      then (case fault fiber (opt_or (get_str input ''mode'') ''panic'') (fst (settle_ticket depth env ticket k)) of
              (k1, info) \<Rightarrow> (k1, err_json ''injected fault'' ''plugin-panicked'' [(''fault'', info)], False))
      else case dispatch reducer fiber input k of
             None \<Rightarrow> (fst (settle_ticket depth env ticket k), err_json ''unknown reducer'' ''reducer-missing'' [], False)
           | Some entry \<Rightarrow>
               if ticket_admitted k ticket
               then (journal_invoke fiber cap input (fst (settle_ticket depth env ticket k)), entry, True)
               else (journal_revoked fiber ticket ''revoked-during-dispatch'' cap (fst (settle_ticket depth env ticket k)),
                     err_json ''ticket revoked'' ''cancelled'' [], False))"

definition invoke_bound ::
  "nat \<Rightarrow> interference \<Rightarrow> forwarder option \<Rightarrow> (forward_error \<Rightarrow> string) \<Rightarrow> string \<Rightarrow> json \<Rightarrow> instance_ref option \<Rightarrow> kernel \<Rightarrow>
     kernel \<times> json \<times> bool" where
  "invoke_bound depth env fwd debug cap input expected k =
     (case call_open_ephemeral depth env cap k of
        (k1, Inl v) \<Rightarrow> (k1, v, False)
      | (k1, Inr oc) \<Rightarrow>
          if (case expected of None \<Rightarrow> False | Some r \<Rightarrow> \<not> expects k1 oc r)
          then (fst (settle_ticket depth env (oc_ticket oc) k1), JObj [(''code'', JStr ''stale-generation'')], False)
          else (case hm_get (k_plugins k1) (oc_logical oc) of
                  Some p \<Rightarrow>
                    if canonical (pl_state p) = Active \<and> pl_instance_id p = oc_instance oc \<and> pl_generation p = oc_generation oc
                    then (case pl_execution p of
                            External entrypoint args timeout_ms \<Rightarrow> invoke_external depth env fwd debug cap input oc timeout_ms k1
                          | InProcess \<Rightarrow> invoke_reducer depth env (pl_reducer p) cap input oc k1)
                    else (let k2 = fst (settle_ticket depth env (oc_ticket oc) k1)
                          in (k2, err_json ''plugin not available'' (unavailable_code k2 (oc_logical oc)) [], False))
                | None \<Rightarrow>
                    (let k2 = fst (settle_ticket depth env (oc_ticket oc) k1)
                     in (k2, err_json ''plugin not available'' (unavailable_code k2 (oc_logical oc)) [], False))))"

definition invoke ::
  "nat \<Rightarrow> interference \<Rightarrow> forwarder option \<Rightarrow> (forward_error \<Rightarrow> string) \<Rightarrow> string \<Rightarrow> json \<Rightarrow> kernel \<Rightarrow> kernel \<times> json \<times> bool" where
  "invoke depth env fwd debug cap input k = invoke_bound depth env fwd debug cap input None k"

definition invoke_for_ref ::
  "nat \<Rightarrow> interference \<Rightarrow> forwarder option \<Rightarrow> (forward_error \<Rightarrow> string) \<Rightarrow> instance_ref \<Rightarrow> string \<Rightarrow> json \<Rightarrow> kernel \<Rightarrow>
     kernel \<times> json \<times> bool" where
  "invoke_for_ref depth env fwd debug expected cap input k = invoke_bound depth env fwd debug cap input (Some expected) k"

subsection \<open>Events\<close>

definition tick_plugin :: "string \<Rightarrow> plugin \<Rightarrow> plugin" where
  "tick_plugin topic p =
     (if pl_reducer p = ''counter'' \<and> topic = ''sys.tick''
      then p\<lparr>pl_json_state := JObj [(''state'', JInt (i64_succ (get_i64 (pl_json_state p) ''state'')))]\<rparr>
      else if pl_reducer p = ''clock'' \<and> topic = ''sys.tick''
      then p\<lparr>pl_json_state := JObj [(''count'', JInt (i64_succ (get_i64 (pl_json_state p) ''count'')))]\<rparr>
      else p)"

definition deliver_to :: "string \<Rightarrow> string \<Rightarrow> kernel \<Rightarrow> kernel" where
  "deliver_to topic logical k =
     k\<lparr>k_plugins := hm_modify logical (\<lambda>p. if canonical (pl_state p) = Active then tick_plugin topic p else p) (k_plugins k)\<rparr>"

definition deliver_instance :: "string \<Rightarrow> instance_id \<Rightarrow> kernel \<Rightarrow> kernel" where
  "deliver_instance topic inst k =
     (case ctx_require_active (k_contexts k) inst of
        Inl _ \<Rightarrow> k
      | Inr _ \<Rightarrow>
          (let logical = opt_or (map_option cr_logical (ctx_get_by_instance (k_contexts k) inst)) [] in
           if logical = [] then k
           else if (case ctx_current (k_contexts k) logical of None \<Rightarrow> False | Some cur \<Rightarrow> cr_instance cur \<noteq> inst) then k
           else deliver_to topic logical k))"

definition deliver_legacy :: "string \<Rightarrow> string \<Rightarrow> kernel \<Rightarrow> kernel" where
  "deliver_legacy topic fiber k =
     (case hm_get (k_plugins k) fiber of
        None \<Rightarrow> k
      | Some p \<Rightarrow> if pl_instance_id p \<noteq> 0 then k else deliver_to topic fiber k)"

definition deliver_evt :: "string \<Rightarrow> kernel \<Rightarrow> kernel" where
  "deliver_evt topic k =
     fold (deliver_legacy topic) (bus_subscribers (k_bus k) topic)
       (fold (deliver_instance topic) (bus_subscriber_instances (k_bus k) topic) k)"

definition emit :: "string \<Rightarrow> json \<Rightarrow> kernel \<Rightarrow> kernel \<times> nat" where
  "emit topic payload k =
     (case journal_append (k_ts k) ''cli'' ''evt.emit'' (JObj [(''topic'', JStr topic), (''payload'', payload)]) JNull (k_journal k) of
        (j, seq) \<Rightarrow>
          (let k1 = deliver_evt topic (k\<lparr>k_journal := j\<rparr>)
           in (case k_event_sink k1 of
                 None \<Rightarrow> k1
               | Some evs \<Rightarrow> k1\<lparr>k_event_sink := Some (evs @ [(topic, payload)])\<rparr>, seq)))"

text \<open>The fold over the journal at start-up.\<close>

definition is_tick :: "journal_entry \<Rightarrow> bool" where
  "is_tick e \<longleftrightarrow> je_kind e = ''evt.emit'' \<and> opt_or (get_str (je_args e) ''topic'') [] = ''sys.tick''"

definition replay_entry :: "journal_entry \<Rightarrow> kernel \<times> nat \<Rightarrow> kernel \<times> nat" where
  "replay_entry e s =
     (case s of (k, applied) \<Rightarrow>
        if is_tick e then
          (case hm_get (k_plugins k) ''counter'' of
             None \<Rightarrow> (k, applied)
           | Some p \<Rightarrow>
               if canonical (pl_state p) = Active
               then (k\<lparr>k_plugins := hm_modify ''counter'' (\<lambda>p. p\<lparr>pl_json_state :=
                       JObj [(''state'', JInt (i64_succ (get_i64 (pl_json_state p) ''state'')))]\<rparr>) (k_plugins k)\<rparr>, applied + 1)
               else (k, applied))
        else (k, applied))"

definition replay :: "kernel \<Rightarrow> kernel \<times> nat \<times> nat" where
  "replay k =
     (let entries = journal_read_all (jn_file (k_journal k))
      in case fold replay_entry entries (k, 0) of (k1, applied) \<Rightarrow> (k1, applied, length entries))"

subsection \<open>Reset\<close>

definition reset_generated :: "nat \<Rightarrow> interference \<Rightarrow> string \<Rightarrow> kernel \<Rightarrow> kernel" where
  "reset_generated depth env i k =
     (if starts_with i ''gen''
      then (let k1 = k\<lparr>k_definitions := hm_remove i (k_definitions k)\<rparr>
            in case ctx_current (k_contexts k1) i of
                 None \<Rightarrow> k1
               | Some cur \<Rightarrow> fst (dispose_instance_inner (maybe_finalize depth env) env (cr_instance cur) k1))
      else k)"

definition reset_resource :: "resource_record \<Rightarrow> kernel \<Rightarrow> kernel" where
  "reset_resource r k =
     (case rr_kind r of
        Timer _ _ \<Rightarrow> fst (release (rr_handle r) k)
      | Task _ \<Rightarrow> fst (release (rr_handle r) k)
      | _ \<Rightarrow> k)"

definition reset_plugin :: "plugin \<Rightarrow> plugin" where
  "reset_plugin p =
     (if canonical (pl_state p) \<noteq> Active then p
      else (let p1 = p\<lparr>pl_panic_count := 0, pl_restart_times := []\<rparr> in
            if pl_reducer p = ''counter'' then p1\<lparr>pl_json_state := JObj [(''state'', JInt 0)]\<rparr>
            else if pl_reducer p = ''clock'' then p1\<lparr>pl_json_state := JObj [(''count'', JInt 0)]\<rparr>
            else if pl_reducer p \<noteq> ''crasher'' then p1\<lparr>pl_json_state := pl_init_state p\<rparr>
            else p1))"

definition reset_context :: "context_record \<Rightarrow> kernel \<Rightarrow> kernel" where
  "reset_context c k =
     (if canonical (cr_state c) = Active
      then k\<lparr>k_contexts := ctx_set_state (cr_instance c) Active (k_contexts k)\<rparr> else k)"

definition reset_bench :: "nat \<Rightarrow> interference \<Rightarrow> kernel \<Rightarrow> kernel" where
  "reset_bench depth env k =
     (let k0 = k\<lparr>k_journal := journal_reset (k_journal k)\<rparr>;
          k1 = fold (reset_generated depth env) (hm_keys (k_plugins k0)) k0;
          k2 = fold reset_resource (res_inventory (k_resources k1)) k1;
          k3 = k2\<lparr>k_plugins := hm_map_values reset_plugin (k_plugins k2)\<rparr>;
          k4 = fold reset_context (ctx_snapshot (k_contexts k3)) k3
      in reconcile depth env k4)"

subsection \<open>Inventory\<close>

definition opt_json :: "('a \<Rightarrow> json) \<Rightarrow> 'a option \<Rightarrow> json" where
  "opt_json f x = (case x of None \<Rightarrow> JNull | Some v \<Rightarrow> f v)"

definition inventory_instance :: "kernel \<Rightarrow> context_record \<Rightarrow> json" where
  "inventory_instance k c =
     (let requires = (case hm_get (k_definitions k) (cr_logical c) of
            None \<Rightarrow> []
          | Some d \<Rightarrow> map (\<lambda>r. case rq_provider r of
                              Some p \<Rightarrow> rq_interface r @ ''@'' @ p
                            | None \<Rightarrow> rq_interface r) (sm_requires d));
          bindings = (case hm_get (k_plugins k) (cr_logical c) of
            None \<Rightarrow> []
          | Some p \<Rightarrow> if pl_instance_id p = cr_instance c then map binding_json (pl_bindings p) else []);
          handles = map (\<lambda>b. JObj [(''id'', JStr (db_id b)), (''interface'', JStr (db_interface b)),
                                   (''capability'', JStr (db_capability b)), (''provider'', JStr (db_provider_logical b))])
                      (filter (\<lambda>b. db_consumer_instance b = cr_instance c) (hm_values (k_dep_bindings k)))
      in JObj [(''logical'', JStr (cr_logical c)), (''instance'', j_nat (cr_instance c)), (''context'', j_nat (cr_context c)),
               (''generation'', j_nat (cr_generation c)), (''epoch'', j_nat (cr_epoch c)),
               (''state'', JStr (fsm_as_str (cr_state c))), (''cause'', opt_json JStr (cr_cause c)),
               (''waiting_reason'', opt_json JStr (cr_cause c)), (''requires'', JArr (map JStr requires)),
               (''bindings'', JArr bindings), (''dep_bindings'', JArr handles),
               (''active_resources'', j_nat (res_active_for (k_resources k) (cr_context c)))])"

definition inventory_resource :: "resource_record \<Rightarrow> json" where
  "inventory_resource r =
     JObj [(''handle'', j_nat (rr_handle r)), (''kind'', JStr (rk_kind_name (rr_kind r))), (''label'', JStr (rk_label (rr_kind r))),
           (''owner'', JStr (rr_owner_logical r)), (''instance'', j_nat (rr_owner_instance r)),
           (''context'', j_nat (rr_owner_context r)), (''generation'', j_nat (rr_generation r)),
           (''state'', JStr (case rr_state r of RActive \<Rightarrow> ''Active'' | RReleased \<Rightarrow> ''Released'')), (''seq'', j_nat (rr_seq r))]"

definition inventory_call :: "nat \<Rightarrow> ticket_record \<Rightarrow> json" where
  "inventory_call now t =
     JObj [(''ticket'', j_nat (tr_id t)), (''cap'', JStr (tr_cap t)), (''logical'', JStr (tr_logical t)),
           (''instance'', j_nat (tr_instance t)), (''generation'', j_nat (tr_generation t)),
           (''state'', JStr (ts_as_str (tr_state t))), (''policy'', JStr (wp_as_str (cp_on_withdraw (tr_policy t)))),
           (''drain_ms'', j_nat (cp_drain_ms (tr_policy t))), (''elapsed_ms'', j_nat (tr_elapsed_ms now t)),
           (''drain_left_ms'', opt_json j_nat (tr_drain_left_ms now t)), (''pins'', JArr (map j_nat (tr_pins t))),
           (''cancel_reason'', opt_json JStr (tr_cancel_reason t)),
           (''dep'', opt_json (\<lambda>d. JObj [(''parent'', j_nat (dc_parent d)), (''binding'', JStr (dc_binding d)),
              (''consumer'', j_nat (dc_consumer d)), (''depth'', j_nat (dc_depth d)),
              (''grant'', JObj [(''consumer'', JStr (dc_grant_consumer d)), (''cap'', JStr (dc_grant_cap d)), (''rev'', j_nat (dc_grant_rev d))]),
              (''remote_peer'', opt_json JStr (dc_remote_peer d))]) (tr_dep t))]"

definition inventory_effect :: "committed_effect \<Rightarrow> json" where
  "inventory_effect e =
     JObj [(''seq'', j_nat (ce_seq e)), (''ticket'', j_nat (ce_ticket e)), (''logical'', JStr (ce_logical e)),
           (''instance'', j_nat (ce_instance e)), (''generation'', j_nat (ce_generation e)), (''kind'', JStr (ce_kind e)),
           (''payload'', ce_payload e)]"

definition inventory_definition :: "stored_manifest \<Rightarrow> json" where
  "inventory_definition d =
     JObj [(''id'', JStr (sm_id d)), (''provides'', JArr (map JStr (sm_caps d))), (''remote'', JBool (sm_remote d)),
           (''requires'', JArr (map (\<lambda>r. JObj [(''interface'', JStr (rq_interface r)),
              (''provider'', opt_json JStr (rq_provider r))]) (sm_requires d)))]"

definition inventory_remote :: "remote_provider \<Rightarrow> json" where
  "inventory_remote r =
     JObj [(''logical'', JStr (rp_logical r)), (''instance'', j_nat (rp_instance r)),
           (''generation'', j_nat (rp_generation r)), (''peer'', JStr (rp_peer r))]"

definition inventory :: "kernel \<Rightarrow> json" where
  "inventory k =
     JObj [(''epoch'', j_nat (epoch k)),
           (''instances'', JArr (map (inventory_instance k) (ctx_snapshot (k_contexts k)))),
           (''definitions'', JArr (map inventory_definition (sort_key sm_id (hm_values (k_definitions k))))),
           (''remotes'', JArr (map inventory_remote (sort_key rp_logical (hm_values (k_remote_providers k))))),
           (''cycle'', JArr (map JStr (opt_or (find_cycle (kernel_edges (k_definitions k))) []))),
           (''calls'', JArr (map (inventory_call (k_now k)) (calls_snapshot (k_calls k)))),
           (''effects'', JArr (map inventory_effect (calls_effects_for (k_calls k) None))),
           (''resources'', JArr (map inventory_resource (res_inventory (k_resources k)))),
           (''active_resources'', j_nat (res_active_count (k_resources k))),
           (''total_releases'', j_nat (rt_total_releases (k_resources k))),
           (''double_release_attempts'', j_nat (rt_double_release_attempts (k_resources k))),
           (''capabilities'', JObj (map (\<lambda>(c, l). (c, JStr l)) (reg_snapshot (k_caps k))))]"

end
