(* ===== verification/Mx_Steps.thy ===== *)
theory Mx_Steps
  imports Mx_Dispatch
begin

text \<open>
  What every kernel operation keeps. An invariant that survives the operations of the tables,
  and the end of a ticket together with the release of its reservation, survives every
  operation of the kernel, whatever the other threads do in the windows of the operation as
  long as they keep it too. The locale \<open>kernel_invariant\<close> states the former, \<open>kernel_rely\<close> adds
  the assumption on the other threads; both are interpreted in the theories that follow.
\<close>

subsection \<open>Operations that leave the tables alone\<close>

definition same_tables :: "kernel \<Rightarrow> kernel \<Rightarrow> bool" where
  "same_tables k k' \<longleftrightarrow> k_contexts k' = k_contexts k \<and> k_resources k' = k_resources k \<and>
     k_calls k' = k_calls k \<and> k_dep_usage k' = k_dep_usage k"

lemma same_tables_refl [simp]: "same_tables k k"
  by (simp add: same_tables_def)

lemma same_tables_trans: "same_tables k k1 \<Longrightarrow> same_tables k1 k2 \<Longrightarrow> same_tables k k2"
  by (simp add: same_tables_def)

lemma same_tables_append [simp]: "same_tables k (k_append f kd a k)"
  by (simp add: same_tables_def k_append_def)

lemma same_tables_emit_hook [simp]: "same_tables k (emit_hook ev k)"
  by (auto simp: same_tables_def emit_hook_def split: option.splits)

lemma same_tables_emit_activated [simp]: "same_tables k (emit_activated l i g k)"
  by (auto simp: emit_activated_def split: option.splits execution_kind.splits)

lemma same_tables_publish [simp]: "same_tables k (publish l ctx kd k)"
  by (cases kd) (simp_all add: same_tables_def)

lemma same_tables_retract [simp]: "same_tables k (retract i kd k)"
  by (cases kd) (simp_all add: same_tables_def)

lemma same_tables_push_handle [simp]: "same_tables k (push_handle l ctx h k)"
  by (simp add: same_tables_def push_handle_def)

lemma same_tables_mark_plugin [simp]: "same_tables k (mark_plugin l i f k)"
  by (simp add: same_tables_def mark_plugin_def)

lemma same_tables_prune [simp]: "same_tables k (prune_dep_bindings i k)"
  by (simp add: same_tables_def prune_dep_bindings_def)

lemma same_tables_drop_provider [simp]: "same_tables k (drop_provider_bindings l k)"
  by (simp add: same_tables_def drop_provider_bindings_def)

lemma same_tables_drop_remote [simp]: "same_tables k (fst (drop_remote l a k))"
  by (simp add: same_tables_def drop_remote_def k_append_def drop_provider_bindings_def)

lemma same_tables_fold: "(\<And>x k. same_tables k (f x k)) \<Longrightarrow> same_tables k (fold f xs k)"
  by (induction xs arbitrary: k) (auto intro: same_tables_trans)

lemma same_tables_journal_cancelled [simp]: "same_tables k (journal_cancelled r ts k)"
  unfolding journal_cancelled_def by (rule same_tables_fold) simp

lemma same_tables_issue [simp]: "same_tables k (issue_dep_bindings l i g bs k)"
proof -
  have "same_tables k (issue_binding l cur b k)" for k cur b
    by (auto simp: issue_binding_def same_tables_def Let_def split: option.splits)
  then have "same_tables k' (fold (issue_binding l cur) bs k')" for k' cur
    by (rule same_tables_fold)
  moreover have "same_tables k (k\<lparr>k_dep_bindings := b\<rparr>)" for b by (simp add: same_tables_def)
  ultimately show ?thesis
    unfolding issue_dep_bindings_def by (auto split: option.splits intro: same_tables_trans)
qed

lemma same_tables_revoke_publications [simp]: "same_tables k (revoke_publications rec k)"
  unfolding revoke_publications_def
  by (rule same_tables_fold) (simp add: revoke_publication_def split: option.splits)

lemma same_tables_announce [simp]: "same_tables k (announce_active l ctx bs k)"
  unfolding announce_active_def
  by (meson same_tables_append same_tables_emit_activated same_tables_issue same_tables_trans)

lemma same_tables_journal_loaded [simp]: "same_tables k (journal_loaded i k)"
  by (simp add: journal_loaded_def split: option.splits)

lemma same_tables_reapply [simp]: "same_tables k (reapply_state def old k)"
  by (simp add: reapply_state_def same_tables_def split: option.splits)

lemma same_tables_stale_remotes [simp]: "same_tables k (drop_stale_remotes ls k)"
  unfolding drop_stale_remotes_def by (rule same_tables_fold) simp

lemma same_tables_rejected [simp]: "same_tables k (journal_rejected l ctx h kd k)"
  by (simp add: journal_rejected_def)

lemma same_tables_acquired [simp]: "same_tables k (journal_acquired l ctx h kd ex k)"
  by (simp add: journal_acquired_def)

lemma same_tables_call_rejected [simp]: "same_tables k (journal_call_rejected t r kd k)"
  by (simp add: journal_call_rejected_def)

lemma same_tables_journal_invoke [simp]: "same_tables k (journal_invoke f c i k)"
  by (simp add: journal_invoke_def)

lemma same_tables_journal_revoked [simp]: "same_tables k (journal_revoked f t r c k)"
  by (simp add: journal_revoked_def)

lemma same_tables_deliver_to [simp]: "same_tables k (deliver_to topic l k)"
  by (simp add: deliver_to_def same_tables_def)

lemma same_tables_deliver [simp]: "same_tables k (deliver_evt topic k)"
proof -
  have "same_tables k (fold (deliver_instance topic) xs k)" for xs k
    by (rule same_tables_fold) (auto simp: deliver_instance_def Let_def split: sum.splits option.splits)
  moreover have "same_tables k (fold (deliver_legacy topic) xs k)" for xs k
    by (rule same_tables_fold) (auto simp: deliver_legacy_def split: option.splits)
  ultimately show ?thesis unfolding deliver_evt_def by (blast intro: same_tables_trans)
qed

lemma same_tables_replay: "same_tables k (fst (fold replay_entry es (k, n)))"
proof -
  have "same_tables k (fst (fold replay_entry es s))" if "same_tables k (fst s)" for s
    using that
  proof (induction es arbitrary: s)
    case (Cons e es)
    have "same_tables k (fst (replay_entry e s))"
      using Cons.prems by (auto simp: replay_entry_def same_tables_def split: prod.splits option.splits)
    then show ?case using Cons.IH by simp
  qed simp
  then show ?thesis by simp
qed

subsection \<open>Invariants of the tables are invariants of the kernel\<close>

text \<open>Commands on the tickets that neither add nor remove one nor make it a child.\<close>

fun keeps_tickets :: "call_cmd \<Rightarrow> bool" where
  "keeps_tickets (CallAlloc cap l i g x e p pins now) = False"
| "keeps_tickets (CallRemove i) = False"
| "keeps_tickets (CallDepMeta i m) = False"
| "keeps_tickets c = True"

text \<open>A ticket is added where there is \<open>room\<close> for it.\<close>

locale kernel_invariant =
  fixes I :: "kernel \<Rightarrow> bool" and room :: "kernel \<Rightarrow> bool"
  assumes contexts_ok: "I k \<Longrightarrow> ctx_inv (k_contexts k)"
    and other: "I k \<Longrightarrow> same_tables k k' \<Longrightarrow> I k'"
    and on_contexts: "I k \<Longrightarrow> I (k\<lparr>k_contexts := ctx_exec c (k_contexts k)\<rparr>)"
    and on_resources: "I k \<Longrightarrow> I (k\<lparr>k_resources := res_exec rc (k_resources k)\<rparr>)"
    and on_calls: "I k \<Longrightarrow> keeps_tickets tc \<Longrightarrow> I (k\<lparr>k_calls := call_exec tc (k_calls k)\<rparr>)"
    and on_alloc: "I k \<Longrightarrow> room k \<Longrightarrow> I (k\<lparr>k_calls := call_exec (CallAlloc cap l inst g x e p pins now) (k_calls k)\<rparr>)"
    and on_forced: "I k \<Longrightarrow> I (k\<lparr>k_calls := fst (calls_set_state i Expired (k_calls k))\<rparr>)"
    and on_end: "I k \<Longrightarrow> hm_get (cl_tickets (k_calls k)) i = Some r \<Longrightarrow>
      I (end_ticket r i (k\<lparr>k_calls := fst (calls_remove i (k_calls k))\<rparr>))"
begin

lemma fold_I: "(\<And>x k. I k \<Longrightarrow> I (f x k)) \<Longrightarrow> I k \<Longrightarrow> I (fold f xs k)"
  by (induction xs arbitrary: k) auto

lemma quiet [intro]:
  "I k \<Longrightarrow> I (k_append f kd a k)" "I k \<Longrightarrow> I (emit_hook ev k)" "I k \<Longrightarrow> I (publish l ctx kind k)"
  "I k \<Longrightarrow> I (retract inst kind k)" "I k \<Longrightarrow> I (push_handle l ctx h k)" "I k \<Longrightarrow> I (mark_plugin l inst g k)"
  "I k \<Longrightarrow> I (prune_dep_bindings inst k)" "I k \<Longrightarrow> I (fst (drop_remote l a k))"
  "I k \<Longrightarrow> I (journal_cancelled s ts k)" "I k \<Longrightarrow> I (revoke_publications rec k)" "I k \<Longrightarrow> I (announce_active l ctx bs k)"
  "I k \<Longrightarrow> I (journal_loaded l k)" "I k \<Longrightarrow> I (reapply_state def old k)" "I k \<Longrightarrow> I (drop_stale_remotes ls k)"
  "I k \<Longrightarrow> I (journal_rejected l ctx h kind k)" "I k \<Longrightarrow> I (journal_acquired l ctx h kind ex k)"
  "I k \<Longrightarrow> I (journal_call_rejected t s l k)" "I k \<Longrightarrow> I (journal_invoke l s a k)" "I k \<Longrightarrow> I (journal_revoked l i s f k)"
  "I k \<Longrightarrow> I (deliver_evt l k)"
  by (erule other, simp)+

lemma fields [intro]:
  "I k \<Longrightarrow> I (k\<lparr>k_plugins := ps\<rparr>)" "I k \<Longrightarrow> I (k\<lparr>k_definitions := ds\<rparr>)" "I k \<Longrightarrow> I (k\<lparr>k_journal := j\<rparr>)"
  "I k \<Longrightarrow> I (k\<lparr>k_event_sink := es\<rparr>)" "I k \<Longrightarrow> I (k\<lparr>k_remote_providers := rps\<rparr>)"
  "I k \<Longrightarrow> I (k\<lparr>k_caps := cps\<rparr>)"
  by (erule other, simp add: same_tables_def)+

subsubsection \<open>Contexts\<close>

lemma contexts_set:
  assumes "I k" "\<exists>c. cs = ctx_exec c (k_contexts k)"
  shows "I (k\<lparr>k_contexts := cs\<rparr>)"
  using assms on_contexts by blast

lemma contexts [intro]:
  "I k \<Longrightarrow> ctx_claim_dispose inst (k_contexts k) = (cs, r) \<Longrightarrow> I (k\<lparr>k_contexts := cs\<rparr>)"
  "I k \<Longrightarrow> ctx_create l (k_contexts k) = (cs, ctx) \<Longrightarrow> I (k\<lparr>k_contexts := cs\<rparr>)"
  "I k \<Longrightarrow> ctx_create_waiting l cause (k_contexts k) = (cs, ctx) \<Longrightarrow> I (k\<lparr>k_contexts := cs\<rparr>)"
  "I k \<Longrightarrow> ctx_mark_active inst (k_contexts k) = (cs, b) \<Longrightarrow> I (k\<lparr>k_contexts := cs\<rparr>)"
  "I k \<Longrightarrow> I (k\<lparr>k_contexts := fst (ctx_mark_waiting inst cause (k_contexts k))\<rparr>)"
  "I k \<Longrightarrow> I (k\<lparr>k_contexts := ctx_mark_disposed inst (k_contexts k)\<rparr>)"
  "I k \<Longrightarrow> I (k\<lparr>k_contexts := ctx_mark_cleanup_pending inst cause (k_contexts k)\<rparr>)"
  "I k \<Longrightarrow> I (k\<lparr>k_contexts := ctx_mark_failed inst cause (k_contexts k)\<rparr>)"
  using contexts_set [where cs = cs]
    on_contexts [of k "CtxWaiting inst cause"] on_contexts [of k "CtxDisposed inst"]
    on_contexts [of k "CtxCleanup inst cause"] on_contexts [of k "CtxFailed inst cause"]
    on_contexts [of k "CtxClaim inst"] on_contexts [of k "CtxCreate l Active None"]
    on_contexts [of k "CtxCreate l Waiting (Some cause)"] on_contexts [of k "CtxActive inst"]
  by (auto simp: ctx_create_def ctx_create_waiting_def)

subsubsection \<open>Resources\<close>

lemma register [intro]:
  assumes "I k" "k_register ctx l kind k = (k1, r)"
  shows "I k1"
proof (cases "validate_kind kind")
  case (Inl e)
  then show ?thesis using assms other [of k k1] by (auto simp: k_register_def res_register_def same_tables_def)
next
  case (Inr u)
  let ?t = "fst (res_record_new (cr_context ctx) (cr_instance ctx) l (cr_generation ctx) kind (k_resources k))"
  let ?h = "snd (res_record_new (cr_context ctx) (cr_instance ctx) l (cr_generation ctx) kind (k_resources k))"
  have "I (k\<lparr>k_resources := ?t\<rparr>)"
    using on_resources [OF assms(1), of "ResRecord (cr_context ctx) (cr_instance ctx) l (cr_generation ctx) kind"] by simp
  from on_resources [OF this, of "ResPublish (k_spawn k) (cr_context ctx) ?h kind"]
  have "I (k\<lparr>k_resources := fst (res_publish (k_spawn k) (cr_context ctx) ?h kind ?t)\<rparr>)" by simp
  moreover have "snd (res_record_new c' i' l' g' kd' t) = rt_next_handle t" for c' i' l' g' kd' t
    by (simp add: res_record_new_def Let_def)
  ultimately show ?thesis using assms(2) Inr
    by (auto simp: k_register_def res_register_def prod_eq_iff split: prod.splits)
qed

lemma rollback_register [intro]: "I k \<Longrightarrow> I (k_rollback_register h k)"
  using on_resources [of k "ResRollback h"] by (simp add: k_rollback_register_def)

lemma release_published [intro]:
  assumes "I k" "release_published inst h k = (k1, r)"
  shows "I k1"
proof -
  have chk: "I (k\<lparr>k_resources := fst (begin_release_check h (k_resources k))\<rparr>)"
    using on_resources [OF assms(1), of "ResCheck h"] by simp
  from on_resources [OF this, of "ResClaim h"]
  have "I (k\<lparr>k_resources := fst (begin_release_claim h (fst (begin_release_check h (k_resources k))))\<rparr>)" by simp
  then have "I (k\<lparr>k_resources := fst (res_begin_release h (k_resources k))\<rparr>)"
    using chk by (auto simp: res_begin_release_def split: prod.splits sum.splits)
  then show ?thesis
    using assms(2) by (auto simp: release_published_def split: prod.splits sum.splits)
qed

lemma release_published_fst [intro]: "I k \<Longrightarrow> I (fst (release_published inst h k))"
  by (cases "release_published inst h k") auto

lemma release_I [intro]: "I k \<Longrightarrow> I (fst (release h k))"
  by (auto simp: release_def split: option.splits prod.splits sum.splits)

lemma release_all_I [intro]: "I k \<Longrightarrow> I (release_all hs k)"
  unfolding release_all_def by (rule fold_I) auto

lemma rollback_acquired [intro]: "I k \<Longrightarrow> I (rollback_acquired inst hs k)"
  unfolding rollback_acquired_def by (rule fold_I) auto

lemma release_context_resources [intro]:
  assumes "I k" "release_context_resources rec k = (k1, fs)"
  shows "I k1"
proof -
  have "I (fst (release_one rec h s))" if "I (fst s)" for h s
  proof (cases s)
    case (Pair k0 fs0)
    then show ?thesis using that release_published [of k0 "cr_instance rec" h]
      by (auto simp: release_one_def split: option.splits prod.splits sum.splits release_error.splits)
  qed
  then have "I (fst (fold (release_one rec) hs s))" if "I (fst s)" for hs s
    using that by (induction hs arbitrary: s) auto
  then show ?thesis using assms by (metis fst_conv release_context_resources_def)
qed

subsubsection \<open>Tickets\<close>

lemma calls [intro]:
  "I k \<Longrightarrow> calls_cancel i s (k_calls k) = (c, b) \<Longrightarrow> I (k\<lparr>k_calls := c\<rparr>)"
  "I k \<Longrightarrow> calls_revoke_descendants i s (k_calls k) = (c, ts) \<Longrightarrow> I (k\<lparr>k_calls := c\<rparr>)"
  "I k \<Longrightarrow> calls_revoke_children_of_consumer i s (k_calls k) = (c, ts) \<Longrightarrow> I (k\<lparr>k_calls := c\<rparr>)"
  "I k \<Longrightarrow> calls_revoke_grant_children s cap kr s' (k_calls k) = (c, ts) \<Longrightarrow> I (k\<lparr>k_calls := c\<rparr>)"
  "I k \<Longrightarrow> calls_expire_overdue now (k_calls k) = (c, ids) \<Longrightarrow> I (k\<lparr>k_calls := c\<rparr>)"
  "I k \<Longrightarrow> calls_expire_ticket i (k_calls k) = (c, b) \<Longrightarrow> I (k\<lparr>k_calls := c\<rparr>)"
  "I k \<Longrightarrow> calls_mark_committed_if_admitted i (k_calls k) = (c, b) \<Longrightarrow> I (k\<lparr>k_calls := c\<rparr>)"
  "I k \<Longrightarrow> calls_try_claim_cleanup i (k_calls k) = (c, b) \<Longrightarrow> I (k\<lparr>k_calls := c\<rparr>)"
  "I k \<Longrightarrow> I (k\<lparr>k_calls := calls_release_cleanup_claim i (k_calls k)\<rparr>)"
  "I k \<Longrightarrow> I (k\<lparr>k_calls := fst (calls_set_drain_until i u (k_calls k))\<rparr>)"
  using on_calls [of k "CallCancel i s"] on_calls [of k "CallRevokeDescendants i s"]
    on_calls [of k "CallRevokeConsumer i s"] on_calls [of k "CallRevokeGrant s cap kr s'"]
    on_calls [of k "CallOverdue now"] on_calls [of k "CallExpire i"] on_calls [of k "CallCommit i"]
    on_calls [of k "CallClaimCleanup i"] on_calls [of k "CallReleaseCleanup i"] on_calls [of k "CallDrain i u"]
  by auto

lemma revoke_ticket_descendants [intro]: "I k \<Longrightarrow> I (revoke_ticket_descendants i s k)"
  by (auto simp: revoke_ticket_descendants_def split: prod.splits)

lemma withdraw_calls [intro]:
  assumes "I k" "withdraw_calls rec k = (k1, du)"
  shows "I k1"
proof -
  have "I (fst (withdraw_call l t s))" if "I (fst s)" for l t s
    using that
    by (cases s) (auto simp: withdraw_call_def Let_def split: prod.splits withdraw_policy.splits bool.splits)
  then have "I (fst (fold (withdraw_call l) ts s))" if "I (fst s)" for l ts s
    using that by (induction ts arbitrary: s) auto
  then show ?thesis using assms by (metis fst_conv withdraw_calls_def)
qed

lemma dispose_expire [intro]: "I k \<Longrightarrow> I (dispose_expire rec k)"
proof -
  have "I (expire_call l i k)" if "I k" for l i k using that by (auto simp: expire_call_def)
  then show "I k \<Longrightarrow> I (dispose_expire rec k)"
    by (auto simp: dispose_expire_def Let_def intro!: fold_I split: prod.splits)
qed

lemma dispose_quiesce [intro]: "I k \<Longrightarrow> dispose_quiesce rec k = (k1, du) \<Longrightarrow> I k1"
  unfolding dispose_quiesce_def by (erule withdraw_calls [rotated]) blast

lemma pend_cleanup [intro]: "I k \<Longrightarrow> I (pend_cleanup rec s k)"
  by (auto simp: pend_cleanup_def)

lemma unload [intro]: "I k \<Longrightarrow> I (unload rec ex k)"
  by (auto simp: unload_def)

lemma dispose_settle [intro]: "I k \<Longrightarrow> dispose_settle rec k = (k1, out) \<Longrightarrow> I k1"
  by (auto simp: dispose_settle_def split: prod.splits if_splits)

lemma create_waiting_instance [intro]: "I k \<Longrightarrow> I (fst (create_waiting_instance def s k))"
proof -
  assume k: "I k"
  obtain cs ctx where c: "ctx_create_waiting (sm_id def) s (k_contexts k) = (cs, ctx)" by force
  from quiet(1) [OF fields(1) [OF contexts(3) [OF k this]]]
  show ?thesis by (simp add: create_waiting_instance_def c)
qed

lemma refresh_waiting [intro]: "I k \<Longrightarrow> I (fst (refresh_waiting l def st s k))"
  using fields(1) [OF contexts(5) [of k "cr_instance st" s]]
  by (auto simp: refresh_waiting_def Let_def split: option.splits)

lemma ensure_waiting [intro]: "I k \<Longrightarrow> I (fst (ensure_waiting l defs s k))"
  by (auto simp: ensure_waiting_def split: option.splits fsm.splits)

lemma acquire_kinds [intro]: "I k \<Longrightarrow> acquire_kinds ctx i acq kds k = (k1, r) \<Longrightarrow> I k1"
proof (induction kds arbitrary: acq k)
  case (Cons kd kds)
  show ?case
  proof (cases "k_register ctx i kd k")
    case (Pair k2 r2)
    then have "I k2" using register Cons.prems(1) by blast
    then show ?thesis using Pair Cons.prems(2) Cons.IH [OF quiet(3)] by (cases r2) auto
  qed
qed simp

lemma acquire_definition_resources [intro]:
  "I k \<Longrightarrow> acquire_definition_resources ctx def k = (k1, r) \<Longrightarrow> I k1"
  by (auto simp: acquire_definition_resources_def)

lemma promote_commit [intro]: "I k \<Longrightarrow> I (fst (promote_commit l st bs acq k))"
  using contexts(4) [OF fields(1)]
  by (auto simp: promote_commit_def Let_def split: option.splits prod.splits bool.splits)

lemma promote_waiting [intro]: "I k \<Longrightarrow> I (fst (promote_waiting l def k))"
  by (auto simp: promote_waiting_def split: option.splits sum.splits prod.splits)

lemma refresh_cleanup_cause [intro]: "I k \<Longrightarrow> I (refresh_cleanup_cause inst k)"
  by (auto simp: refresh_cleanup_cause_def split: option.splits)

lemma dep_chain_check [intro]: "I k \<Longrightarrow> dep_chain_check t kd k = (k1, r) \<Longrightarrow> I k1"
  using quiet(1) [OF on_forced [of k "tr_id t"]] quiet(17) [of k t]
  by (auto simp: dep_chain_check_def Let_def split: option.splits if_splits)

lemma call_cancel_I [intro]: "I k \<Longrightarrow> I (fst (call_cancel i s k))"
  by (auto simp: call_cancel_def split: option.splits prod.splits bool.splits)

lemma dependency_timeout_I [intro]: "I k \<Longrightarrow> I (fst (dependency_timeout i k))"
  by (auto simp: dependency_timeout_def split: prod.splits bool.splits)

lemma dependency_accept_I [intro]: "I k \<Longrightarrow> I (fst (dependency_accept i k))"
  by (auto simp: dependency_accept_def split: option.splits prod.splits sum.splits bool.splits)

lemma alloc_ticket: "I k \<Longrightarrow> room k \<Longrightarrow> I (fst (alloc_ticket cap l ctx pol pins k))"
  using on_alloc [of k cap l "cr_instance ctx" "cr_generation ctx" "cr_context ctx" "cr_epoch ctx" pol pins "k_now k"]
  by (simp add: alloc_ticket_def case_prod_beta)

lemma fault_I [intro]: "I k \<Longrightarrow> I (fst (fault f mode k))"
  using fields(1) contexts(8)
  by (auto simp: fault_def Let_def split: option.splits)

end

subsection \<open>Other threads keep the invariant too\<close>

lemma same_tables_end_ticket: "same_tables k k' \<Longrightarrow> same_tables (end_ticket r i k) (end_ticket r i k')"
  using same_tables_journal_cancelled [unfolded same_tables_def]
  by (auto simp: end_ticket_def Let_def revoke_ticket_descendants_def same_tables_def dep_release_def
      split: prod.splits option.splits)

lemma set_state_commit:
  "hm_get (cl_tickets t) i = Some r \<Longrightarrow> tr_state r = Admitted \<Longrightarrow>
     calls_set_state i Committed t = calls_mark_committed_if_admitted i t"
  by (simp add: calls_set_state_def calls_mark_committed_if_admitted_def modify_if_admitted_def)

lemma dep_chain_check_ok: "dep_chain_check t kd k = (k1, Inr u) \<Longrightarrow> k1 = k"
  by (auto simp: dep_chain_check_def Let_def split: option.splits if_splits)

lemma commit_owner_check_ok: "commit_owner_check t kd k = (k1, Inr u) \<Longrightarrow> k1 = k"
  by (auto simp: commit_owner_check_def Let_def split: option.splits if_splits)

lemma commit_provider_check_ok: "commit_provider_check t kd k = (k1, Inr u) \<Longrightarrow> k1 = k"
  by (auto simp: commit_provider_check_def dest: commit_owner_check_ok split: option.splits if_splits)

lemma commit_check_ok:
  "commit_check i kd k = (k1, Inr t) \<Longrightarrow> k1 = k \<and> calls_get (k_calls k) i = Some t \<and> tr_state t = Admitted"
  by (auto simp: commit_check_def Let_def
      dest: dep_chain_check_ok commit_provider_check_ok
      split: option.splits ticket_state.splits prod.splits sum.splits)

definition keeps :: "(kernel \<Rightarrow> bool) \<Rightarrow> (instance_id \<Rightarrow> kernel \<Rightarrow> kernel) \<Rightarrow> bool" where
  "keeps I fin \<longleftrightarrow> (\<forall>i k. I k \<longrightarrow> I (fin i k))"

lemma keepsD [intro]: "keeps I fin \<Longrightarrow> I k \<Longrightarrow> I (fin i k)"
  by (simp add: keeps_def)

text \<open>The loop of \<open>reset_bench\<close> over the active contexts sets a state they already have.\<close>

lemma reset_contexts_same:
  assumes inv: "ctx_inv (k_contexts k)"
  shows "fold reset_context (ctx_snapshot (k_contexts k)) k = k"
proof -
  have "fold reset_context rs k = k" if "set rs \<subseteq> set (hm_values (ct_by_instance (k_contexts k)))" for rs
    using that
  proof (induction rs)
    case (Cons r rs)
    obtain i where i: "hm_get (ct_by_instance (k_contexts k)) i = Some r"
      using Cons.prems inv hm_values_get [of "ct_by_instance (k_contexts k)" r] by (auto simp: ctx_inv_def)
    then have "cr_instance r = i" using inv by (auto simp: ctx_inv_def ctx_rec_ok_def)
    moreover have "hm_modify i (\<lambda>r. r\<lparr>cr_state := Active\<rparr>) (ct_by_instance (k_contexts k)) = ct_by_instance (k_contexts k)"
      if "cr_state r = Active"
      by (rule hm_modify_fixed) (use i that ctx_inv_basicD [OF inv] in auto)
    ultimately have "ctx_set_state (cr_instance r) Active (k_contexts k) = k_contexts k" if "cr_state r = Active"
      using that by (simp add: ctx_set_state_def ctx_update_def)
    then have "reset_context r k = k" by (simp add: reset_context_def canonical_Active)
    then show ?case using Cons by simp
  qed simp
  then show ?thesis by (simp add: ctx_snapshot_def)
qed

locale kernel_rely = kernel_invariant +
  fixes env :: interference
  assumes env_I: "I k \<Longrightarrow> I (env w k)"
    and env_room: "I k \<Longrightarrow> calls_inflight_count (k_calls k) < MAX_INFLIGHT_CALLS \<Longrightarrow> room (env CallAdmitted k)"
begin

lemma env_intro [intro]: "I k \<Longrightarrow> I (env w k)"
  by (rule env_I)

lemma drain_wait [intro]: "I k \<Longrightarrow> I (drain_wait env du k)"
  by (auto simp: drain_wait_def split: option.splits)

lemma dispose_park [intro]:
  assumes "I k" "keeps I fin" "dispose_park fin env rec k = (k1, out)"
  shows "I k1"
  using assms by (auto simp: dispose_park_def Let_def split: if_splits)

lemma dispose_claimed [intro]:
  assumes "I k" "keeps I fin" "dispose_claimed fin env rec k = (k1, out)"
  shows "I k1"
proof (cases "dispose_quiesce rec k")
  case (Pair k2 du)
  let ?k3 = "dispose_expire rec (drain_wait env du k2)"
  have k3: "I ?k3" using Pair assms(1) by blast
  have "dispose_claimed fin env rec k =
      (if 0 < calls_pending_count (k_calls ?k3) (cr_instance rec) then dispose_park fin env rec ?k3 else dispose_settle rec ?k3)"
    by (simp add: dispose_claimed_def Pair Let_def)
  then show ?thesis
    using assms(3) dispose_park [OF k3 assms(2), of rec k1 out] dispose_settle [OF k3, of rec k1 out]
    by (simp split: if_splits)
qed

lemma dispose_inner [intro]:
  assumes "I k" "keeps I fin"
  shows "I (fst (dispose_instance_inner fin env inst k))"
proof (cases "ctx_claim_dispose inst (k_contexts k)")
  case (Pair cs r)
  then have "I (k\<lparr>k_contexts := cs\<rparr>)" using assms(1) by blast
  moreover have "I (fst (dispose_claimed fin env rec k'))" if "I k'" for rec k'
    using dispose_claimed [OF that assms(2)] by (cases "dispose_claimed fin env rec k'") auto
  ultimately show ?thesis
    using Pair assms(1)
    by (auto simp: dispose_instance_inner_def split: option.splits sum.splits dispose_claim.splits)
qed

lemma withdraw_to_waiting [intro]:
  assumes "I k" "keeps I fin"
  shows "I (fst (withdraw_to_waiting fin env l defs s k))"
  using assms(1) dispose_inner [OF assms] create_waiting_instance [OF dispose_inner [OF assms]]
  by (auto simp: withdraw_to_waiting_def split: option.splits)

lemma create_active [intro]:
  assumes "I k" "keeps I fin"
  shows "I (fst (create_active fin env def bs js k))"
proof (cases "ctx_create (sm_id def) (k_contexts k)")
  case (Pair cs ctx)
  then have "I (k\<lparr>k_contexts := cs\<rparr>)" using assms(1) by blast
  moreover obtain k2 r where a: "acquire_definition_resources ctx def (k\<lparr>k_contexts := cs\<rparr>) = (k2, r)" by force
  ultimately have k2: "I k2" by blast
  show ?thesis
  proof (cases r)
    case (Inl e)
    show ?thesis
      by (simp add: create_active_def Pair a Inl Let_def ensure_waiting [OF dispose_inner [OF k2 assms(2)]])
  next
    case (Inr acq)
    show ?thesis by (simp add: create_active_def Pair a Inr quiet(11) [OF fields(1) [OF k2]])
  qed
qed

lemma any_change:
  assumes "\<And>x k. I k \<Longrightarrow> I (fst (f x k))" and "I k"
  shows "I (fst (any_change f xs k))"
  using assms(2)
proof (induction xs arbitrary: k)
  case (Cons x xs)
  from Cons.IH [OF assms(1) [OF Cons.prems]] show ?case by (simp add: case_prod_beta)
qed simp

lemma first_change:
  assumes "\<And>x k. I k \<Longrightarrow> I (fst (f x k))" and "I k"
  shows "I (fst (first_change f xs k))"
  using assms(2)
proof (induction xs arbitrary: k)
  case (Cons x xs)
  from Cons.IH [OF assms(1) [OF Cons.prems]] assms(1) [OF Cons.prems] show ?case by (simp add: case_prod_beta)
qed simp

lemma reconcile_step [intro]:
  assumes "I k" and fin: "keeps I fin"
  shows "I (fst (reconcile_step fin env k))"
proof -
  have c: "I k \<Longrightarrow> I (fst (cycle_member fin env defs path m k))" for defs path m k
    using withdraw_to_waiting [OF _ fin] by (auto simp: cycle_member_def Let_def split: option.splits)
  have w: "I k \<Longrightarrow> I (fst (withdraw_invalid fin env defs sts l k))" for defs sts l k
    using withdraw_to_waiting [OF _ fin] by (auto simp: withdraw_invalid_def split: option.splits sum.splits)
  have a: "I k \<Longrightarrow> I (fst (activate fin env defs sts l k))" for defs sts l k
    using withdraw_to_waiting [OF _ fin] create_active [OF _ fin]
    by (auto simp: activate_def Let_def split: option.splits sum.splits)
  let ?p = "any_change (withdraw_invalid fin env (k_definitions k) (current_all_merged k)) (rev (reconcile_order (k_definitions k))) k"
  have p: "I (fst ?p)" by (rule any_change) (use w assms(1) in auto)
  have "I (fst (first_change (activate fin env (k_definitions k) sts) xs (fst ?p)))" for sts xs
    by (rule first_change) (use a p in auto)
  moreover have "I (fst (any_change (cycle_member fin env (k_definitions k) path) xs k))" for path xs
    by (rule any_change) (use c assms(1) in auto)
  ultimately show ?thesis
    using p quiet(14) [OF assms(1)] assms(1)
    by (simp add: reconcile_step_def Let_def case_prod_beta split: option.splits bool.splits)
qed

lemma reconcile_loop [intro]:
  assumes "I k" and fin: "keeps I fin"
  shows "I (reconcile_loop fin env n k)"
  using assms(1)
proof (induction n arbitrary: k)
  case (Suc n)
  from Suc.IH [OF reconcile_step [OF Suc.prems fin]] reconcile_step [OF Suc.prems fin]
  show ?case by (simp add: case_prod_beta)
qed simp

lemma finalize_with [intro]:
  assumes "I k" "\<And>k. I k \<Longrightarrow> I (rc k)"
  shows "I (finalize_with rc inst k)"
proof (cases "ctx_get_by_instance (k_contexts k) inst")
  case None
  then show ?thesis using assms(1) by (simp add: finalize_with_def)
next
  case (Some rec)
  obtain c b where c: "calls_try_claim_cleanup inst (k_calls k) = (c, b)" by force
  have kc: "I (k\<lparr>k_calls := c\<rparr>)" using assms(1) c by blast
  obtain k1 fs where r: "release_context_resources rec (k\<lparr>k_calls := c\<rparr>) = (k1, fs)" by force
  have k1: "I k1" using kc r by blast
  define k2 where "k2 = (if fs = [] then unload rec [(''after'', JStr ''cleanup-settled'')] k1
     else k1\<lparr>k_contexts := ctx_mark_cleanup_pending inst (join ''; '' fs) (k_contexts k1)\<rparr>)"
  have "I k2" using k1 by (simp add: k2_def unload contexts(7))
  then have k3: "I (k2\<lparr>k_calls := calls_release_cleanup_claim inst (k_calls k2)\<rparr>)" by (rule calls(9))
  have "finalize_with rc inst k =
      (if canonical (cr_state rec) \<noteq> CleanupPending then k
       else if 0 < calls_pending_count (k_calls k) inst then refresh_cleanup_cause inst k
       else if \<not> b then k\<lparr>k_calls := c\<rparr>
       else if fs = [] then rc (k2\<lparr>k_calls := calls_release_cleanup_claim inst (k_calls k2)\<rparr>)
       else k2\<lparr>k_calls := calls_release_cleanup_claim inst (k_calls k2)\<rparr>)"
    by (simp add: finalize_with_def Some c r Let_def k2_def split: bool.split)
  then show ?thesis
    using assms(1) refresh_cleanup_cause [OF assms(1)] kc k3 assms(2) [OF k3] by simp
qed

lemma maybe_finalize [intro]: "keeps I (maybe_finalize depth env)"
proof (induction depth)
  case (Suc depth)
  then show ?case by (auto simp: keeps_def reconcile_with_def intro!: finalize_with reconcile_loop)
qed (simp add: keeps_def)

lemma reconcile_I [intro]: "I k \<Longrightarrow> I (reconcile depth env k)"
  by (auto simp: reconcile_def reconcile_with_def)

lemma removed_absent:
  "I k \<Longrightarrow> hm_get (cl_tickets (k_calls k)) i = None \<Longrightarrow> I (k\<lparr>k_calls := fst (calls_remove i (k_calls k))\<rparr>)"
  by (erule other) (simp add: same_tables_def calls_remove_def hm_remove_absent)

lemma settle_ticket_I [intro]:
  assumes "I k" "settle_ticket depth env i k = (k1, r)"
  shows "I k1"
proof (cases "hm_get (cl_tickets (k_calls k)) i")
  case None
  then show ?thesis using removed_absent [OF assms(1) None] assms(2) by (auto simp: settle_ticket_def calls_remove_def)
next
  case (Some t)
  from keepsD [OF maybe_finalize on_end [OF assms(1) Some]]
  show ?thesis using assms(2) Some by (auto simp: settle_ticket_def calls_remove_def)
qed

lemma settle_ticket_fst [intro]: "I k \<Longrightarrow> I (fst (settle_ticket depth env i k))"
  by (cases "settle_ticket depth env i k") auto

lemma call_close_I [intro]: "I k \<Longrightarrow> I (fst (call_close depth env i k))"
proof -
  assume k: "I k"
  show ?thesis
  proof (cases "hm_get (cl_tickets (k_calls k)) i")
    case None
    then show ?thesis using removed_absent [OF k None] by (simp add: call_close_def calls_remove_def)
  next
    case (Some r)
    show ?thesis
      using other [OF on_end [OF k Some] same_tables_end_ticket [OF same_tables_append]] Some
      by (auto simp: call_close_def calls_remove_def split: option.splits)
  qed
qed

lemma call_reap_I [intro]: "I k \<Longrightarrow> I (fst (call_reap depth env i s k))"
  by (auto simp: call_reap_def split: option.splits prod.splits)

lemma grants [intro]:
  assumes "I k"
  shows "I (fst (grant_outbound c cap k))" "I (fst (revoke_outbound c cap k))"
proof -
  have "I (journal_cancelled s ts (k\<lparr>k_grant_seq := n, k_outbound_grants := g, k_calls := cl\<rparr>))"
    if "I (k\<lparr>k_calls := cl\<rparr>)" for s ts n g cl
    by (rule quiet(9), rule other [OF that]) (simp add: same_tables_def)
  moreover have "I (journal_cancelled s ts (k\<lparr>k_outbound_grants := g, k_calls := cl\<rparr>))"
    if "I (k\<lparr>k_calls := cl\<rparr>)" for s ts g cl
    by (rule quiet(9), rule other [OF that]) (simp add: same_tables_def)
  ultimately show "I (fst (grant_outbound c cap k))" "I (fst (revoke_outbound c cap k))"
    using calls(4) [OF assms prod.collapse [symmetric]]
    by (simp_all add: grant_outbound_def revoke_outbound_def Let_def case_prod_beta)
qed

lemma remotes [intro]:
  assumes "I k"
  shows "I (fst (register_remote_provider depth env l i g p k))"
    "I (fst (unregister_remote_provider depth env l k))" "I (install_remote_definition depth env def k)"
proof -
  show "I (fst (register_remote_provider depth env l i g p k))"
    using assms reconcile_I [OF quiet(1) [OF fields(5) [OF assms]]] by (simp add: register_remote_provider_def)
  show "I (fst (unregister_remote_provider depth env l k))"
    using quiet(8) [OF assms] reconcile_I [OF quiet(8) [OF assms]]
    by (simp add: unregister_remote_provider_def case_prod_beta split: bool.split)
  show "I (install_remote_definition depth env def k)"
    unfolding install_remote_definition_def by (rule reconcile_I [OF quiet(8) [OF fields(2) [OF assms]]])
qed

lemma withdraw_previous [intro]: "I k \<Longrightarrow> I (withdraw_previous depth env i k)"
  using dispose_inner [OF _ maybe_finalize] by (simp add: withdraw_previous_def split: option.split)

lemma substitute_waiting [intro]: "I k \<Longrightarrow> I (substitute_waiting i k)"
  using create_waiting_instance by (simp add: substitute_waiting_def split: option.split)

lemma load_manifest_I [intro]: "I k \<Longrightarrow> I (fst (load_manifest depth env path content k))"
  using quiet(12) [OF quiet(13) [OF reconcile_I [OF substitute_waiting [OF withdraw_previous [OF fields(2)]]]]]
  by (simp add: load_manifest_def Let_def split: sum.split)

lemma dispose_plugin_I [intro]: "I k \<Longrightarrow> I (fst (dispose_plugin depth env i k))"
  using reconcile_I [OF dispose_inner [OF quiet(2) [OF fields(2) [OF quiet(8)]] maybe_finalize]]
    reconcile_I [OF quiet(2) [OF fields(2) [OF quiet(8)]]]
  by (simp add: dispose_plugin_def Let_def case_prod_beta split: option.split)

lemma dispose_instance_I [intro]: "I k \<Longrightarrow> I (fst (dispose_instance depth env i k))"
  using reconcile_I [OF dispose_inner [OF _ maybe_finalize]] by (simp add: dispose_instance_def case_prod_beta)

lemma reload_publish [intro]: "I k \<Longrightarrow> I (fst (reload_publish depth env reread ps k))"
proof (induction ps arbitrary: k)
  case (Cons p ps)
  from Cons.IH [OF load_manifest_I [OF Cons.prems]] show ?case
    by (simp add: case_prod_beta split: sum.split)
qed simp

lemma reload_I [intro]: "I k \<Longrightarrow> I (fst (reload depth env dir listing reread message k))"
proof -
  assume "I k"
  then have "I (fst (reload_publish depth env reread ps (fold (\<lambda>i k. fst (dispose_plugin depth env i k)) stale k)))" for ps stale
    by (intro reload_publish fold_I dispose_plugin_I)
  then show ?thesis using \<open>I k\<close> quiet(1)
    by (simp add: reload_def Let_def case_prod_beta split: option.split)
qed

subsubsection \<open>Resources, calls and dispatch\<close>

lemma acquire_confirm [intro]: "I k \<Longrightarrow> I (fst (acquire_confirm l ctx kind h k))"
  using quiet(15) [OF fields(1) [OF rollback_register [OF quiet(4)]]] quiet(16)
  by (simp add: acquire_confirm_def Let_def split: option.split)

lemma acquire_I [intro]: "I k \<Longrightarrow> I (fst (acquire env l kind k))"
proof -
  assume k: "I k"
  have "I (fst (k_register ctx l' kind (env AcqChecked k)))" for ctx l'
    using register [OF env_I [OF k]] by (metis prod.collapse)
  then show ?thesis
    using k acquire_confirm [OF env_I [OF quiet(5) [OF quiet(3) [OF env_I]]]]
    by (simp add: acquire_def case_prod_beta split: option.split sum.split)
qed

lemma acquire_external_I [intro]: "I k \<Longrightarrow> I (fst (acquire_external env l kind ci cg k))"
proof -
  assume k: "I k"
  have "I (fst (k_register ctx l' kind (env AcqChecked k)))" for ctx l'
    using register [OF env_I [OF k]] by (metis prod.collapse)
  then show ?thesis
    using k rollback_register quiet(15) [OF rollback_register [OF quiet(4) [OF env_I [OF quiet(3) [OF env_I]]]]]
      quiet(16) [OF quiet(5) [OF env_I [OF quiet(3) [OF env_I]]]]
    by (simp add: acquire_external_def Let_def case_prod_beta split: option.split sum.split)
qed

lemma acquire_batch_I [intro]: "I k \<Longrightarrow> I (fst (acquire_batch env l kinds k))"
proof -
  have "I (fst (acquire_each env l out kinds k))" if "I k" for out k
    using that
  proof (induction kinds arbitrary: out k)
    case (Cons kd kds)
    from Cons.IH [OF acquire_I [OF Cons.prems]] release_all_I [OF acquire_I [OF Cons.prems]]
    show ?case by (simp add: case_prod_beta split: sum.split)
  qed simp
  then show "I k \<Longrightarrow> I (fst (acquire_batch env l kinds k))" by (simp add: acquire_batch_def)
qed

lemma open_confirm:
  assumes "I k" "\<And>s k. I k \<Longrightarrow> I (nt s k)"
  shows "I (fst (open_confirm depth env nt cap l ctx pol i k))"
  using assms(1) assms(2) [OF settle_ticket_fst [OF assms(1)]]
  by (simp add: open_confirm_def case_prod_beta split: sum.split)

lemma admitted_ticket:
  "I k \<Longrightarrow> calls_inflight_count (k_calls k) < MAX_INFLIGHT_CALLS \<Longrightarrow>
     I (fst (alloc_ticket cap l ctx pol pins (env CallAdmitted k)))"
  by (simp add: alloc_ticket env_I env_room)

lemma call_open_I [intro]: "I k \<Longrightarrow> I (fst (call_open depth env cap input po pins k))"
  using open_confirm [OF env_I [OF quiet(1) [OF admitted_ticket]] quiet(1)]
  by (simp add: call_open_def Let_def case_prod_beta not_le split: sum.split option.split)

lemma call_open_ephemeral_I [intro]: "I k \<Longrightarrow> I (fst (call_open_ephemeral depth env cap k))"
  using open_confirm [OF env_I [OF admitted_ticket], where nt = "\<lambda>_ k. k"]
  by (simp add: call_open_ephemeral_def Let_def case_prod_beta not_le split: sum.split)

lemma commit_provider_check: "I k \<Longrightarrow> I (fst (commit_provider_check t kind k))"
  using quiet(17) by (simp add: commit_provider_check_def commit_owner_check_def Let_def split: option.split)

lemma commit_check: "I k \<Longrightarrow> I (fst (commit_check i kind k))"
proof -
  assume k: "I k"
  have d: "I (fst (dep_chain_check t kind k))" for t using dep_chain_check k by (metis prod.collapse)
  show ?thesis
    using k d commit_provider_check [OF d] quiet(17) [OF k]
    by (simp add: commit_check_def Let_def case_prod_beta split: option.split ticket_state.split sum.split)
qed

lemma commit_effect_I [intro]: "I k \<Longrightarrow> I (fst (commit_effect i kind payload k))"
proof -
  assume k: "I k"
  show ?thesis
  proof (cases "commit_check i kind k")
    case (Pair k1 r)
    show ?thesis
    proof (cases r)
      case (Inl e)
      then show ?thesis using commit_check [OF k, of i kind] by (simp add: commit_effect_def Pair)
    next
      case (Inr t)
      have t: "k1 = k" "hm_get (cl_tickets (k_calls k)) i = Some t" "tr_state t = Admitted"
        using commit_check_ok [of i kind k k1 t] Pair Inr by (simp_all add: calls_get_def)
      let ?c = "fst (calls_push_effect i (tr_logical t) (tr_instance t) (tr_generation t) kind payload (k_wall k) (k_calls k))"
      have c: "I (k\<lparr>k_calls := ?c\<rparr>)"
        using on_calls [OF k, of "CallPush i (tr_logical t) (tr_instance t) (tr_generation t) kind payload (k_wall k)"] by simp
      have "calls_set_state i Committed ?c = calls_mark_committed_if_admitted i ?c"
        by (rule set_state_commit [OF _ t(3)]) (simp add: calls_push_effect_def Let_def t(2))
      then have "I (k\<lparr>k_calls := fst (calls_set_state i Committed ?c)\<rparr>)"
        using on_calls [OF c, of "CallCommit i"] by simp
      then show ?thesis
        using quiet(1) by (simp add: commit_effect_def Pair Inr t commit_apply_def case_prod_beta)
    qed
  qed
qed

lemma invoke_I [intro]:
  assumes "I k" and "\<And>f rq k. fwd = Some f \<Longrightarrow> I k \<Longrightarrow> I (fst (f rq k))"
  shows "I (fst (invoke_bound depth env fwd debug cap input expected k))"
proof -
  have x: "I (fst (invoke_external depth env fwd debug cap input oc tm k))" if "I k" for oc tm k
    using settle_ticket_fst [OF that] settle_ticket_fst [OF assms(2) [OF _ that]]
      settle_ticket_fst [OF settle_ticket_fst [OF assms(2) [OF _ that]]] quiet(18,19)
    by (simp add: invoke_external_def Let_def case_prod_beta split: option.split forward_outcome.split)
  have r: "I (fst (invoke_reducer depth env red cap input oc k))" if "I k" for red oc k
    using settle_ticket_fst [OF that] fault_I [OF settle_ticket_fst [OF that]] quiet(18,19)
    by (simp add: invoke_reducer_def Let_def case_prod_beta split: option.split)
  show ?thesis
    using call_open_ephemeral_I [OF assms(1)] x r settle_ticket_fst
    by (simp add: invoke_bound_def Let_def case_prod_beta split: option.split sum.split execution_kind.split)
qed

lemma emit_I [intro]: "I k \<Longrightarrow> I (fst (emit topic payload k))"
  using quiet(20) [OF fields(3)] fields(4) [OF quiet(20) [OF fields(3)]]
  by (simp add: emit_def Let_def case_prod_beta split: option.split)

lemma replay_I [intro]: "I k \<Longrightarrow> I (fst (replay k))"
  using other [OF _ same_tables_replay] by (simp add: replay_def Let_def case_prod_beta)

lemma reset_bench_I [intro]:
  assumes "I k"
  shows "I (reset_bench depth env k)"
proof -
  have g: "I k \<Longrightarrow> I (reset_generated depth env i k)" for i k
    using fields(2) dispose_inner [OF fields(2) maybe_finalize]
    by (simp add: reset_generated_def Let_def split: option.split)
  have r: "I k \<Longrightarrow> I (reset_resource rr k)" for rr k
    using release_I by (simp add: reset_resource_def split: resource_kind.split)
  have c: "I (fold reset_context (ctx_snapshot (k_contexts k)) k)" if "I k" for k
    using reset_contexts_same [OF contexts_ok [OF that]] that by simp
  show ?thesis
    unfolding reset_bench_def Let_def
    by (intro reconcile_I c fields(1) fold_I [OF r] fold_I [OF g] fields(3) assms)
qed

end

subsection \<open>Runs of the kernel\<close>

text \<open>
  The public operations as commands, and a run as a sequence of commands in which further
  commands run in the windows of each operation. Time passes and the outcome of creating a
  thread changes by commands, too.
\<close>

datatype kcmd =
    KAcquire string resource_kind
  | KAcquireExternal string resource_kind instance_id nat
  | KAcquireBatch string "resource_kind list"
  | KRelease resource_handle
  | KOpen string json "call_policy option" "resource_handle list"
  | KCommit ticket_id string json
  | KCancel ticket_id string
  | KClose ticket_id
  | KReap ticket_id string
  | KAdmit dep_admit
  | KAccept ticket_id
  | KTimeout ticket_id
  | KGrant string string
  | KRevoke string string
  | KRegisterRemote string nat nat string
  | KUnregisterRemote string
  | KInstallRemote stored_manifest
  | KLoad string "(string, json) result"
  | KDisposePlugin string
  | KDisposeInstance instance_id
  | KReload string "(string \<times> (string, json) result) list option" "string \<Rightarrow> (string, json) result" "load_error \<Rightarrow> string"
  | KEmit string json
  | KReplay
  | KResetBench
  | KReconcile
  | KProvide string string
  | KClock nat nat string
  | KSpawnOutcome "string option"

fun kexec :: "nat \<Rightarrow> interference \<Rightarrow> kcmd \<Rightarrow> kernel \<Rightarrow> kernel" where
  "kexec depth env (KAcquire l kind) k = fst (acquire env l kind k)"
| "kexec depth env (KAcquireExternal l kind i g) k = fst (acquire_external env l kind i g k)"
| "kexec depth env (KAcquireBatch l kinds) k = fst (acquire_batch env l kinds k)"
| "kexec depth env (KRelease h) k = fst (release h k)"
| "kexec depth env (KOpen cap input po pins) k = fst (call_open depth env cap input po pins k)"
| "kexec depth env (KCommit i kind payload) k = fst (commit_effect i kind payload k)"
| "kexec depth env (KCancel i reason) k = fst (call_cancel i reason k)"
| "kexec depth env (KClose i) k = fst (call_close depth env i k)"
| "kexec depth env (KReap i reason) k = fst (call_reap depth env i reason k)"
| "kexec depth env (KAdmit req) k = fst (dependency_admit env req k)"
| "kexec depth env (KAccept i) k = fst (dependency_accept i k)"
| "kexec depth env (KTimeout i) k = fst (dependency_timeout i k)"
| "kexec depth env (KGrant c cap) k = fst (grant_outbound c cap k)"
| "kexec depth env (KRevoke c cap) k = fst (revoke_outbound c cap k)"
| "kexec depth env (KRegisterRemote l i g p) k = fst (register_remote_provider depth env l i g p k)"
| "kexec depth env (KUnregisterRemote l) k = fst (unregister_remote_provider depth env l k)"
| "kexec depth env (KInstallRemote d) k = install_remote_definition depth env d k"
| "kexec depth env (KLoad p c) k = fst (load_manifest depth env p c k)"
| "kexec depth env (KDisposePlugin l) k = fst (dispose_plugin depth env l k)"
| "kexec depth env (KDisposeInstance i) k = fst (dispose_instance depth env i k)"
| "kexec depth env (KReload dir ls rr msg) k = fst (reload depth env dir ls rr msg k)"
| "kexec depth env (KEmit topic payload) k = fst (emit topic payload k)"
| "kexec depth env KReplay k = fst (replay k)"
| "kexec depth env KResetBench k = reset_bench depth env k"
| "kexec depth env KReconcile k = reconcile depth env k"
| "kexec depth env (KProvide cap fiber) k = provide cap fiber k"
| "kexec depth env (KClock now wall ts) k = k\<lparr>k_now := max now (k_now k), k_wall := wall, k_ts := ts\<rparr>"
| "kexec depth env (KSpawnOutcome e) k = k\<lparr>k_spawn := e\<rparr>"

fun krun :: "nat \<Rightarrow> interference \<Rightarrow> kcmd list \<Rightarrow> kernel \<Rightarrow> kernel" where
  "krun depth env [] k = k"
| "krun depth env (c # cs) k = krun depth env cs (kexec depth env c k)"

definition quiescent :: interference where
  "quiescent w k = k"

definition interleave :: "nat \<Rightarrow> (window \<Rightarrow> kcmd list) \<Rightarrow> interference" where
  "interleave depth plan w k = krun depth quiescent (plan w) k"

text \<open>Invocations; a host answers after the kernel went through further commands.\<close>

datatype kact =
    Do kcmd
  | Invoke string json "instance_ref option" "(kcmd list \<times> forward_outcome) option"

definition host :: "nat \<Rightarrow> kcmd list \<times> forward_outcome \<Rightarrow> forwarder" where
  "host depth answer rq k = (krun depth quiescent (fst answer) k, snd answer)"

fun kact_exec :: "nat \<Rightarrow> (window \<Rightarrow> kcmd list) \<Rightarrow> (forward_error \<Rightarrow> string) \<Rightarrow> kact \<Rightarrow> kernel \<Rightarrow> kernel" where
  "kact_exec depth plan debug (Do c) k = kexec depth (interleave depth plan) c k"
| "kact_exec depth plan debug (Invoke cap input expected answer) k =
     fst (invoke_bound depth (interleave depth plan) (map_option (host depth) answer) debug cap input expected k)"

fun kact_run :: "nat \<Rightarrow> (window \<Rightarrow> kcmd list) \<Rightarrow> (forward_error \<Rightarrow> string) \<Rightarrow> kact list \<Rightarrow> kernel \<Rightarrow> kernel" where
  "kact_run depth plan debug [] k = k"
| "kact_run depth plan debug (a # as) k = kact_run depth plan debug as (kact_exec depth plan debug a k)"

lemma kact_run_append: "kact_run depth plan debug (as @ bs) k = kact_run depth plan debug bs (kact_run depth plan debug as k)"
  by (induction as arbitrary: k) simp_all

locale kernel_commands = kernel_rely +
  assumes admit_I: "I k \<Longrightarrow> I (fst (dependency_admit env req k))"
begin

lemma kexec_I: "I k \<Longrightarrow> I (kexec depth env c k)"
proof (cases c)
  case (KClock now wall ts)
  assume "I k"
  then show ?thesis using KClock by (auto elim!: other simp: same_tables_def)
next
  case (KSpawnOutcome e)
  assume "I k"
  then show ?thesis using KSpawnOutcome by (auto elim!: other simp: same_tables_def)
qed (use admit_I in \<open>auto simp: provide_def\<close>)

lemma krun_I: "I k \<Longrightarrow> I (krun depth env cs k)"
  by (induction cs arbitrary: k) (simp_all add: kexec_I)

lemma invoke_host_I:
  assumes "I k" "\<And>cs k. I k \<Longrightarrow> I (krun depth quiescent cs k)"
  shows "I (fst (invoke_bound depth env (map_option (host depth) answer) debug cap input expected k))"
proof (rule invoke_I [OF assms(1)])
  fix f rq k
  assume "map_option (host depth) answer = Some f" and k: "I k"
  then obtain a where "f = host depth a" by (cases answer) auto
  then show "I (fst (f rq k))" using assms(2) [OF k] by (simp add: host_def)
qed

end

end
