(* ===== verification/Mx_Runs.thy ===== *)
theory Mx_Runs
  imports Mx_Steps "HOL-Library.Multiset"
begin

text \<open>
  What holds in every run of the kernel, with other operations running in the windows of each
  operation: the tables change by their own operations only, so their properties carry over
  to the kernel; the reservations of dependency calls count the children that exist; and a
  kernel without interference never has more calls in flight than the limit.
\<close>

declare map_of_eq_Some_iff [simp del] Some_eq_map_of_iff [simp del]

subsection \<open>The kernel refines its tables\<close>

datatype kcall_cmd = TableCall call_cmd | ForceExpired ticket_id

fun kcall_exec :: "kcall_cmd \<Rightarrow> calls_table \<Rightarrow> calls_table" where
  "kcall_exec (TableCall c) = call_exec c"
| "kcall_exec (ForceExpired i) = (\<lambda>t. fst (calls_set_state i Expired t))"

fun kcall_run :: "kcall_cmd list \<Rightarrow> calls_table \<Rightarrow> calls_table" where
  "kcall_run [] t = t"
| "kcall_run (c # cs) t = kcall_run cs (kcall_exec c t)"

definition table_trace :: "kernel \<Rightarrow> kernel \<Rightarrow> bool" where
  "table_trace k0 k \<longleftrightarrow> ctx_inv (k_contexts k) \<and>
     (\<exists>cs. k_contexts k = ctx_run cs (k_contexts k0)) \<and>
     (\<exists>rs. k_resources k = res_run rs (k_resources k0)) \<and>
     (\<exists>ts. k_calls k = kcall_run ts (k_calls k0))"

lemma ctx_run_snoc: "ctx_exec c (ctx_run cs t) = ctx_run (cs @ [c]) t"
  by (induction cs arbitrary: t) simp_all

lemma res_run_snoc: "res_exec c (res_run cs t) = res_run (cs @ [c]) t"
  by (induction cs arbitrary: t) simp_all

lemma kcall_run_snoc: "kcall_exec c (kcall_run cs t) = kcall_run (cs @ [c]) t"
  by (induction cs arbitrary: t) simp_all

lemma table_trace_refl: "ctx_inv (k_contexts k) \<Longrightarrow> table_trace k k"
  unfolding table_trace_def
  by (metis ctx_run.simps(1) res_run.simps(1) kcall_run.simps(1))

lemma table_trace_other: "table_trace k0 k \<Longrightarrow> same_tables k k' \<Longrightarrow> table_trace k0 k'"
  by (simp add: table_trace_def same_tables_def)

lemma table_trace_contexts: "table_trace k0 k \<Longrightarrow> table_trace k0 (k\<lparr>k_contexts := ctx_exec c (k_contexts k)\<rparr>)"
  using op_exec.step_inv by (auto simp: table_trace_def ctx_run_snoc)

lemma table_trace_resources: "table_trace k0 k \<Longrightarrow> table_trace k0 (k\<lparr>k_resources := res_exec c (k_resources k)\<rparr>)"
  by (auto simp: table_trace_def res_run_snoc)

lemma table_trace_calls: "table_trace k0 k \<Longrightarrow> table_trace k0 (k\<lparr>k_calls := kcall_exec c (k_calls k)\<rparr>)"
  by (auto simp: table_trace_def kcall_run_snoc)

lemmas table_trace_call = table_trace_calls [of k0 k "TableCall c" for k0 k c, unfolded kcall_exec.simps]

lemma table_trace_revoke: "table_trace k0 k \<Longrightarrow> table_trace k0 (revoke_ticket_descendants i s k)"
  using table_trace_call [of k0 k "CallRevokeDescendants i s"]
  by (simp add: revoke_ticket_descendants_def case_prod_beta table_trace_other [OF _ same_tables_journal_cancelled])

lemma table_trace_usage: "table_trace k0 (k\<lparr>k_dep_usage := u\<rparr>) \<longleftrightarrow> table_trace k0 k"
  by (simp add: table_trace_def)

lemma table_trace_release: "table_trace k0 k \<Longrightarrow> table_trace k0 (dep_release s k)"
  by (simp add: dep_release_def Let_def table_trace_usage)

lemma table_trace_end: "table_trace k0 k \<Longrightarrow> table_trace k0 (end_ticket r i k)"
  by (simp add: end_ticket_def Let_def table_trace_revoke table_trace_release split: option.split)

interpretation tables: kernel_invariant "table_trace k0" "\<lambda>_. True" for k0
proof unfold_locales
  fix k c rc tc i r cap l inst g x e p pins now k'
  show "table_trace k0 k \<Longrightarrow> ctx_inv (k_contexts k)" by (simp add: table_trace_def)
  assume t: "table_trace k0 k"
  show "same_tables k k' \<Longrightarrow> table_trace k0 k'" using t by (rule table_trace_other)
  show "table_trace k0 (k\<lparr>k_contexts := ctx_exec c (k_contexts k)\<rparr>)" using t by (rule table_trace_contexts)
  show "table_trace k0 (k\<lparr>k_resources := res_exec rc (k_resources k)\<rparr>)" using t by (rule table_trace_resources)
  show "table_trace k0 (k\<lparr>k_calls := call_exec tc (k_calls k)\<rparr>)" using t by (rule table_trace_call)
  show "table_trace k0 (k\<lparr>k_calls := call_exec (CallAlloc cap l inst g x e p pins now) (k_calls k)\<rparr>)"
    using t by (rule table_trace_call)
  show "table_trace k0 (k\<lparr>k_calls := fst (calls_set_state i Expired (k_calls k))\<rparr>)"
    using table_trace_calls [OF t, of "ForceExpired i"] by simp
  show "table_trace k0 (end_ticket r i (k\<lparr>k_calls := fst (calls_remove i (k_calls k))\<rparr>))"
    using table_trace_end [OF table_trace_call [OF t, of "CallRemove i"]] by simp
qed

text \<open>Admission of a child, step by step.\<close>

lemma table_trace_dep_alloc: "table_trace k0 k \<Longrightarrow> table_trace k0 (fst (dep_alloc req g k))"
proof -
  assume t: "table_trace k0 k"
  let ?b = "dg_binding g"
  let ?a = "calls_alloc (db_capability ?b) (db_provider_logical ?b) (db_provider_instance ?b) (db_provider_generation ?b)
      (dg_ticket_ctx g) (epoch k) policy_cancel [] False (k_now k) (k_calls k)"
  have "table_trace k0 (k\<lparr>k_calls := fst ?a\<rparr>)"
    using table_trace_call [OF t, of "CallAlloc (db_capability ?b) (db_provider_logical ?b) (db_provider_instance ?b)
      (db_provider_generation ?b) (dg_ticket_ctx g) (epoch k) policy_cancel [] (k_now k)"] by simp
  from table_trace_call [OF this, of "CallDrain (snd ?a) (dep_deadline req g (k_now k))"]
  show ?thesis by (simp add: dep_alloc_def Let_def case_prod_beta)
qed

lemma table_trace_undo: "table_trace k0 k \<Longrightarrow> table_trace k0 (dep_undo i s k)"
  using table_trace_call [of k0 k "CallRemove i"] by (simp add: dep_undo_def table_trace_release)

lemma table_trace_admit:
  assumes t: "table_trace k0 k" and env: "\<And>k w. table_trace k0 k \<Longrightarrow> table_trace k0 (env w k)"
  shows "table_trace k0 (fst (dependency_admit env req k))"
proof -
  let ?k1 = "\<lambda>g. fst (dep_alloc req g (env DepReserved (dep_reserve (da_session req) k)))"
  have k1: "table_trace k0 (?k1 g)" for g
    by (intro table_trace_dep_alloc env) (simp add: dep_reserve_def Let_def table_trace_usage t)
  have m: "table_trace k0 ((?k1 g)\<lparr>k_calls := fst (calls_set_dep_meta i m (k_calls (?k1 g)))\<rparr>)" for g i m
    using table_trace_call [OF k1, of "CallDepMeta i m"] by simp
  have "table_trace k0 (fst (dep_confirm req g i k'))" if "table_trace k0 k'" for g i k'
    using tables.quiet(1) [OF that] tables.quiet(1) [OF table_trace_undo [OF that]] by (simp add: dep_confirm_def)
  then show ?thesis
    using t env [OF m] table_trace_undo [OF m]
    by (simp add: dependency_admit_def case_prod_beta split: sum.split bool.split)
qed

interpretation tables_quiet: kernel_commands "table_trace k0" "\<lambda>_. True" quiescent for k0
  by unfold_locales (simp_all add: quiescent_def table_trace_admit)

lemma tables_interleave: "table_trace k0 k \<Longrightarrow> table_trace k0 (interleave depth plan w k)"
  by (simp add: interleave_def tables_quiet.krun_I)

interpretation tables_run: kernel_commands "table_trace k0" "\<lambda>_. True" "interleave depth plan" for k0 depth plan
  by unfold_locales (simp_all add: tables_interleave table_trace_admit)

lemma table_trace_run: "table_trace k0 k \<Longrightarrow> table_trace k0 (kact_run depth plan debug as k)"
proof (induction as arbitrary: k)
  case (Cons a as)
  have "table_trace k0 (kact_exec depth plan debug a k)"
    using Cons.prems tables_run.kexec_I tables_run.invoke_host_I [OF Cons.prems tables_quiet.krun_I]
    by (cases a) simp_all
  then show ?case using Cons.IH by simp
qed simp

lemma require_active_instance:
  "ctx_inv t \<Longrightarrow> ctx_require_active t i = Inr r \<Longrightarrow> cr_instance r = i"
  by (auto simp: ctx_require_active_def split: option.splits if_splits fsm.splits dest!: ctx_inv_recD simp: ctx_rec_ok_def)

lemma admitted_instance:
  assumes "ctx_inv (k_contexts k)" "admission_record k cap = Inr (l, ctx)"
  shows "ctx_require_active (k_contexts k) (cr_instance ctx) = Inr ctx"
proof -
  obtain i where "admit_context k i = Inr (l, ctx)"
    using assms(2) by (auto simp: admission_record_def split: option.splits if_splits)
  then have "ctx_require_active (k_contexts k) i = Inr ctx"
    by (auto simp: admit_context_def Let_def split: sum.splits if_splits)
  then show ?thesis using require_active_instance [OF assms(1)] by simp
qed

text \<open>Tickets under the commands of the kernel: an issued ticket that is not open stays so.\<close>

lemma kcall_closed:
  assumes "calls_inv t" "i < cl_next_ticket t" "\<not> ticket_open t i"
  shows "calls_inv (kcall_exec c t) \<and> i < cl_next_ticket (kcall_exec c t) \<and> \<not> ticket_open (kcall_exec c t) i"
proof (cases c)
  case (TableCall d)
  then show ?thesis
    using assms op_call_exec.step_inv op_call_exec.closed_stays op_call_exec.step_next [of t d] by auto
next
  case (ForceExpired j)
  then show ?thesis
    using assms
    by (auto simp: calls_set_state_def calls_modify_def calls_inv_def ticket_open_def split: option.splits)
qed

lemma kcall_run_closed:
  "calls_inv t \<Longrightarrow> i < cl_next_ticket t \<Longrightarrow> \<not> ticket_open t i \<Longrightarrow> \<not> ticket_open (kcall_run cs t) i"
  by (induction cs arbitrary: t) (auto dest: kcall_closed)

lemma not_open_no_commit:
  "\<not> ticket_open (k_calls k) i \<Longrightarrow> \<exists>e. snd (commit_effect i kind payload k) = Inl e"
  by (auto simp: commit_effect_def commit_check_def Let_def ticket_open_def calls_get_def
      split: option.splits ticket_state.splits)

lemma not_open_no_accept:
  "\<not> ticket_open (k_calls k) i \<Longrightarrow> \<exists>e. snd (dependency_accept i k) = Inl e"
proof -
  assume o: "\<not> ticket_open (k_calls k) i"
  show ?thesis
  proof (cases "calls_get (k_calls k) i")
    case None
    then show ?thesis by (simp add: dependency_accept_def)
  next
    case (Some t)
    then have "snd (calls_mark_committed_if_admitted i (k_calls k)) = False"
      using o by (auto simp: calls_mark_committed_if_admitted_def modify_if_admitted_def ticket_open_def calls_get_def)
    then show ?thesis using Some dep_chain_check_ok [of t "''result''" k]
      by (auto simp: dependency_accept_def split: prod.splits sum.splits bool.splits)
  qed
qed

subsection \<open>Reservations\<close>

text \<open>
  The tickets that hold a reservation, in all and by session. \<open>dep_ok C\<close> says that the counters
  are these numbers plus the reservations \<open>C\<close> that have no ticket yet.
\<close>

definition holds_for :: "string \<Rightarrow> ticket_record \<Rightarrow> bool" where
  "holds_for s r = (case tr_dep r of None \<Rightarrow> False | Some d \<Rightarrow> dc_session d = s)"

definition children :: "calls_table \<Rightarrow> nat" where
  "children t = hm_count (\<lambda>r. tr_dep r \<noteq> None) (cl_tickets t)"

definition children_of_session :: "string \<Rightarrow> calls_table \<Rightarrow> nat" where
  "children_of_session s t = hm_count (holds_for s) (cl_tickets t)"

definition session_usage :: "kernel \<Rightarrow> string \<Rightarrow> nat" where
  "session_usage k s = opt_or (hm_get (du_per_session (k_dep_usage k)) s) 0"

definition dep_ok :: "string multiset \<Rightarrow> kernel \<Rightarrow> bool" where
  "dep_ok C k \<longleftrightarrow> ctx_inv (k_contexts k) \<and> calls_inv (k_calls k) \<and>
     du_global (k_dep_usage k) = children (k_calls k) + size C \<and>
     (\<forall>s. session_usage k s = children_of_session s (k_calls k) + count C s)"

lemma dep_okI:
  assumes "ctx_inv (k_contexts k)" "calls_inv (k_calls k)"
    "du_global (k_dep_usage k) = children (k_calls k) + size C"
    "\<And>s. session_usage k s = children_of_session s (k_calls k) + count C s"
  shows "dep_ok C k"
  using assms by (simp add: dep_ok_def)

text \<open>Operations that change no reservation keep both numbers.\<close>

definition same_children :: "calls_table \<Rightarrow> calls_table \<Rightarrow> bool" where
  "same_children t t' \<longleftrightarrow> children t' = children t \<and> (\<forall>s. children_of_session s t' = children_of_session s t)"

lemma hm_count_map_values: "(\<And>v. P (f v) = P v) \<Longrightarrow> hm_count P (hm_map_values f m) = hm_count P m"
  unfolding hm_count_def hm_map_values_def by (induction m) auto

lemma hm_count_modify_same: "(\<And>v. P (f v) = P v) \<Longrightarrow> hm_count P (hm_modify k f m) = hm_count P m"
  unfolding hm_count_def hm_modify_def by (induction m) auto

lemma same_children_map:
  "(\<And>r. tr_dep (f r) = tr_dep r) \<Longrightarrow> same_children t (t\<lparr>cl_tickets := hm_map_values f (cl_tickets t)\<rparr>)"
  by (simp add: same_children_def children_def children_of_session_def hm_count_map_values holds_for_def)

lemma same_children_modify: "(\<And>r. tr_dep (f r) = tr_dep r) \<Longrightarrow> same_children t (calls_modify i f t)"
  by (simp add: same_children_def children_def children_of_session_def hm_count_modify_same holds_for_def calls_modify_def)

lemma same_children_refl [simp]: "same_children t t"
  by (simp add: same_children_def)

lemma same_children_revoke [simp]: "same_children t (fst (revoke_where mine s t))"
  by (simp add: revoke_where_def same_children_map mark_cancelled_def)

lemma same_children_exec:
  assumes "keeps_tickets c"
  shows "same_children t (call_exec c t)"
  using assms
proof (cases c)
  case (CallOverdue n)
  then show ?thesis by (simp add: calls_expire_overdue_def same_children_map mark_expired_def)
qed (auto simp: calls_revoke_descendants_def calls_revoke_children_of_consumer_def calls_revoke_grant_children_def
    calls_mark_committed_if_admitted_def calls_expire_ticket_def calls_set_drain_until_def calls_cancel_def
    modify_if_admitted_def mark_cancelled_def mark_expired_def same_children_modify
    calls_push_effect_def calls_try_claim_cleanup_def calls_release_cleanup_claim_def Let_def
    same_children_def [of t "t\<lparr>cl_next_effect := _, cl_effects := _\<rparr>"] same_children_def [of t "t\<lparr>cl_cleanup_claims := _\<rparr>"]
    children_def children_of_session_def
    split: option.split)

lemma dep_ok_same:
  assumes "dep_ok C k" "ctx_inv (k_contexts k')" "calls_inv (k_calls k')" "same_children (k_calls k) (k_calls k')"
    "k_dep_usage k' = k_dep_usage k"
  shows "dep_ok C k'"
  using assms by (simp add: dep_ok_def same_children_def session_usage_def)

lemma dep_ok_exec:
  "dep_ok C k \<Longrightarrow> keeps_tickets c \<Longrightarrow> dep_ok C (k\<lparr>k_calls := call_exec c (k_calls k)\<rparr>)"
  by (rule dep_ok_same, assumption) (simp_all add: same_children_exec op_call_exec.step_inv dep_ok_def)

lemma dep_ok_other: "dep_ok C k \<Longrightarrow> same_tables k k' \<Longrightarrow> dep_ok C k'"
  by (rule dep_ok_same, assumption) (simp_all add: same_tables_def dep_ok_def)

lemma alloc_children:
  assumes "calls_inv t"
  shows "same_children t (fst (calls_alloc cap l inst g x e p pins b now t))"
    "hm_get (cl_tickets t) (snd (calls_alloc cap l inst g x e p pins b now t)) = None"
    "map_option tr_dep (hm_get (cl_tickets (fst (calls_alloc cap l inst g x e p pins b now t)))
       (snd (calls_alloc cap l inst g x e p pins b now t))) = Some None"
proof -
  have "hm_get (cl_tickets t) (cl_next_ticket t) = None"
    using assms by (cases "hm_get (cl_tickets t) (cl_next_ticket t)") (auto simp: calls_inv_def)
  then show "same_children t (fst (calls_alloc cap l inst g x e p pins b now t))"
    "hm_get (cl_tickets t) (snd (calls_alloc cap l inst g x e p pins b now t)) = None"
    "map_option tr_dep (hm_get (cl_tickets (fst (calls_alloc cap l inst g x e p pins b now t)))
       (snd (calls_alloc cap l inst g x e p pins b now t))) = Some None"
    by (simp_all add: calls_alloc_def Let_def same_children_def children_def children_of_session_def
        hm_count_insert_new holds_for_def)
qed

lemma dep_ok_alloc:
  "dep_ok C k \<Longrightarrow> dep_ok C (k\<lparr>k_calls := call_exec (CallAlloc cap l inst g x e p pins now) (k_calls k)\<rparr>)"
  by (rule dep_ok_same, assumption)
    (use op_call_exec.step_inv [of "k_calls k" "CallAlloc cap l inst g x e p pins now"] in
      \<open>simp_all add: alloc_children dep_ok_def\<close>)

text \<open>Removing a ticket leaves its reservation without a ticket, and releasing it gives it back.\<close>

lemma dep_ok_remove:
  assumes ok: "dep_ok C k" and r: "hm_get (cl_tickets (k_calls k)) i = Some r"
  shows "dep_ok (case tr_dep r of None \<Rightarrow> C | Some d \<Rightarrow> add_mset (dc_session d) C)
    (k\<lparr>k_calls := fst (calls_remove i (k_calls k))\<rparr>)"
proof -
  have inv: "calls_inv (k_calls k)" using ok by (simp add: dep_ok_def)
  then have wf: "hm_wf (cl_tickets (k_calls k))" by (simp add: calls_inv_def)
  show ?thesis (is "dep_ok ?C ?k")
  proof (rule dep_okI)
    show "ctx_inv (k_contexts ?k)" using ok by (simp add: dep_ok_def)
    show "calls_inv (k_calls ?k)" using op_call_exec.step_inv [OF inv, of "CallRemove i"] by simp
    show "du_global (k_dep_usage ?k) = children (k_calls ?k) + size ?C"
      using ok hm_count_remove [OF wf r, of "\<lambda>r. tr_dep r \<noteq> None"]
      by (auto simp: dep_ok_def children_def calls_remove_def split: option.splits)
    show "session_usage ?k s = children_of_session s (k_calls ?k) + count ?C s" for s
      using ok hm_count_remove [OF wf r, of "holds_for s"]
      by (auto simp: dep_ok_def children_of_session_def session_usage_def calls_remove_def holds_for_def
          split: option.splits if_splits)
  qed
qed

lemma dep_ok_release:
  assumes ok: "dep_ok (add_mset s C) k"
  shows "dep_ok C (dep_release s k)"
proof -
  have use: "session_usage k s = children_of_session s (k_calls k) + count C s + 1"
    "s' \<noteq> s \<Longrightarrow> session_usage k s' = children_of_session s' (k_calls k) + count C s'" for s'
    using ok by (auto simp: dep_ok_def)
  have "session_usage (dep_release s k) s' = (if s' = s then session_usage k s - 1 else session_usage k s')" for s'
    by (auto simp: session_usage_def dep_release_def Let_def opt_or_def split: option.splits)
  then show ?thesis
    using ok use by (intro dep_okI) (auto simp: dep_ok_def dep_release_def Let_def)
qed

lemma dep_ok_revoke: "dep_ok C k \<Longrightarrow> dep_ok C (revoke_ticket_descendants i s k)"
  using dep_ok_other [OF dep_ok_exec [of C k "CallRevokeDescendants i s"] same_tables_journal_cancelled]
  by (simp add: revoke_ticket_descendants_def case_prod_beta)

lemma dep_ok_end:
  assumes "dep_ok C k" "hm_get (cl_tickets (k_calls k)) i = Some r"
  shows "dep_ok C (end_ticket r i (k\<lparr>k_calls := fst (calls_remove i (k_calls k))\<rparr>))"
  using dep_ok_revoke [OF dep_ok_remove [OF assms]] dep_ok_release
  by (cases "tr_dep r") (simp_all add: end_ticket_def Let_def)

interpretation quota: kernel_invariant "dep_ok C" "\<lambda>_. True" for C
proof unfold_locales
  fix k c rc tc i r cap l inst g x e p pins now k'
  show "dep_ok C k \<Longrightarrow> ctx_inv (k_contexts k)" by (simp add: dep_ok_def)
  assume t: "dep_ok C k"
  show "same_tables k k' \<Longrightarrow> dep_ok C k'" using t by (rule dep_ok_other)
  show "dep_ok C (k\<lparr>k_contexts := ctx_exec c (k_contexts k)\<rparr>)"
    using t op_exec.step_inv by (simp add: dep_ok_def session_usage_def)
  show "dep_ok C (k\<lparr>k_resources := res_exec rc (k_resources k)\<rparr>)"
    using t by (simp add: dep_ok_def session_usage_def)
  show "keeps_tickets tc \<Longrightarrow> dep_ok C (k\<lparr>k_calls := call_exec tc (k_calls k)\<rparr>)" using t by (rule dep_ok_exec)
  show "dep_ok C (k\<lparr>k_calls := call_exec (CallAlloc cap l inst g x e p pins now) (k_calls k)\<rparr>)"
    using t by (rule dep_ok_alloc)
  have "calls_inv (fst (calls_set_state i Expired (k_calls k)))"
    using t by (auto simp: dep_ok_def calls_inv_def calls_set_state_def calls_modify_def split: option.splits if_splits)
  then show "dep_ok C (k\<lparr>k_calls := fst (calls_set_state i Expired (k_calls k))\<rparr>)"
    using t by (intro dep_ok_same [OF t]) (auto simp: dep_ok_def calls_set_state_def same_children_modify split: option.split)
  show "hm_get (cl_tickets (k_calls k)) i = Some r \<Longrightarrow>
      dep_ok C (end_ticket r i (k\<lparr>k_calls := fst (calls_remove i (k_calls k))\<rparr>))"
    using t by (rule dep_ok_end)
qed

lemma dep_ok_reserve: "dep_ok C k \<Longrightarrow> dep_ok (add_mset s C) (dep_reserve s k)"
  by (auto simp: dep_ok_def dep_reserve_def Let_def session_usage_def)

text \<open>A ticket that becomes a child takes over a reservation.\<close>

lemma dep_ok_meta:
  assumes ok: "dep_ok (add_mset (dc_session m) C) k"
    and r: "hm_get (cl_tickets (k_calls k)) i = Some r" "tr_dep r = None"
  shows "dep_ok C (k\<lparr>k_calls := fst (calls_set_dep_meta i m (k_calls k))\<rparr>)"
proof -
  have inv: "calls_inv (k_calls k)" using ok by (simp add: dep_ok_def)
  then have wf: "hm_wf (cl_tickets (k_calls k))" by (simp add: calls_inv_def)
  let ?f = "\<lambda>r. r\<lparr>tr_dep := Some m\<rparr>"
  show ?thesis (is "dep_ok C ?k")
  proof (rule dep_okI)
    show "ctx_inv (k_contexts ?k)" using ok by (simp add: dep_ok_def)
    show "calls_inv (k_calls ?k)" using op_call_exec.step_inv [OF inv, of "CallDepMeta i m"] by simp
    show "du_global (k_dep_usage ?k) = children (k_calls ?k) + size C"
      using ok r hm_count_modify [OF wf r(1), of "\<lambda>r. tr_dep r \<noteq> None" ?f]
      by (simp add: dep_ok_def children_def calls_set_dep_meta_def calls_modify_def)
    show "session_usage ?k s = children_of_session s (k_calls ?k) + count C s" for s
      using ok r hm_count_modify [OF wf r(1), of "holds_for s" ?f]
      by (auto simp: dep_ok_def children_of_session_def session_usage_def calls_set_dep_meta_def calls_modify_def
          holds_for_def split: if_splits)
  qed
qed

lemma dep_ok_dep_alloc:
  assumes ok: "dep_ok C k" and a: "dep_alloc req g k = (k1, i)"
  shows "dep_ok C k1" "\<exists>r. hm_get (cl_tickets (k_calls k1)) i = Some r \<and> tr_dep r = None"
proof -
  let ?b = "dg_binding g"
  define c where "c = calls_alloc (db_capability ?b) (db_provider_logical ?b) (db_provider_instance ?b) (db_provider_generation ?b)
      (dg_ticket_ctx g) (epoch k) policy_cancel [] False (k_now k) (k_calls k)"
  have "dep_ok C (k\<lparr>k_calls := fst c\<rparr>)"
    using dep_ok_alloc [OF ok, of "db_capability ?b" "db_provider_logical ?b" "db_provider_instance ?b"
      "db_provider_generation ?b" "dg_ticket_ctx g" "epoch k" policy_cancel "[]" "k_now k"] by (simp add: c_def)
  from dep_ok_exec [OF this, of "CallDrain (snd c) (dep_deadline req g (k_now k))"]
  show "dep_ok C k1" using a by (auto simp: dep_alloc_def Let_def case_prod_beta c_def)
  have "map_option tr_dep (hm_get (cl_tickets (fst c)) (snd c)) = Some None"
    unfolding c_def using ok by (intro alloc_children) (simp add: dep_ok_def)
  moreover have k1: "k1 = k\<lparr>k_calls := fst (calls_set_drain_until (snd c) (dep_deadline req g (k_now k)) (fst c))\<rparr>" "i = snd c"
    using a by (auto simp: dep_alloc_def Let_def case_prod_beta c_def)
  ultimately show "\<exists>r. hm_get (cl_tickets (k_calls k1)) i = Some r \<and> tr_dep r = None"
    by (auto simp: calls_set_drain_until_def calls_modify_def)
qed

lemma dep_ok_undo:
  assumes "dep_ok C k" "hm_get (cl_tickets (k_calls k)) i = Some r" "tr_dep r = Some d"
  shows "dep_ok C (dep_undo i (dc_session d) k)"
  using dep_ok_release [of "dc_session d" C] dep_ok_remove [OF assms(1,2)] assms(3) by (simp add: dep_undo_def)

lemma dep_ok_admit:
  assumes ok: "dep_ok C k" and env: "\<And>C w k. dep_ok C k \<Longrightarrow> dep_ok C (env w k)" and calm: "\<And>k. env DepRegistered k = k"
  shows "dep_ok C (fst (dependency_admit env req k))"
proof (cases "da_timeout_ms req = 0 \<or> da_session req = [] \<or> da_binding req = []")
  case True
  then show ?thesis using ok by (cases "da_timeout_ms req = 0") (simp_all add: dependency_admit_def)
next
  case False
  show ?thesis
  proof (cases "check_authority req k")
    case (Inl d)
    then show ?thesis using ok by (simp add: dependency_admit_def)
  next
    case g: (Inr g)
    show ?thesis
    proof (cases "check_quotas req (op_limits (dg_policy g)) k")
      case (Inl d)
      then show ?thesis using ok g by (simp add: dependency_admit_def)
    next
      case q: (Inr u)
      obtain k1 i where a: "dep_alloc req g (env DepReserved (dep_reserve (da_session req) k)) = (k1, i)" by force
      note k1 = dep_ok_dep_alloc [OF env [OF dep_ok_reserve [OF ok]] a]
      then obtain r where r: "hm_get (cl_tickets (k_calls k1)) i = Some r" "tr_dep r = None" by blast
      have s: "dc_session (dep_meta req g) = da_session req" by (simp add: dep_meta_def)
      obtain c where c: "calls_set_dep_meta i (dep_meta req g) (k_calls k1) = (c, True)"
        using r by (simp add: calls_set_dep_meta_def)
      let ?k2 = "k1\<lparr>k_calls := c\<rparr>"
      have k2: "dep_ok C ?k2" using dep_ok_meta [of "dep_meta req g" C k1 i r] k1(1) r s c by simp
      have e: "dependency_admit env req k = dep_confirm req g i ?k2"
        using False g q a calm c by (simp add: dependency_admit_def)
      have "hm_get (cl_tickets (k_calls ?k2)) i = Some (r\<lparr>tr_dep := Some (dep_meta req g)\<rparr>)"
        using r c by (auto simp: calls_set_dep_meta_def calls_modify_def)
      from dep_ok_undo [OF k2 this, of "dep_meta req g"] have "dep_ok C (dep_undo i (da_session req) ?k2)" using s by simp
      then show ?thesis unfolding e dep_confirm_def using k2 quota.quiet(1) by simp
    qed
  qed
qed

interpretation quota_quiet: kernel_commands "dep_ok C" "\<lambda>_. True" quiescent for C
  by unfold_locales (simp_all add: quiescent_def dep_ok_admit)

lemma quota_commands:
  assumes "plan DepRegistered = []"
  shows "kernel_commands (dep_ok C) (\<lambda>_. True) (interleave depth plan)"
proof unfold_locales
  have env: "dep_ok C k \<Longrightarrow> dep_ok C (interleave depth plan w k)" for C w k
    by (simp add: interleave_def quota_quiet.krun_I)
  then show "dep_ok C k \<Longrightarrow> dep_ok C (interleave depth plan w k)" for w k .
  have "interleave depth plan DepRegistered k = k" for k by (simp add: interleave_def assms)
  then show "dep_ok C k \<Longrightarrow> dep_ok C (fst (dependency_admit (interleave depth plan) req k))" for k req
    using env by (rule_tac dep_ok_admit)
qed simp

lemma dep_ok_run:
  assumes "plan DepRegistered = []"
  shows "dep_ok C k \<Longrightarrow> dep_ok C (kact_run depth plan debug as k)"
proof (induction as arbitrary: k)
  case (Cons a as)
  note cmd = quota_commands [of plan C depth, OF assms]
  have "dep_ok C (kact_exec depth plan debug a k)"
    using Cons.prems kernel_commands.kexec_I [OF cmd] kernel_commands.invoke_host_I [OF cmd Cons.prems quota_quiet.krun_I]
    by (cases a) simp_all
  then show ?case using Cons.IH by simp
qed simp

lemma dep_ok_new: "dep_ok {#} (kernel_new e j dry)"
proof -
  have "children calls_new = 0" "children_of_session s calls_new = 0" for s
    by (simp_all add: children_def children_of_session_def hm_count_def calls_new_def)
  then show ?thesis by (simp add: dep_ok_def kernel_new_def session_usage_def opt_or_def)
qed

subsection \<open>Calls in flight\<close>

definition inflight_ok :: "kernel \<Rightarrow> bool" where
  "inflight_ok k \<longleftrightarrow> ctx_inv (k_contexts k) \<and> calls_inflight_count (k_calls k) \<le> MAX_INFLIGHT_CALLS"

lemma keeps_tickets_count: "keeps_tickets c \<Longrightarrow> calls_inflight_count (call_exec c t) = calls_inflight_count t"
  by (cases c) (auto simp: calls_defs calls_inflight_count_def Let_def split: option.splits)

lemma inflight_end: "calls_inflight_count (k_calls (end_ticket r i k)) = calls_inflight_count (k_calls k)"
  using same_tables_journal_cancelled
  by (auto simp: end_ticket_def Let_def revoke_ticket_descendants_def case_prod_beta same_tables_def dep_release_def
      calls_defs calls_inflight_count_def split: option.split)

lemma end_contexts: "k_contexts (end_ticket r i k) = k_contexts k"
  using same_tables_journal_cancelled
  by (auto simp: end_ticket_def Let_def revoke_ticket_descendants_def case_prod_beta same_tables_def dep_release_def
      split: option.split)

interpretation inflight: kernel_invariant inflight_ok "\<lambda>k. calls_inflight_count (k_calls k) < MAX_INFLIGHT_CALLS"
proof unfold_locales
  fix k c rc tc i r cap l inst g x e p pins now k'
  show "inflight_ok k \<Longrightarrow> ctx_inv (k_contexts k)" by (simp add: inflight_ok_def)
  assume t: "inflight_ok k"
  show "same_tables k k' \<Longrightarrow> inflight_ok k'" using t by (simp add: inflight_ok_def same_tables_def)
  show "inflight_ok (k\<lparr>k_contexts := ctx_exec c (k_contexts k)\<rparr>)" using t op_exec.step_inv by (simp add: inflight_ok_def)
  show "inflight_ok (k\<lparr>k_resources := res_exec rc (k_resources k)\<rparr>)" using t by (simp add: inflight_ok_def)
  show "keeps_tickets tc \<Longrightarrow> inflight_ok (k\<lparr>k_calls := call_exec tc (k_calls k)\<rparr>)"
    using t by (simp add: inflight_ok_def keeps_tickets_count)
  show "calls_inflight_count (k_calls k) < MAX_INFLIGHT_CALLS \<Longrightarrow>
      inflight_ok (k\<lparr>k_calls := call_exec (CallAlloc cap l inst g x e p pins now) (k_calls k)\<rparr>)"
    using t by (simp add: inflight_ok_def calls_alloc_def Let_def calls_inflight_count_def)
  show "inflight_ok (k\<lparr>k_calls := fst (calls_set_state i Expired (k_calls k))\<rparr>)"
    using t by (auto simp: inflight_ok_def calls_set_state_def calls_modify_def calls_inflight_count_def split: option.split)
  show "inflight_ok (end_ticket r i (k\<lparr>k_calls := fst (calls_remove i (k_calls k))\<rparr>))"
    using t by (simp add: inflight_ok_def inflight_end [unfolded calls_inflight_count_def] end_contexts calls_remove_def
        calls_inflight_count_def order_trans [OF hm_length_remove_le])
qed

lemma inflight_dep_release: "inflight_ok (dep_release s k) = inflight_ok k"
  by (simp add: inflight_ok_def dep_release_def Let_def)

lemma inflight_undo: "inflight_ok k \<Longrightarrow> inflight_ok (dep_undo i s k)"
  by (simp add: dep_undo_def inflight_dep_release)
    (simp add: inflight_ok_def calls_remove_def calls_inflight_count_def order_trans [OF hm_length_remove_le])

lemma inflight_admit:
  assumes ok: "inflight_ok k"
  shows "inflight_ok (fst (dependency_admit quiescent req k))"
proof -
  let ?k0 = "dep_reserve (da_session req) k"
  have room: "calls_inflight_count (k_calls k) < MAX_INFLIGHT_CALLS" if "check_quotas req lim k = Inr u" for lim u
    using that by (auto simp: check_quotas_def split: if_splits)
  have k0: "inflight_ok ?k0" "k_calls ?k0 = k_calls k" using ok by (simp_all add: inflight_ok_def dep_reserve_def Let_def)
  have k1: "inflight_ok (fst (dep_alloc req g ?k0))" if "check_quotas req lim k = Inr u" for g lim u
    using k0 room [OF that]
    by (auto simp: inflight_ok_def dep_alloc_def Let_def case_prod_beta calls_alloc_def calls_set_drain_until_def
        calls_modify_def calls_inflight_count_def split: option.split)
  have m: "inflight_ok (k'\<lparr>k_calls := fst (calls_set_dep_meta i m (k_calls k'))\<rparr>)" if "inflight_ok k'" for k' i m
    using that by (auto simp: inflight_ok_def calls_set_dep_meta_def calls_modify_def calls_inflight_count_def split: option.split)
  have c: "inflight_ok (fst (dep_confirm req g i k'))" if "inflight_ok k'" for g i k'
    using inflight.quiet(1) [OF that] inflight.quiet(1) [OF inflight_undo [OF that]] by (simp add: dep_confirm_def)
  show ?thesis
    using ok c [OF m [OF k1]] inflight_undo [OF m [OF k1]]
    by (simp add: dependency_admit_def quiescent_def case_prod_beta split: sum.split bool.split)
qed

interpretation inflight_quiet: kernel_commands inflight_ok
  "\<lambda>k. calls_inflight_count (k_calls k) < MAX_INFLIGHT_CALLS" quiescent
  by unfold_locales (simp_all add: inflight_admit, simp_all add: quiescent_def)

lemma interleave_nothing: "interleave depth (\<lambda>w. []) = quiescent"
  by (rule ext, rule ext) (simp add: interleave_def quiescent_def)

lemma inflight_run: "inflight_ok k \<Longrightarrow> inflight_ok (kact_run depth (\<lambda>w. []) debug as k)"
proof (induction as arbitrary: k)
  case (Cons a as)
  have "inflight_ok (kact_exec depth (\<lambda>w. []) debug a k)"
    using Cons.prems inflight_quiet.kexec_I inflight_quiet.invoke_host_I [OF Cons.prems inflight_quiet.krun_I]
    by (cases a) (simp_all add: interleave_nothing)
  then show ?case using Cons.IH by simp
qed simp

subsection \<open>Properties\<close>








text \<open>Without interference the calls in flight never exceed the limit.\<close>

theorem inflight_bounded:
  "calls_inflight_count (k_calls (kact_run depth (\<lambda>w. []) debug as (kernel_new e j dry))) \<le> MAX_INFLIGHT_CALLS"
proof -
  have "inflight_ok (kernel_new e j dry)"
    by (simp add: inflight_ok_def kernel_new_def calls_inflight_count_def calls_new_def MAX_INFLIGHT_CALLS_def)
  from inflight_run [OF this] show ?thesis by (simp add: inflight_ok_def)
qed

end
