(* ===== verification/Mx_Store.thy ===== *)
theory Mx_Store
  imports Mx_Json "HOL-Library.Code_Target_Nat"
begin

text \<open>
  The durable control state (matrix-runtime/src/store.rs). The tables of the database are fields of
  a record, keyed by their primary keys, and a statement of SQL is the change it makes to them. The
  handle's \<open>epoch\<close> is the row of \<open>meta\<close> it read when it was opened; nothing else writes that row.
  A \<open>fault\<close> argument is the error of the first statement or commit that fails, if one does: a
  transaction that fails is rolled back, so a faulty operation leaves the tables as they were. The
  text of a JSON value and the parser of such texts are parameters (a record \<open>codec\<close>).
\<close>

declare map_of_eq_Some_iff [simp del] Some_eq_map_of_iff [simp del]

subsection \<open>Tables\<close>

definition MAX_OPS :: nat where
  "MAX_OPS = 100000"

definition MAX_EVENTS :: nat where
  "MAX_EVENTS = 10000"

definition MAX_BODY :: nat where
  "MAX_BODY = 1024 * 1024"

definition I64_MAX :: nat where
  "I64_MAX = 9223372036854775807"

datatype op_state = OpAdmitted | OpCompleted | OpUnknown

fun op_state_text :: "op_state \<Rightarrow> string" where
  "op_state_text OpAdmitted = ''admitted''"
| "op_state_text OpCompleted = ''completed''"
| "op_state_text OpUnknown = ''unknown''"

record op_row =
  or_request :: string
  or_state :: op_state
  or_result :: "string option"

record store =
  st_epoch :: nat
  st_desired :: "(string, string) hmap"
  st_operations :: "(string \<times> string, op_row) hmap"
  st_events :: "(nat \<times> string \<times> string) list"
  st_seq :: nat
  st_fences :: "(string, nat) hmap"
  st_revoked :: "string list"
  st_effects :: "(string \<times> string, string) hmap"

definition store_empty :: store where
  "store_empty = \<lparr>st_epoch = 0, st_desired = [], st_operations = [], st_events = [], st_seq = 0, st_fences = [],
     st_revoked = [], st_effects = []\<rparr>"

datatype admission = AdmNew | AdmCompleted json | AdmUnknown

record codec =
  cd_text :: "json \<Rightarrow> string"
  cd_parse :: "string \<Rightarrow> (string, json) result"

type_synonym fault = "string option"

type_synonym 'a answer = "(string, 'a) result"

text \<open>An operation that the database fails leaves the store alone.\<close>

definition unless_fault :: "fault \<Rightarrow> store \<Rightarrow> store \<times> 'a answer \<Rightarrow> store \<times> 'a answer" where
  "unless_fault flt st r = (case flt of Some e \<Rightarrow> (st, Inl e) | None \<Rightarrow> r)"

subsection \<open>Opening\<close>

text \<open>What the file system and the database answer while the store is opened.\<close>

record open_env =
  oe_io :: fault
  oe_owned :: bool
  oe_schema :: int
  oe_check :: string
  oe_fault :: fault

definition recover_row :: "op_row \<Rightarrow> op_row" where
  "recover_row r = (if or_state r = OpAdmitted then r\<lparr>or_state := OpUnknown\<rparr> else r)"

definition store_open :: "open_env \<Rightarrow> store \<Rightarrow> store \<times> nat answer" where
  "store_open env st =
     (case oe_io env of Some e \<Rightarrow> (st, Inl e) | None \<Rightarrow>
      if oe_owned env then (st, Inl ''store already owned by another runtime'')
      else if 1 < oe_schema env then (st, Inl ''unsupported store schema; refusing downgrade'')
      else if oe_check env \<noteq> ''ok'' then (st, Inl (''store corrupt: '' @ oe_check env))
      else unless_fault (oe_fault env) st
        (if st_epoch st < I64_MAX
         then (st\<lparr>st_epoch := st_epoch st + 1, st_operations := hm_map_values recover_row (st_operations st)\<rparr>,
               Inr (st_epoch st + 1))
         else (st, Inl ''epoch exhausted'')))"

subsection \<open>Principals and definitions\<close>

definition set_revoked :: "fault \<Rightarrow> string \<Rightarrow> bool \<Rightarrow> store \<Rightarrow> store \<times> unit answer" where
  "set_revoked flt who revoked st =
     unless_fault flt st
       (if revoked
        then (st\<lparr>st_revoked := (if who \<in> set (st_revoked st) then st_revoked st else st_revoked st @ [who])\<rparr>, Inr ())
        else (st\<lparr>st_revoked := filter (\<lambda>p. p \<noteq> who) (st_revoked st)\<rparr>, Inr ()))"

definition set_desired :: "codec \<Rightarrow> fault \<Rightarrow> string \<Rightarrow> json \<Rightarrow> store \<Rightarrow> store \<times> unit answer" where
  "set_desired cd flt i body st =
     (let b = cd_text cd body in
      if MAX_BODY < length b then (st, Inl ''resource-exhausted'')
      else unless_fault flt st (st\<lparr>st_desired := hm_insert i b (st_desired st)\<rparr>, Inr ()))"

definition remove_desired :: "fault \<Rightarrow> string \<Rightarrow> store \<Rightarrow> store \<times> unit answer" where
  "remove_desired flt i st = unless_fault flt st (st\<lparr>st_desired := hm_remove i (st_desired st)\<rparr>, Inr ())"

definition desired :: "codec \<Rightarrow> store \<Rightarrow> (string \<times> json) list answer" where
  "desired cd st =
     collect_results (\<lambda>(i, b). bind_result (cd_parse cd b) (\<lambda>v. Inr (i, v))) (sort_key fst (st_desired st))"

subsection \<open>The ledger of operations\<close>

text \<open>What a row that is already there answers.\<close>

definition completed_value :: "codec \<Rightarrow> op_row \<Rightarrow> json answer" where
  "completed_value cd r = (case or_result r of None \<Rightarrow> Inl ''missing result'' | Some s \<Rightarrow> cd_parse cd s)"

definition admit :: "codec \<Rightarrow> fault \<Rightarrow> string \<Rightarrow> string \<Rightarrow> json \<Rightarrow> store \<Rightarrow> store \<times> admission answer" where
  "admit cd flt who i request st =
     (let req = cd_text cd request in
      if i = [] \<or> 128 < length i \<or> 256 < length who then (st, Inl ''invalid operation identity'')
      else if MAX_BODY < length req then (st, Inl ''resource-exhausted'')
      else unless_fault flt st
        (case hm_get (st_operations st) (who, i) of
           Some r \<Rightarrow>
             (st, if or_request r \<noteq> req then Inl ''operation-id-conflict''
                  else if or_state r = OpCompleted then bind_result (completed_value cd r) (\<lambda>v. Inr (AdmCompleted v))
                  else Inr AdmUnknown)
         | None \<Rightarrow>
             if MAX_OPS \<le> length (st_operations st)
             then (st, Inl ''resource-exhausted: durable dedup ledger full; archive/rotate explicitly'')
             else (st\<lparr>st_operations := hm_insert (who, i)
                        \<lparr>or_request = req, or_state = OpAdmitted, or_result = None\<rparr> (st_operations st)\<rparr>,
                   Inr AdmNew)))"

definition finish :: "codec \<Rightarrow> fault \<Rightarrow> string \<Rightarrow> string \<Rightarrow> json \<Rightarrow> bool \<Rightarrow> store \<Rightarrow> store \<times> unit answer" where
  "finish cd flt who i res unknown st =
     (let body = cd_text cd res in
      if MAX_BODY < length body then (st, Inl ''result too large; operation remains unknown'')
      else unless_fault flt st
        (case hm_get (st_operations st) (who, i) of
           Some r \<Rightarrow>
             if or_state r = OpAdmitted
             then (st\<lparr>st_operations := hm_insert (who, i)
                        (r\<lparr>or_state := (if unknown then OpUnknown else OpCompleted), or_result := Some body\<rparr>) (st_operations st)\<rparr>,
                   Inr ())
             else (st, Inl ''operation not admitted'')
         | None \<Rightarrow> (st, Inl ''operation not admitted'')))"

definition operation :: "codec \<Rightarrow> string \<Rightarrow> string \<Rightarrow> store \<Rightarrow> json answer" where
  "operation cd who i st =
     (case hm_get (st_operations st) (who, i) of
        None \<Rightarrow> Inl ''no-such-operation''
      | Some r \<Rightarrow>
          bind_result (case or_result r of None \<Rightarrow> Inr JNull | Some s \<Rightarrow> cd_parse cd s) (\<lambda>v.
          Inr (JObj [(''state'', JStr (op_state_text (or_state r))), (''result'', v)])))"

definition store_event :: "codec \<Rightarrow> fault \<Rightarrow> string \<Rightarrow> json \<Rightarrow> store \<Rightarrow> store \<times> nat answer" where
  "store_event cd flt kind body st =
     (let b = cd_text cd body; seq = st_seq st + 1 in
      if MAX_BODY < length b then (st, Inl ''event too large'')
      else unless_fault flt st
        (st\<lparr>st_seq := seq, st_events := filter (\<lambda>(n, _). \<not> n + MAX_EVENTS \<le> seq) (st_events st @ [(seq, kind, b)])\<rparr>, Inr seq))"

subsection \<open>Fences and effects\<close>

definition TRY_FROM_INT :: string where
  "TRY_FROM_INT = ''out of range integral type conversion attempted''"

definition effect_request :: "string \<Rightarrow> string \<Rightarrow> json \<Rightarrow> json" where
  "effect_request resource key v = JObj [(''resource'', JStr resource), (''key'', JStr key), (''value'', v)]"

definition effect_result :: "nat \<Rightarrow> json" where
  "effect_result epoch = JObj [(''committed'', JBool True), (''fence'', JStr (show_nat epoch))]"

definition store_commit_effect ::
  "codec \<Rightarrow> fault \<Rightarrow> string \<Rightarrow> string \<Rightarrow> string \<Rightarrow> nat \<Rightarrow> string \<Rightarrow> json \<Rightarrow> store \<Rightarrow> store \<times> json answer" where
  "store_commit_effect cd flt who i resource epoch key v st =
     (let req = cd_text cd (effect_request resource key v) in
      if i = [] \<or> 128 < length i \<or> 256 < length key \<or> MAX_BODY < length req then (st, Inl ''resource-exhausted'')
      else unless_fault flt st
        (if I64_MAX < epoch then (st, Inl TRY_FROM_INT)
         else if hm_get (st_fences st) resource \<noteq> Some epoch then (st, Inl ''stale-generation'')
         else case hm_get (st_operations st) (who, i) of
           Some r \<Rightarrow>
             (st, if or_request r \<noteq> req then Inl ''operation-id-conflict''
                  else if or_state r \<noteq> OpCompleted then Inl ''outcome-unknown''
                  else completed_value cd r)
         | None \<Rightarrow>
             if MAX_OPS \<le> length (st_operations st) then (st, Inl ''resource-exhausted'')
             else (st\<lparr>st_effects := hm_insert (resource, key) (cd_text cd v) (st_effects st),
                      st_operations := hm_insert (who, i)
                        \<lparr>or_request = req, or_state = OpCompleted, or_result = Some (cd_text cd (effect_result epoch))\<rparr>
                        (st_operations st)\<rparr>,
                   Inr (effect_result epoch))))"

definition store_effect :: "codec \<Rightarrow> string \<Rightarrow> string \<Rightarrow> store \<Rightarrow> json option answer" where
  "store_effect cd resource key st =
     (case hm_get (st_effects st) (resource, key) of
        None \<Rightarrow> Inr None
      | Some s \<Rightarrow> bind_result (cd_parse cd s) (\<lambda>v. Inr (Some v)))"

definition next_fence :: "fault \<Rightarrow> string \<Rightarrow> store \<Rightarrow> store \<times> nat answer" where
  "next_fence flt resource st =
     unless_fault flt st
       (case hm_get (st_fences st) resource of
          None \<Rightarrow> (st\<lparr>st_fences := hm_insert resource 1 (st_fences st)\<rparr>, Inr 1)
        | Some e \<Rightarrow>
            if e < I64_MAX then (st\<lparr>st_fences := hm_insert resource (e + 1) (st_fences st)\<rparr>, Inr (e + 1))
            else (st, Inl ''fence exhausted''))"

definition store_fence :: "fault \<Rightarrow> string \<Rightarrow> nat \<Rightarrow> store \<Rightarrow> store \<times> unit answer" where
  "store_fence flt resource epoch st =
     (if I64_MAX < epoch then (st, Inl TRY_FROM_INT)
      else unless_fault flt st
        (case hm_get (st_fences st) resource of
           None \<Rightarrow> (st\<lparr>st_fences := hm_insert resource epoch (st_fences st)\<rparr>, Inr ())
         | Some e \<Rightarrow>
             if e \<le> epoch then (st\<lparr>st_fences := hm_insert resource epoch (st_fences st)\<rparr>, Inr ())
             else (st, Inl ''stale-generation'')))"

subsection \<open>Snapshots and backups\<close>

text \<open>A snapshot is a store of its own at a new path; \<open>present\<close> is the error of creating a file that is there.\<close>

definition snapshot_connection :: "fault \<Rightarrow> fault \<Rightarrow> store \<Rightarrow> store answer" where
  "snapshot_connection present flt st =
     (case present of Some e \<Rightarrow> Inl e | None \<Rightarrow> (case flt of Some e \<Rightarrow> Inl e | None \<Rightarrow> Inr st))"

record backup_env =
  be_file :: bool
  be_lock :: "bool option"
  be_open :: fault
  be_schema :: "int answer"
  be_check :: "string answer"
  be_epoch :: bool

definition SUPPORTED_SCHEMA :: int where
  "SUPPORTED_SCHEMA = 1"

definition backup_open :: "(int \<Rightarrow> string) \<Rightarrow> backup_env \<Rightarrow> store \<Rightarrow> nat answer" where
  "backup_open show_int env st =
     (if \<not> be_file env then Inl ''no store image at path''
      else if be_lock env = Some True then Inl ''store owned by a live runtime; stop the service or snapshot it online''
      else case be_open env of Some e \<Rightarrow> Inl (''store corrupt or not a database: '' @ e) | None \<Rightarrow>
        (case be_schema env of
           Inl e \<Rightarrow> Inl (''store corrupt or unreadable: '' @ e)
         | Inr schema \<Rightarrow>
             if schema \<noteq> SUPPORTED_SCHEMA
             then Inl (''unsupported store schema '' @ show_int schema @ ''; refusing version change'')
             else (case be_check env of
                     Inl e \<Rightarrow> Inl (''store corrupt or unreadable: '' @ e)
                   | Inr check \<Rightarrow>
                       if check \<noteq> ''ok'' then Inl (''store corrupt: '' @ check)
                       else if \<not> be_epoch env then Inl ''store image without epoch''
                       else Inr (st_epoch st))))"

definition operation_states :: "store \<Rightarrow> (string, nat) hmap" where
  "operation_states st =
     map (\<lambda>s. (op_state_text s, hm_count (\<lambda>r. or_state r = s) (st_operations st)))
       (filter (\<lambda>s. hm_count (\<lambda>r. or_state r = s) (st_operations st) \<noteq> 0) [OpAdmitted, OpCompleted, OpUnknown])"
subsection \<open>Runs\<close>

text \<open>Every operation that changes the store, and a restart of the runtime on the same file.\<close>

datatype store_cmd =
    SOpen open_env
  | SRevoked fault string bool
  | SDesired fault string json
  | SUndesired fault string
  | SAdmit fault string string json
  | SFinish fault string string json bool
  | SEvent fault string json
  | SCommit fault string string string nat string json
  | SNextFence fault string
  | SFence fault string nat

fun store_exec :: "codec \<Rightarrow> store_cmd \<Rightarrow> store \<Rightarrow> store" where
  "store_exec cd (SOpen env) st = fst (store_open env st)"
| "store_exec cd (SRevoked flt p r) st = fst (set_revoked flt p r st)"
| "store_exec cd (SDesired flt i b) st = fst (set_desired cd flt i b st)"
| "store_exec cd (SUndesired flt i) st = fst (remove_desired flt i st)"
| "store_exec cd (SAdmit flt p i req) st = fst (admit cd flt p i req st)"
| "store_exec cd (SFinish flt p i res unknown) st = fst (finish cd flt p i res unknown st)"
| "store_exec cd (SEvent flt kind b) st = fst (store_event cd flt kind b st)"
| "store_exec cd (SCommit flt p i r e key v) st = fst (store_commit_effect cd flt p i r e key v st)"
| "store_exec cd (SNextFence flt r) st = fst (next_fence flt r st)"
| "store_exec cd (SFence flt r e) st = fst (store_fence flt r e st)"

definition store_run :: "codec \<Rightarrow> store_cmd list \<Rightarrow> store \<Rightarrow> store" where
  "store_run cd cmds st = fold (store_exec cd) cmds st"

lemma store_run_Nil [simp]: "store_run cd [] st = st"
  by (simp add: store_run_def)

text \<open>What can only grow: a row of the ledger stays, keeps its request and, once it is settled, everything; a fence only rises.\<close>

definition row_le :: "op_row \<Rightarrow> op_row \<Rightarrow> bool" where
  "row_le r r' \<longleftrightarrow> or_request r' = or_request r \<and> (or_state r \<noteq> OpAdmitted \<longrightarrow> r' = r)"

definition rows_le :: "('k, 'v) hmap \<Rightarrow> ('v \<Rightarrow> 'v \<Rightarrow> bool) \<Rightarrow> ('k, 'v) hmap \<Rightarrow> bool" where
  "rows_le m le m' \<longleftrightarrow> (\<forall>k v. hm_get m k = Some v \<longrightarrow> (\<exists>v'. hm_get m' k = Some v' \<and> le v v'))"

definition store_le :: "store \<Rightarrow> store \<Rightarrow> bool" where
  "store_le st st' \<longleftrightarrow> rows_le (st_operations st) row_le (st_operations st') \<and> rows_le (st_fences st) (\<le>) (st_fences st')"

lemma rows_le_refl: "(\<And>v. le v v) \<Longrightarrow> rows_le m le m"
  by (simp add: rows_le_def)

lemma rows_le_trans: "(\<And>u v w. le u v \<Longrightarrow> le v w \<Longrightarrow> le u w) \<Longrightarrow> rows_le m le m' \<Longrightarrow> rows_le m' le m'' \<Longrightarrow> rows_le m le m''"
  by (fastforce simp: rows_le_def)

lemma rows_le_insert:
  "(\<And>v. le v v) \<Longrightarrow> (\<And>v. hm_get m k = Some v \<Longrightarrow> le v x) \<Longrightarrow> rows_le m le (hm_insert k x m)"
  by (auto simp: rows_le_def)

lemma rows_le_map: "(\<And>v. le v (f v)) \<Longrightarrow> rows_le m le (hm_map_values f m)"
  by (auto simp: rows_le_def)

lemma row_le_refl [simp]: "row_le r r"
  by (simp add: row_le_def)

lemma rows_le_same [simp]: "rows_le m row_le m" "rows_le (f :: ('k, nat) hmap) (\<le>) f"
  by (simp_all add: rows_le_refl)

lemma row_le_trans: "row_le r r' \<Longrightarrow> row_le r' r'' \<Longrightarrow> row_le r r''"
  by (auto simp: row_le_def)

lemma store_le_refl [simp]: "store_le st st"
  by (simp add: store_le_def rows_le_refl)

lemma store_le_trans: "store_le st st' \<Longrightarrow> store_le st' st'' \<Longrightarrow> store_le st st''"
  unfolding store_le_def by (blast intro: rows_le_trans row_le_trans order_trans)

lemma unless_fault_le: "store_le st (fst r) \<Longrightarrow> store_le st (fst (unless_fault flt st r))"
  by (simp add: unless_fault_def split: option.split)

lemma store_le_same:
  "st_operations st' = st_operations st \<Longrightarrow> st_fences st' = st_fences st \<Longrightarrow> store_le st st'"
  by (simp add: store_le_def rows_le_refl)

lemma store_le_operations:
  "rows_le (st_operations st) row_le (st_operations st') \<Longrightarrow> st_fences st' = st_fences st \<Longrightarrow> store_le st st'"
  by (simp add: store_le_def rows_le_refl)

lemma store_le_fences:
  "rows_le (st_fences st) (\<le>) (st_fences st') \<Longrightarrow> st_operations st' = st_operations st \<Longrightarrow> store_le st st'"
  by (simp add: store_le_def rows_le_refl)

lemma admit_le: "store_le st (fst (admit cd flt p i req st))"
  by (auto simp: admit_def Let_def intro!: unless_fault_le store_le_operations rows_le_insert split: option.split)

lemma finish_le: "store_le st (fst (finish cd flt p i res unknown st))"
  by (auto simp: finish_def Let_def row_le_def intro!: unless_fault_le store_le_operations rows_le_insert split: option.split)

lemma store_commit_effect_le: "store_le st (fst (store_commit_effect cd flt p i r e key v st))"
  by (auto simp: store_commit_effect_def Let_def intro!: unless_fault_le store_le_operations rows_le_insert split: option.split)

lemma next_fence_le: "store_le st (fst (next_fence flt r st))"
  by (auto simp: next_fence_def intro!: unless_fault_le store_le_fences rows_le_insert split: option.split)

lemma store_fence_le: "store_le st (fst (store_fence flt r e st))"
  by (auto simp: store_fence_def intro!: unless_fault_le store_le_fences rows_le_insert split: option.split)

lemma store_open_le: "store_le st (fst (store_open env st))"
  by (auto simp: store_open_def recover_row_def row_le_def intro!: unless_fault_le store_le_operations rows_le_map split: option.split)

lemma store_rest_le:
  "store_le st (fst (set_revoked flt p r st))" "store_le st (fst (set_desired cd flt i b st))"
  "store_le st (fst (remove_desired flt i st))" "store_le st (fst (store_event cd flt kind b st))"
  by (auto simp: set_revoked_def set_desired_def remove_desired_def store_event_def Let_def intro!: unless_fault_le store_le_same)

lemma store_exec_le: "store_le st (store_exec cd cmd st)"
  by (cases cmd) (simp_all add: admit_le finish_le store_commit_effect_le next_fence_le store_fence_le store_open_le store_rest_le)

subsection \<open>A state that only rises\<close>

text \<open>What a client needs of a component whose steps only move up in an order: runs move up as well.\<close>

locale rising =
  fixes step :: "'c \<Rightarrow> 's \<Rightarrow> 's"
    and le :: "'s \<Rightarrow> 's \<Rightarrow> bool"
  assumes le_refl: "le s s"
    and le_trans: "le s t \<Longrightarrow> le t u \<Longrightarrow> le s u"
    and le_step: "le s (step c s)"
begin

lemma le_run: "le s (fold step cs s)"
  by (induction cs arbitrary: s) (auto intro: le_refl le_trans [OF le_step])

end

interpretation ledger: rising "store_exec cd" store_le for cd
  by unfold_locales (auto intro: store_le_trans store_exec_le)

lemma store_run_row:
  assumes "hm_get (st_operations st) k = Some r"
  obtains r' where "hm_get (st_operations (store_run cd cmds st)) k = Some r'" "row_le r r'"
  using assms ledger.le_run [where cd = cd and s = st and cs = cmds]
  unfolding store_run_def store_le_def rows_le_def by blast

lemma store_run_fence:
  assumes "hm_get (st_fences st) k = Some e"
  obtains e' where "hm_get (st_fences (store_run cd cmds st)) k = Some e'" "e \<le> e'"
  using assms ledger.le_run [where cd = cd and s = st and cs = cmds]
  unfolding store_run_def store_le_def rows_le_def by blast

subsection \<open>Exactly once\<close>

lemma unless_fault_Inr: "unless_fault flt st r = (st', Inr x) \<longleftrightarrow> flt = None \<and> r = (st', Inr x)"
  by (auto simp: unless_fault_def split: option.splits)

lemma admit_New:
  assumes "admit cd flt p i req st = (st1, Inr AdmNew)"
  shows "i \<noteq> []" "length i \<le> 128" "length p \<le> 256" "length (cd_text cd req) \<le> MAX_BODY"
    "hm_get (st_operations st1) (p, i) = Some \<lparr>or_request = cd_text cd req, or_state = OpAdmitted, or_result = None\<rparr>"
  using assms by (auto simp: admit_def Let_def unless_fault_Inr split: if_splits option.splits)

lemma admit_known:
  assumes "hm_get (st_operations st) (p, i) = Some r"
  shows "fst (admit cd flt p i req st) = st" "snd (admit cd flt p i req st) \<noteq> Inr AdmNew"
    "snd (admit cd flt p i req st) = Inr a \<Longrightarrow> or_request r = cd_text cd req"
  using assms by (auto simp: admit_def Let_def unless_fault_def split: option.splits if_splits)

lemma commit_known:
  assumes "hm_get (st_operations st) (p, i) = Some r"
  shows "fst (store_commit_effect cd flt p i res e key v st) = st"
  using assms by (auto simp: store_commit_effect_def Let_def unless_fault_def split: option.split)

text \<open>C5. An operation is admitted once. After the ledger has answered that an operation of a principal is new, then in
  whatever is done to the store later, by anyone, restarts of the runtime and failing transactions included, that
  operation is never new again: admitting it again changes nothing, answers at most what became of the first admission,
  and only for the request that was admitted first; and no effect can be committed under its id.\<close>

theorem operation_admitted_once:
  assumes "admit cd flt p i req st = (st1, Inr AdmNew)"
  defines "later \<equiv> \<lambda>cmds. store_run cd cmds st1"
  shows "fst (admit cd flt' p i req' (later cmds)) = later cmds \<and>
    snd (admit cd flt' p i req' (later cmds)) \<noteq> Inr AdmNew \<and>
    (\<forall>a. snd (admit cd flt' p i req' (later cmds)) = Inr a \<longrightarrow> cd_text cd req' = cd_text cd req) \<and>
    fst (store_commit_effect cd flt' p i resource e key v (later cmds)) = later cmds"
proof -
  obtain r' where r': "hm_get (st_operations (later cmds)) (p, i) = Some r'"
    "row_le \<lparr>or_request = cd_text cd req, or_state = OpAdmitted, or_result = None\<rparr> r'"
    unfolding later_def using admit_New(5) [OF assms(1)] by (rule store_run_row)
  show ?thesis using admit_known [OF r'(1)] commit_known [OF r'(1)] r'(2) by (auto simp: row_le_def)
qed

text \<open>A result that was recorded is durable. When an operation was admitted, and later (whatever happened in between)
  finished with a result, then at any later time, after any further operations, failures and restarts, asking again with
  the same request answers exactly that result, and does not run the operation again. The codec of the store is only
  assumed to read back the text it wrote for that result.\<close>

theorem completed_result_durable:
  assumes "admit cd flt p i req st = (st1, Inr AdmNew)"
    and "finish cd flt' p i res False (store_run cd cmds st1) = (st2, Inr ())"
    and "cd_parse cd (cd_text cd res) = Inr res"
  shows "admit cd None p i req (store_run cd cmds' st2) = (store_run cd cmds' st2, Inr (AdmCompleted res))"
proof -
  obtain r where r: "hm_get (st_operations (store_run cd cmds st1)) (p, i) = Some r" "or_request r = cd_text cd req"
    using admit_New(5) [OF assms(1)] by (rule store_run_row) (auto simp: row_le_def)
  then have "hm_get (st_operations st2) (p, i) = Some \<lparr>or_request = cd_text cd req, or_state = OpCompleted, or_result = Some (cd_text cd res)\<rparr>"
    using assms(2) by (cases r) (auto simp: finish_def Let_def unless_fault_Inr split: if_splits)
  then obtain r' where "hm_get (st_operations (store_run cd cmds' st2)) (p, i) = Some r'"
    "r' = \<lparr>or_request = cd_text cd req, or_state = OpCompleted, or_result = Some (cd_text cd res)\<rparr>"
    by (rule store_run_row) (auto simp: row_le_def)
  then show ?thesis
    using admit_New(1-4) [OF assms(1)] assms(3)
    by (simp add: admit_def Let_def unless_fault_def completed_value_def bind_result_def)
qed

lemma next_fence_Inr: "next_fence flt r st = (st1, Inr n) \<Longrightarrow> hm_get (st_fences st1) r = Some n"
  by (auto simp: next_fence_def unless_fault_Inr split: option.splits if_splits)

text \<open>C8. An old writer is fenced off. Once a resource was given the next fence \<open>n\<close>, a commit under any smaller fence is
  refused and changes nothing, at every later time, whatever else is done to the store, restarts included: the check of the
  fence and the write are one transaction, and fences only rise.\<close>

theorem stale_writer_fenced:
  assumes "next_fence flt resource st = (st1, Inr n)" "e < n"
  shows "\<exists>err. store_commit_effect cd flt' p i resource e key v (store_run cd cmds st1) = (store_run cd cmds st1, Inl err)"
proof -
  obtain n' where "hm_get (st_fences (store_run cd cmds st1)) resource = Some n'" "n \<le> n'"
    using next_fence_Inr [OF assms(1)] by (rule store_run_fence)
  then show ?thesis using assms(2) by (auto simp: store_commit_effect_def Let_def unless_fault_def split: option.split)
qed

text \<open>A codec for the examples: a value is written as a text, and one result is read back.\<close>

definition demo_codec :: codec where
  "demo_codec = \<lparr>cd_text = (\<lambda>v. case v of JStr s \<Rightarrow> CHR ''t'' # s | JBool True \<Rightarrow> ''yes'' | _ \<Rightarrow> ''other''),
     cd_parse = (\<lambda>s. if s = ''yes'' then Inr (JBool True) else Inl ''bad'')\<rparr>"

theorem operation_admitted_once_witness:
  "snd (admit demo_codec None ''p'' ''i'' (JStr ''a'') store_empty) = Inr AdmNew \<and>
   snd (admit demo_codec None ''p'' ''i'' (JStr ''a'')
     (store_run demo_codec [SOpen \<lparr>oe_io = None, oe_owned = False, oe_schema = 1, oe_check = ''ok'', oe_fault = None\<rparr>]
       (fst (admit demo_codec None ''p'' ''i'' (JStr ''a'') store_empty)))) \<noteq> Inr AdmNew"
proof -
  let ?a = "admit demo_codec None ''p'' ''i'' (JStr ''a'') store_empty"
  have "snd ?a = Inr AdmNew" by code_simp
  then have "?a = (fst ?a, Inr AdmNew)" by (metis prod.collapse)
  from operation_admitted_once [OF this] \<open>snd ?a = Inr AdmNew\<close> show ?thesis by blast
qed

theorem completed_result_durable_witness:
  "let st1 = fst (admit demo_codec None ''p'' ''i'' (JStr ''a'') store_empty);
       st2 = fst (finish demo_codec None ''p'' ''i'' (JBool True) False st1)
   in snd (admit demo_codec None ''p'' ''i'' (JStr ''a'') (store_run demo_codec [SFinish None ''p'' ''i'' JNull True] st2)) =
      Inr (AdmCompleted (JBool True))"
proof -
  let ?a = "admit demo_codec None ''p'' ''i'' (JStr ''a'') store_empty"
  let ?f = "finish demo_codec None ''p'' ''i'' (JBool True) False (store_run demo_codec [] (fst ?a))"
  have "snd ?a = Inr AdmNew" "snd ?f = Inr ()" by code_simp+
  then have "?a = (fst ?a, Inr AdmNew)" "?f = (fst ?f, Inr ())" by (metis prod.collapse)+
  moreover have "cd_parse demo_codec (cd_text demo_codec (JBool True)) = Inr (JBool True)" by code_simp
  ultimately show ?thesis
    using completed_result_durable [of demo_codec None "''p''" "''i''" "JStr ''a''" store_empty "fst ?a" None "JBool True" "[]" "fst ?f"
        "[SFinish None ''p'' ''i'' JNull True]"]
    by (simp add: Let_def)
qed

theorem stale_writer_fenced_witness:
  "let st = fst (next_fence None ''r'' (fst (next_fence None ''r'' store_empty)))
   in \<exists>err. store_commit_effect demo_codec None ''p'' ''i'' ''r'' 1 ''k'' JNull (store_run demo_codec [SFence None ''r'' 1] st) =
        (store_run demo_codec [SFence None ''r'' 1] st, Inl err)"
proof -
  let ?n = "next_fence None ''r'' (fst (next_fence None ''r'' store_empty))"
  have "snd ?n = Inr 2" by code_simp
  then have "?n = (fst ?n, Inr 2)" by (metis prod.collapse)
  from stale_writer_fenced [OF this, of 1 demo_codec None "''p''" "''i''" "''k''" JNull "[SFence None ''r'' 1]"]
  show ?thesis by (simp add: Let_def)
qed

end
