(* ===== verification/Mx_Guard.thy ===== *)
theory Mx_Guard
  imports Mx_Strings "HOL-Library.Word"
begin

text \<open>
  The execution policy of the operator (matrix-guard/src/lib.rs): the comparison of tokens, the checks
  of a sandbox, the command a component is started with, and the budget of restarts. Times are
  nanoseconds of the monotonic clock. The kernel's view of the spawned process (its seccomp
  program, its groups and signals) is outside the model.
\<close>

unbundle bit_operations_syntax

declare map_of_eq_Some_iff [simp del] Some_eq_map_of_iff [simp del]

subsection \<open>Tokens\<close>

definition byte :: "char \<Rightarrow> 8 word" where
  "byte c = word_of_nat (of_char c)"

definition token_eq :: "string \<Rightarrow> string \<Rightarrow> bool" where
  "token_eq a b =
     (if length a \<noteq> length b then False
      else foldl (\<lambda>n (x, y). n OR (byte x XOR byte y)) 0 (zip a b) = 0)"

lemma byte_eq: "byte x = byte y \<longleftrightarrow> x = y"
proof
  assume "byte x = byte y"
  then have "unat (word_of_nat (of_char x) :: 8 word) = unat (word_of_nat (of_char y) :: 8 word)" by (simp add: byte_def)
  moreover have "of_char c < (256 :: nat)" for c :: char by (metis nat_of_char_less_256)
  ultimately have "(of_char x :: nat) = of_char y" by (simp add: unat_of_nat)
  then show "x = y" by simp
qed simp

lemma xor_zero: "(a XOR b) = 0 \<longleftrightarrow> a = (b :: 8 word)"
proof
  assume "(a XOR b) = 0"
  moreover have "b = (a XOR a) XOR b" by simp
  ultimately show "a = b" by (simp only: xor.assoc xor.right_neutral)
qed simp

lemma or_zero: "(a OR b) = 0 \<longleftrightarrow> a = 0 \<and> b = (0 :: 8 word)"
  by (auto simp: or_eq_0_iff)

lemma fold_or_zero:
  "foldl (\<lambda>n (x, y). n OR (byte x XOR byte y)) n ps = 0 \<longleftrightarrow> n = 0 \<and> (\<forall>(x, y) \<in> set ps. x = y)"
  by (induction ps arbitrary: n) (auto simp: or_zero xor_zero byte_eq)

lemma zip_same: "length a = length b \<Longrightarrow> (\<forall>(x, y) \<in> set (zip a b). x = y) \<longleftrightarrow> a = b"
  by (induction a b rule: list_induct2) auto

lemma token_eq_iff: "token_eq a b \<longleftrightarrow> a = b"
  by (cases "length a = length b") (simp only: token_eq_def fold_or_zero zip_same, simp, auto simp: token_eq_def)

subsection \<open>Sandboxes\<close>

record sandbox =
  sb_workspace :: string
  sb_read_only :: "string list"
  sb_memory_bytes :: nat
  sb_cpu_seconds :: nat
  sb_file_bytes :: nat
  sb_open_files :: nat

text \<open>What the file system says of a path.\<close>

record paths =
  ps_is_dir :: "string \<Rightarrow> bool"
  ps_exists :: "string \<Rightarrow> bool"
  ps_canonical :: "string \<Rightarrow> (string, string) result"

definition is_absolute :: "string \<Rightarrow> bool" where
  "is_absolute p = starts_with p ''/''"

definition sandbox_validate :: "paths \<Rightarrow> sandbox \<Rightarrow> (string, unit) result" where
  "sandbox_validate ps s =
     (if sb_memory_bytes s < 64 * 1024 * 1024 \<or> sb_cpu_seconds s = 0 \<or> sb_file_bytes s = 0 \<or> sb_open_files s < 16
      then Inl ''invalid finite sandbox limits''
      else if \<not> is_absolute (sb_workspace s) \<or> \<not> ps_is_dir ps (sb_workspace s)
      then Inl ''workspace must be an existing absolute private directory''
      else for_each (\<lambda>p. ensure (is_absolute p \<and> ps_exists ps p) ''invalid read-only mount'') (sb_read_only s))"

record command =
  cm_program :: string
  cm_args :: "string list"
  cm_env :: "(string \<times> string) list"
  cm_rlimits :: "(string \<times> nat) list"

text \<open>\<open>Path::starts_with\<close> on an absolute canonical path.\<close>

definition under_usr :: "string \<Rightarrow> bool" where
  "under_usr p \<longleftrightarrow> p = ''/usr'' \<or> starts_with p ''/usr/''"

definition rlimits :: "sandbox \<Rightarrow> (string \<times> nat) list" where
  "rlimits s = [(''RLIMIT_AS'', sb_memory_bytes s), (''RLIMIT_CPU'', sb_cpu_seconds s), (''RLIMIT_FSIZE'', sb_file_bytes s),
     (''RLIMIT_NOFILE'', sb_open_files s), (''RLIMIT_CORE'', 0)]"

definition sandbox_mounts :: "sandbox \<Rightarrow> string \<Rightarrow> string \<Rightarrow> string list" where
  "sandbox_mounts s sock executable =
     [''--bind'', sb_workspace s, ''/workspace'', ''--ro-bind'', sock, sock] @
     (if under_usr executable then [] else [''--ro-bind'', executable, executable]) @
     concat (map (\<lambda>p. [''--ro-bind'', p, p]) (sb_read_only s))"

text \<open>\<open>filter_fd\<close> is the descriptor that holds the system call filter.\<close>

definition spawn_command ::
  "paths \<Rightarrow> (string, nat) result \<Rightarrow> string \<Rightarrow> string list \<Rightarrow> string \<Rightarrow> string \<Rightarrow> sandbox option \<Rightarrow> (string, command) result" where
  "spawn_command ps filter_fd entrypoint args token sock sandbox =
     (case sandbox of
        None \<Rightarrow>
          Inr \<lparr>cm_program = entrypoint, cm_args = args,
               cm_env = [(''PATH'', ''/usr/bin:/bin''), (''MATRIX_LAUNCH_TOKEN'', token)], cm_rlimits = []\<rparr>
      | Some s \<Rightarrow>
          bind_result (sandbox_validate ps s) (\<lambda>_.
          bind_result (ps_canonical ps entrypoint) (\<lambda>executable.
          bind_result filter_fd (\<lambda>fd.
          Inr \<lparr>cm_program = ''/usr/bin/bwrap'',
               cm_args =
                 [''--unshare-all'', ''--die-with-parent'', ''--new-session'', ''--cap-drop'', ''ALL'', ''--clearenv'',
                  ''--ro-bind'', ''/usr'', ''/usr'', ''--symlink'', ''usr/bin'', ''/bin'', ''--symlink'', ''usr/lib'', ''/lib'',
                  ''--symlink'', ''usr/lib'', ''/lib64'', ''--proc'', ''/proc'', ''--dev'', ''/dev'', ''--tmpfs'', ''/tmp''] @
                 sandbox_mounts s sock executable @
                 [''--chdir'', ''/workspace'', ''--setenv'', ''PATH'', ''/usr/bin'', ''--setenv'', ''HOME'', ''/workspace'',
                  ''--setenv'', ''MATRIX_LAUNCH_TOKEN'', token, ''--seccomp'', show_nat fd, ''--'', executable] @ args,
               cm_env = [], cm_rlimits = rlimits s\<rparr>))))"

subsection \<open>Restarts\<close>

record restart_policy =
  rp_max_restarts :: nat
  rp_window_ms :: nat
  rp_backoff_ms :: nat

definition restart_policy_default :: restart_policy where
  "restart_policy_default = \<lparr>rp_max_restarts = 5, rp_window_ms = 10000, rp_backoff_ms = 100\<rparr>"

record restart_budget =
  rb_attempts :: "nat list"
  rb_next :: "nat option"

definition restart_budget_default :: restart_budget where
  "restart_budget_default = \<lparr>rb_attempts = [], rb_next = None\<rparr>"

definition ms :: "nat \<Rightarrow> nat" where
  "ms n = n * 1000000"

definition U64_MAX :: nat where
  "U64_MAX = 2 ^ 64 - 1"

text \<open>The attempts that are still within the window.\<close>

definition drop_old :: "nat \<Rightarrow> restart_policy \<Rightarrow> nat list \<Rightarrow> nat list" where
  "drop_old now p ts = dropWhile (\<lambda>t. ms (rp_window_ms p) \<le> now - t) ts"

definition backoff :: "restart_policy \<Rightarrow> nat \<Rightarrow> nat" where
  "backoff p n =
     (let jitter = (n * 37) mod rp_backoff_ms p;
          scaled = min (rp_backoff_ms p * 2 ^ min n 10) U64_MAX
      in min (min (scaled + jitter) U64_MAX) 60000)"

definition reserve :: "nat \<Rightarrow> restart_policy \<Rightarrow> restart_budget \<Rightarrow> restart_budget \<times> nat option" where
  "reserve now p b =
     (if rp_window_ms p = 0 \<or> rp_backoff_ms p = 0 \<or> 100 < rp_max_restarts p then (b, None)
      else let ts = drop_old now p (rb_attempts b) in
        if rp_max_restarts p \<le> length ts then (b\<lparr>rb_attempts := ts\<rparr>, None)
        else let at = now + ms (backoff p (length ts)) in
          (b\<lparr>rb_attempts := ts @ [now], rb_next := Some at\<rparr>, Some at))"

text \<open>The failures of one component over time, and the times at which a restart was granted.\<close>

fun granted :: "restart_policy \<Rightarrow> restart_budget \<Rightarrow> nat list \<Rightarrow> nat list" where
  "granted p b [] = []"
| "granted p b (now # ts) =
     (case reserve now p b of (b', r) \<Rightarrow> (if r = None then [] else [now]) @ granted p b' ts)"

definition in_window :: "restart_policy \<Rightarrow> nat \<Rightarrow> nat list \<Rightarrow> nat" where
  "in_window p t gs = length (filter (\<lambda>g. t \<le> g \<and> g < t + ms (rp_window_ms p)) gs)"

text \<open>The attempts hold all restarts granted so far that a window which is still open may contain.\<close>

definition budget_inv :: "restart_policy \<Rightarrow> nat \<Rightarrow> nat list \<Rightarrow> nat list \<Rightarrow> bool" where
  "budget_inv p seen past attempts \<longleftrightarrow>
     (\<exists>old. past = old @ attempts \<and> (\<forall>g \<in> set old. g + ms (rp_window_ms p) \<le> seen)) \<and>
     sorted past \<and> (\<forall>g \<in> set past. g \<le> seen) \<and> (\<forall>t. in_window p t past \<le> rp_max_restarts p)"

lemma drop_old_split:
  assumes "sorted ts"
  obtains old where "ts = old @ drop_old now p ts" "\<forall>g \<in> set old. ms (rp_window_ms p) \<le> now - g"
    "\<forall>g \<in> set (drop_old now p ts). now - g < ms (rp_window_ms p)"
proof -
  let ?P = "\<lambda>t. ms (rp_window_ms p) \<le> now - t"
  have 1: "ts = takeWhile ?P ts @ drop_old now p ts" by (simp add: drop_old_def)
  have 2: "\<forall>g \<in> set (takeWhile ?P ts). ?P g" by (meson set_takeWhileD)
  have "\<forall>g \<in> set (drop_old now p ts). now - g < ms (rp_window_ms p)"
  proof (cases "drop_old now p ts")
    case (Cons g gs)
    then have "\<not> ?P g" by (simp add: drop_old_def dropWhile_eq_Cons_conv)
    moreover have "sorted (g # gs)" using sorted_dropWhile [OF assms, of ?P] Cons by (simp add: drop_old_def)
    ultimately show ?thesis using Cons by auto
  qed simp
  then show thesis using that 1 2 by blast
qed
lemma reserve_inv:
  assumes inv: "budget_inv p seen past (rb_attempts b)" and "seen \<le> now" and r: "reserve now p b = (b', r)"
  shows "budget_inv p now (past @ (if r = None then [] else [now])) (rb_attempts b')"
proof -
  obtain old where old: "past = old @ rb_attempts b" "\<forall>g \<in> set old. g + ms (rp_window_ms p) \<le> seen"
    and past: "sorted past" "\<forall>g \<in> set past. g \<le> seen" "\<forall>t. in_window p t past \<le> rp_max_restarts p"
    using inv unfolding budget_inv_def by blast
  have "sorted (rb_attempts b)" using past(1) old(1) by (simp add: sorted_append)
  then obtain gone where gone: "rb_attempts b = gone @ drop_old now p (rb_attempts b)"
    "\<forall>g \<in> set gone. ms (rp_window_ms p) \<le> now - g" "\<forall>g \<in> set (drop_old now p (rb_attempts b)). now - g < ms (rp_window_ms p)"
    by (rule drop_old_split)
  let ?ts = "drop_old now p (rb_attempts b)"
  have le: "\<forall>g \<in> set past. g \<le> now" using past(2) assms(2) by auto
  have split: "past = (old @ gone) @ ?ts" using old(1) gone(1) by simp
  have "g + ms (rp_window_ms p) \<le> now" if "g \<in> set (old @ gone)" for g
  proof (cases "g \<in> set old")
    case True
    then show ?thesis using old(2) assms(2) by (meson le_trans)
  next
    case False
    then have "ms (rp_window_ms p) \<le> now - g" "g \<le> now" using that gone(2) le split by auto
    then show ?thesis by linarith
  qed
  then have dead: "\<forall>g \<in> set (old @ gone). g + ms (rp_window_ms p) \<le> now" by blast
  consider (same) "r = None" "rb_attempts b' = rb_attempts b" | (none) "r = None" "rb_attempts b' = ?ts"
    | (some) "r \<noteq> None" "rb_attempts b' = ?ts @ [now]" "length ?ts < rp_max_restarts p"
    using r by (auto simp: reserve_def Let_def split: if_splits)
  then show ?thesis
  proof cases
    case same
    have "\<forall>g \<in> set old. g + ms (rp_window_ms p) \<le> now" using old(2) assms(2) by (meson le_trans)
    then show ?thesis using same old(1) past le by (simp add: budget_inv_def)
  next
    case none
    then show ?thesis using split dead past le unfolding budget_inv_def by auto
  next
    case some
    have "in_window p t (past @ [now]) \<le> rp_max_restarts p" for t
    proof (cases "t \<le> now \<and> now < t + ms (rp_window_ms p)")
      case True
      have "g < t" if "g \<in> set (old @ gone)" for g using bspec [OF dead that] True by linarith
      then have "filter (\<lambda>g. t \<le> g \<and> g < t + ms (rp_window_ms p)) (old @ gone) = []"
        by (intro filter_False) (simp add: not_le [symmetric] del: set_append)
      then have "in_window p t past \<le> length ?ts" unfolding split in_window_def by (simp only: filter_append append_Nil length_filter_le)
      then show ?thesis using some(3) by (simp add: in_window_def)
    next
      case False
      then show ?thesis using past(3) by (auto simp: in_window_def)
    qed
    moreover have "past @ [now] = (old @ gone) @ rb_attempts b'" using some split by simp
    ultimately show ?thesis using some dead past(1) le unfolding budget_inv_def by (auto simp: sorted_append)
  qed
qed

lemma granted_window:
  "budget_inv p seen past (rb_attempts b) \<Longrightarrow> sorted (seen # ts) \<Longrightarrow> in_window p t (past @ granted p b ts) \<le> rp_max_restarts p"
proof (induction ts arbitrary: seen past b)
  case Nil
  then show ?case by (simp add: budget_inv_def)
next
  case (Cons now ts)
  obtain b' r where r: "reserve now p b = (b', r)" by fastforce
  have "budget_inv p now (past @ (if r = None then [] else [now])) (rb_attempts b')"
    using reserve_inv [OF Cons.prems(1) _ r] Cons.prems(2) by simp
  from Cons.IH [OF this] Cons.prems(2) r show ?case by auto
qed

lemma backoff_bounds: "backoff p n \<le> 60000" "0 < rp_backoff_ms p \<Longrightarrow> 0 < backoff p n"
  by (auto simp: backoff_def Let_def U64_MAX_def)

lemma reserve_at:
  assumes "reserve now p b = (b', Some at)"
  shows "now < at \<and> at \<le> now + ms 60000"
proof -
  have "\<exists>n. at = now + ms (backoff p n) \<and> 0 < rp_backoff_ms p"
    using assms by (auto simp: reserve_def Let_def split: if_splits)
  then show ?thesis using backoff_bounds by (auto simp: ms_def)
qed

lemma spawn_sandboxed:
  "spawn_command ps fd entrypoint args token sock (Some s) = Inr c \<Longrightarrow>
     cm_program c = ''/usr/bin/bwrap'' \<and> cm_rlimits c = rlimits s \<and> cm_env c = [] \<and>
     list_all is_absolute (sb_workspace s # sb_read_only s)"
  by (auto simp: spawn_command_def sandbox_validate_def list_all_iff split: if_splits)

text \<open>A component that keeps failing is restarted at most \<open>max_restarts\<close> times in any window of the policy, wherever the
  window begins, and for any sequence of failures in the order of time; and every restart that is granted is set for a
  time after the failure and at most a minute after it.\<close>

theorem restarts_bounded:
  assumes "sorted failures"
  shows "in_window p t (granted p restart_budget_default failures) \<le> rp_max_restarts p \<and>
    (\<forall>now b. case reserve now p b of (_, Some at) \<Rightarrow> now < at \<and> at \<le> now + ms 60000 | _ \<Rightarrow> True)"
proof -
  have "budget_inv p 0 [] (rb_attempts restart_budget_default)"
    by (simp add: budget_inv_def restart_budget_default_def in_window_def)
  from granted_window [OF this, of failures t] assms show ?thesis
    using reserve_at by (auto split: prod.split option.split)
qed

theorem restarts_bounded_witness:
  "granted \<lparr>rp_max_restarts = 2, rp_window_ms = 10, rp_backoff_ms = 1\<rparr> restart_budget_default [0, 1, 2, 10000000] = [0, 1, 10000000] \<and>
   in_window \<lparr>rp_max_restarts = 2, rp_window_ms = 10, rp_backoff_ms = 1\<rparr> 1
     (granted \<lparr>rp_max_restarts = 2, rp_window_ms = 10, rp_backoff_ms = 1\<rparr> restart_budget_default [0, 1, 2, 10000000]) \<le> 2"
proof
  show "granted \<lparr>rp_max_restarts = 2, rp_window_ms = 10, rp_backoff_ms = 1\<rparr> restart_budget_default [0, 1, 2, 10000000] = [0, 1, 10000000]"
    by (simp add: reserve_def drop_old_def restart_budget_default_def Let_def ms_def)
  show "in_window \<lparr>rp_max_restarts = 2, rp_window_ms = 10, rp_backoff_ms = 1\<rparr> 1
     (granted \<lparr>rp_max_restarts = 2, rp_window_ms = 10, rp_backoff_ms = 1\<rparr> restart_budget_default [0, 1, 2, 10000000]) \<le> 2"
    using restarts_bounded [of "[0, 1, 2, 10000000]" "\<lparr>rp_max_restarts = 2, rp_window_ms = 10, rp_backoff_ms = 1\<rparr>" 1] by simp
qed

end
