(* ===== verification/Mx_Service.thy ===== *)
theory Mx_Service
  imports Mx_Runs Mx_Store Mx_Guard
begin

text \<open>
  The runtime service (matrix-runtime/src/service.rs): operator grants and revocations, the leases
  of remote principals on components, and the operations a peer may ask for, over the kernel, the durable store
  and the restart budgets. Operations run under the lock of the service state; the kernel runs
  under its own interference, and what other threads do to the service while an invocation is
  in the kernel is an argument. Readings of the clock, random tokens, failures of the store and
  of files, and the host's view of child processes are the environment of an operation.
\<close>

declare map_of_eq_Some_iff [simp del] Some_eq_map_of_iff [simp del]

subsection \<open>State\<close>

record grant =
  gr_components :: "string list"
  gr_capabilities :: "string list"

record owner_lease =
  ls_principal :: string
  ls_logical :: string
  ls_token :: string
  ls_fence :: nat
  ls_deadline :: nat
  ls_owner :: instance_ref
  ls_external :: bool
  ls_started :: nat
  ls_retry :: "nat option"
  ls_failed :: bool
  ls_budget :: restart_budget
  ls_renew_seq :: nat

record service =
  sv_kernel :: kernel
  sv_store :: store
  sv_home :: string
  sv_allowed :: "string list"
  sv_leases :: "(string, owner_lease) hmap"
  sv_grants :: "(string, grant) hmap"
  sv_revoked :: "string list"
  sv_outbound :: "(string \<times> string) list"
  sv_restart :: "(string, restart_policy) hmap"
  sv_stopped :: bool
  sv_killed :: "string list"

record senv =
  se_codec :: codec
  se_now :: nat
  se_later :: nat
  se_token :: "string answer"
  se_fault :: fault
  se_fault2 :: fault
  se_file :: fault
  se_depth :: nat
  se_window :: interference
  se_forwarder :: "forwarder option"
  se_debug :: "forward_error \<Rightarrow> string"
  se_show :: "load_error \<Rightarrow> string"
  se_running :: "string \<Rightarrow> bool"
  se_session :: "string \<Rightarrow> nat \<Rightarrow> bool"
  se_between :: "service \<Rightarrow> service"

definition service_open ::
  "bool \<Rightarrow> open_env \<Rightarrow> fault \<Rightarrow> journal answer \<Rightarrow> fault \<Rightarrow> nat \<Rightarrow> string \<Rightarrow> string list \<Rightarrow> (string, grant) hmap \<Rightarrow>
     (string, restart_policy) hmap \<Rightarrow> store \<Rightarrow> service answer" where
  "service_open secure oe dir jrn attach ep home comps grants restart st =
     (if \<not> secure then Inl ''managed runtime requires secure HostPolicy''
      else case store_open oe st of
        (st1, Inl e) \<Rightarrow> Inl e
      | (st1, Inr _) \<Rightarrow>
          (case dir of Some e \<Rightarrow> Inl e | None \<Rightarrow>
           bind_result jrn (\<lambda>j.
           case attach of Some e \<Rightarrow> Inl e | None \<Rightarrow>
           Inr \<lparr>sv_kernel = set_hook (kernel_new ep j False), sv_store = st1, sv_home = home, sv_allowed = comps,
                sv_leases = [], sv_grants = grants, sv_revoked = st_revoked st1, sv_outbound = [], sv_restart = restart,
                sv_stopped = False, sv_killed = []\<rparr>)))"

subsection \<open>Provisioning\<close>

definition valid_component_id :: "string \<Rightarrow> bool" where
  "valid_component_id i \<longleftrightarrow>
     i \<noteq> [] \<and> length i \<le> 128 \<and>
     list_all (\<lambda>c. is_ascii_digit c \<or> (65 \<le> (of_char c :: nat) \<and> of_char c \<le> (90 :: nat)) \<or>
                   (97 \<le> (of_char c :: nat) \<and> of_char c \<le> (122 :: nat)) \<or> c = CHR ''-'' \<or> c = CHR ''_'') i"

definition provision :: "senv \<Rightarrow> json \<Rightarrow> service \<Rightarrow> service \<times> unit answer" where
  "provision env body s =
     (case get_str body ''id'' of
        None \<Rightarrow> (s, Inl ''missing id'')
      | Some i \<Rightarrow>
          if \<not> valid_component_id i then (s, Inl ''invalid component id'')
          else (case parse_manifest_value body of
                  Inl e \<Rightarrow> (s, Inl (se_show env (LoadManifest e)))
                | Inr def \<Rightarrow>
                    if is_external (sm_execution def) \<and> i \<notin> set (sv_allowed s) then (s, Inl ''execution not operator-authorized'')
                    else if sm_remote def then (s, Inl ''remote definitions are installed by the route manager'')
                    else (case set_desired (se_codec env) (se_fault env) i body (sv_store s) of
                            (st, r) \<Rightarrow> (s\<lparr>sv_store := st\<rparr>, r))))"

definition provision_remote :: "senv \<Rightarrow> json \<Rightarrow> service \<Rightarrow> service \<times> unit answer" where
  "provision_remote env body s =
     (case get_str body ''id'' of
        None \<Rightarrow> (s, Inl ''missing id'')
      | Some i \<Rightarrow>
          if \<not> valid_component_id i then (s, Inl ''invalid component id'')
          else (case parse_manifest_value body of
                  Inl e \<Rightarrow> (s, Inl (se_show env (LoadManifest e)))
                | Inr def \<Rightarrow>
                    if \<not> sm_remote def then (s, Inl ''not a remote definition'')
                    else if sm_caps def = [] then (s, Inl ''remote definition provides nothing'')
                    else if sm_requires def \<noteq> [] then (s, Inl ''remote definitions provide only'')
                    else (s\<lparr>sv_kernel := install_remote_definition (se_depth env) (se_window env) def (sv_kernel s)\<rparr>, Inr ())))"

text \<open>The manifest file of a component: its path and the text that was written to it.\<close>

definition materialize :: "senv \<Rightarrow> string \<Rightarrow> service \<Rightarrow> (string \<times> string) answer" where
  "materialize env logical s =
     bind_result (desired (se_codec env) (sv_store s)) (\<lambda>rows.
     case find (\<lambda>(i, _). i = logical) rows of
       None \<Rightarrow> Inl ''component not provisioned''
     | Some (_, body) \<Rightarrow>
         (case se_file env of Some e \<Rightarrow> Inl e
          | None \<Rightarrow> Inr (sv_home s @ ''/plugins/'' @ logical @ ''.json'', cd_text (se_codec env) body)))"

definition load_file :: "senv \<Rightarrow> string \<times> string \<Rightarrow> kernel \<Rightarrow> kernel \<times> string answer" where
  "load_file env file k =
     (case load_manifest (se_depth env) (se_window env) (fst file) (cd_parse (se_codec env) (snd file)) k of
        (k1, Inl e) \<Rightarrow> (k1, Inl (se_show env e))
      | (k1, Inr i) \<Rightarrow> (k1, Inr i))"

subsection \<open>Leases\<close>

definition authorized :: "string \<Rightarrow> service \<Rightarrow> bool" where
  "authorized who s \<longleftrightarrow> hm_contains (sv_grants s) who \<and> who \<notin> set (sv_revoked s)"

definition ttl_ok :: "nat \<Rightarrow> bool" where
  "ttl_ok ttl \<longleftrightarrow> 100 \<le> ttl \<and> ttl \<le> 30000"

definition may_activate :: "string \<Rightarrow> string \<Rightarrow> service \<Rightarrow> bool" where
  "may_activate who logical s \<longleftrightarrow>
     who \<notin> set (sv_revoked s) \<and> (case hm_get (sv_grants s) who of Some g \<Rightarrow> logical \<in> set (gr_components g) | None \<Rightarrow> False)"

definition is_external_def :: "kernel \<Rightarrow> string \<Rightarrow> bool" where
  "is_external_def k logical = (case hm_get (k_definitions k) logical of Some d \<Rightarrow> is_external (sm_execution d) | None \<Rightarrow> False)"

definition lease_created :: "senv \<Rightarrow> string \<Rightarrow> string \<Rightarrow> nat \<Rightarrow> store \<Rightarrow> store \<times> nat answer" where
  "lease_created env logical who fence st =
     store_event (se_codec env) (se_fault2 env) ''lease.created''
       (JObj [(''logical'', JStr logical), (''principal'', JStr who), (''fence'', JStr (show_nat fence))]) st"

definition owner_lease_new :: "senv \<Rightarrow> string \<Rightarrow> string \<Rightarrow> string \<Rightarrow> nat \<Rightarrow> nat \<Rightarrow> instance_ref \<Rightarrow> bool \<Rightarrow> owner_lease" where
  "owner_lease_new env who logical token fence ttl owner external =
     \<lparr>ls_principal = who, ls_logical = logical, ls_token = token, ls_fence = fence, ls_deadline = se_now env + ms ttl,
      ls_owner = owner, ls_external = external, ls_started = se_now env, ls_retry = None, ls_failed = False,
      ls_budget = restart_budget_default, ls_renew_seq = 0\<rparr>"

text \<open>The part of \<open>activate\<close> after the fence was taken and recorded.\<close>

definition activate_load ::
  "senv \<Rightarrow> string \<Rightarrow> string \<Rightarrow> nat \<Rightarrow> string \<Rightarrow> nat \<Rightarrow> string \<times> string \<Rightarrow> service \<Rightarrow> service \<times> json answer" where
  "activate_load env who logical ttl token fence file s =
     (case load_file env file (sv_kernel s) of
        (k1, Inl e) \<Rightarrow>
          (s\<lparr>sv_kernel := fst (dispose_plugin (se_depth env) (se_window env) logical k1)\<rparr>, Inl e)
      | (k1, Inr _) \<Rightarrow>
          (case instance_ref_of k1 logical of
             None \<Rightarrow> (s\<lparr>sv_kernel := k1\<rparr>, Inl ''activation failed'')
           | Some owner \<Rightarrow>
               (s\<lparr>sv_kernel := k1,
                  sv_leases := hm_insert token (owner_lease_new env who logical token fence ttl owner (is_external_def k1 logical)) (sv_leases s)\<rparr>,
                Inr (JObj [(''lease'', JStr token), (''fence'', JStr (show_nat fence)), (''ttl_ms'', j_nat ttl),
                           (''instance'', JStr (describe owner)), (''epoch'', JStr (show_nat (st_epoch (sv_store s))))]))))"

definition activate_lease :: "senv \<Rightarrow> string \<Rightarrow> string \<Rightarrow> nat \<Rightarrow> service \<Rightarrow> service \<times> json answer" where
  "activate_lease env who logical ttl s =
     (if \<not> ttl_ok ttl then (s, Inl ''invalid lease duration'')
      else if \<not> may_activate who logical s then (s, Inl ''permission-denied'')
      else if \<exists>l \<in> set (hm_values (sv_leases s)). ls_logical l = logical then (s, Inl ''component-already-leased'')
      else if 128 \<le> length (sv_leases s) then (s, Inl ''resource-exhausted'')
      else case materialize env logical s of
        Inl e \<Rightarrow> (s, Inl e)
      | Inr file \<Rightarrow>
          (case se_token env of
             Inl e \<Rightarrow> (s, Inl e)
           | Inr token \<Rightarrow>
               (case next_fence (se_fault env) logical (sv_store s) of
                  (st1, Inl e) \<Rightarrow> (s\<lparr>sv_store := st1\<rparr>, Inl e)
                | (st1, Inr fence) \<Rightarrow>
                    (case lease_created env logical who fence st1 of
                       (st2, Inl e) \<Rightarrow> (s\<lparr>sv_store := st2\<rparr>, Inl e)
                     | (st2, Inr _) \<Rightarrow> activate_load env who logical ttl token fence file (s\<lparr>sv_store := st2\<rparr>)))))"

definition healthy :: "nat \<Rightarrow> owner_lease \<Rightarrow> bool" where
  "healthy now l \<longleftrightarrow> now < ls_deadline l \<and> \<not> ls_failed l \<and> ls_retry l = None"

definition validate :: "nat \<Rightarrow> string \<Rightarrow> string \<Rightarrow> nat \<Rightarrow> service \<Rightarrow> owner_lease answer" where
  "validate now who token fence s =
     (if who \<in> set (sv_revoked s) then Inl ''permission-denied''
      else case hm_get (sv_leases s) token of
        None \<Rightarrow> Inl ''stale-generation''
      | Some l \<Rightarrow>
          if \<not> token_eq (ls_principal l) who then Inl ''permission-denied''
          else if ls_fence l \<noteq> fence \<or> ls_deadline l \<le> now then Inl ''stale-generation''
          else if ls_failed l \<or> ls_retry l \<noteq> None then Inl ''context-not-active''
          else Inr l)"

definition lease_ready :: "senv \<Rightarrow> owner_lease \<Rightarrow> service \<Rightarrow> bool" where
  "lease_ready env l s \<longleftrightarrow>
     context_state_of (sv_kernel s) (ls_logical l) = Some ''Active'' \<and>
     (\<not> ls_external l \<or> se_session env (ls_logical l) (ir_instance (ls_owner l)))"

definition status_fields :: "senv \<Rightarrow> owner_lease \<Rightarrow> service \<Rightarrow> (string \<times> json) list" where
  "status_fields env l s =
     [(''ready'', JBool (lease_ready env l s)), (''instance'', JStr (describe (ls_owner l))),
      (''remaining_ms'', j_nat ((ls_deadline l - se_now env) div 1000000))]"

definition lease_status_by_token :: "senv \<Rightarrow> string \<Rightarrow> string \<Rightarrow> service \<Rightarrow> json answer" where
  "lease_status_by_token env who token s =
     (case hm_get (sv_leases s) token of
        None \<Rightarrow> Inl ''stale-generation''
      | Some l \<Rightarrow>
          if ls_principal l \<noteq> who then Inl ''permission-denied''
          else if \<not> healthy (se_now env) l then Inl ''stale-generation''
          else Inr (JObj (status_fields env l s @ [(''fence'', JStr (show_nat (ls_fence l)))])))"

definition lease_status :: "senv \<Rightarrow> string \<Rightarrow> string \<Rightarrow> nat \<Rightarrow> service \<Rightarrow> json answer" where
  "lease_status env who token fence s =
     bind_result (validate (se_now env) who token fence s) (\<lambda>l. Inr (JObj (status_fields env l s)))"

text \<open>A renewal moves the lease to a new token.\<close>

definition rotate :: "senv \<Rightarrow> string \<Rightarrow> string \<Rightarrow> nat \<Rightarrow> (owner_lease \<Rightarrow> owner_lease) \<Rightarrow> owner_lease \<Rightarrow> service \<Rightarrow> service" where
  "rotate env token new ttl change l s =
     s\<lparr>sv_leases := hm_insert new (change (l\<lparr>ls_token := new, ls_deadline := se_now env + ms ttl\<rparr>)) (hm_remove token (sv_leases s))\<rparr>"

definition renewed :: "string \<Rightarrow> nat \<Rightarrow> nat \<Rightarrow> (string \<times> json) list" where
  "renewed token fence ttl = [(''lease'', JStr token), (''fence'', JStr (show_nat fence)), (''ttl_ms'', j_nat ttl)]"

definition renew :: "senv \<Rightarrow> string \<Rightarrow> string \<Rightarrow> nat \<Rightarrow> nat \<Rightarrow> service \<Rightarrow> service \<times> json answer" where
  "renew env who token fence ttl s =
     (if \<not> ttl_ok ttl then (s, Inl ''invalid lease duration'')
      else case validate (se_now env) who token fence s of
        Inl e \<Rightarrow> (s, Inl e)
      | Inr l \<Rightarrow>
          (case se_token env of
             Inl e \<Rightarrow> (s, Inl e)
           | Inr new \<Rightarrow> (rotate env token new ttl (\<lambda>l. l) l s, Inr (JObj (renewed new fence ttl)))))"

definition replays :: "senv \<Rightarrow> string \<Rightarrow> string \<Rightarrow> nat \<Rightarrow> nat \<Rightarrow> service \<Rightarrow> owner_lease option" where
  "replays env who token fence seq s =
     (case hm_get (sv_leases s) token of
        None \<Rightarrow> None
      | Some l \<Rightarrow>
          if ls_principal l = who \<and> ls_fence l = fence \<and> ls_renew_seq l = seq \<and> healthy (se_now env) l then Some l else None)"

definition renew_seq :: "senv \<Rightarrow> string \<Rightarrow> string \<Rightarrow> nat \<Rightarrow> nat \<Rightarrow> nat \<Rightarrow> service \<Rightarrow> service \<times> json answer" where
  "renew_seq env who token fence seq ttl s =
     (if \<not> ttl_ok ttl then (s, Inl ''invalid lease duration'')
      else if seq = 0 then (s, Inl ''invalid-message'')
      else case replays env who token fence seq s of
        Some l \<Rightarrow> (s, Inr (JObj (renewed (ls_token l) fence ttl @ [(''replay'', JBool True)])))
      | None \<Rightarrow>
          (case validate (se_now env) who token fence s of
             Inl e \<Rightarrow> (s, Inl e)
           | Inr l \<Rightarrow>
               if seq < ls_renew_seq l then (s, Inl ''stale-generation'')
               else (case se_token env of
                       Inl e \<Rightarrow> (s, Inl e)
                     | Inr new \<Rightarrow>
                         (rotate env token new ttl (\<lambda>l. l\<lparr>ls_renew_seq := seq\<rparr>) l s, Inr (JObj (renewed new fence ttl))))))"

definition lease_snapshot_by_token :: "nat \<Rightarrow> string \<Rightarrow> string \<Rightarrow> service \<Rightarrow> (string \<times> instance_ref \<times> nat) option" where
  "lease_snapshot_by_token now who token s =
     (if who \<in> set (sv_revoked s) then None
      else case hm_get (sv_leases s) token of
        None \<Rightarrow> None
      | Some l \<Rightarrow>
          if ls_principal l \<noteq> who \<or> \<not> healthy now l then None else Some (ls_logical l, ls_owner l, ls_fence l))"

definition lease_snapshot :: "nat \<Rightarrow> string \<Rightarrow> string \<Rightarrow> nat \<Rightarrow> service \<Rightarrow> (string \<times> instance_ref) option" where
  "lease_snapshot now who token fence s =
     (case validate now who token fence s of Inl _ \<Rightarrow> None | Inr l \<Rightarrow> Some (ls_logical l, ls_owner l))"

definition live_provider_fences :: "nat \<Rightarrow> string \<Rightarrow> service \<Rightarrow> (string \<times> nat) list" where
  "live_provider_fences now who s =
     sort (foldl (\<lambda>out l. if ls_principal l = who \<and> healthy now l \<and> ls_logical l \<notin> fst ` set out
                          then out @ [(ls_logical l, ls_fence l)] else out) [] (hm_values (sv_leases s)))"

definition live_lease_count :: "service \<Rightarrow> nat" where
  "live_lease_count s = length (sv_leases s)"

definition grant_covers :: "string \<Rightarrow> string \<Rightarrow> service \<Rightarrow> bool" where
  "grant_covers who cap s \<longleftrightarrow>
     who \<notin> set (sv_revoked s) \<and> (case hm_get (sv_grants s) who of Some g \<Rightarrow> cap \<in> set (gr_capabilities g) | None \<Rightarrow> False)"

definition lease_live :: "nat \<Rightarrow> string \<Rightarrow> string \<Rightarrow> nat \<Rightarrow> instance_ref \<Rightarrow> service \<Rightarrow> bool" where
  "lease_live now who logical fence owner s \<longleftrightarrow>
     who \<notin> set (sv_revoked s) \<and>
     (\<exists>l \<in> set (hm_values (sv_leases s)). ls_principal l = who \<and> ls_logical l = logical \<and> ls_fence l = fence \<and>
        ls_owner l = owner \<and> now < ls_deadline l \<and> \<not> ls_failed l)"

subsection \<open>Invocations and effects\<close>

text \<open>
  An invocation: the lease and the grants are checked under the lock and the operation is admitted by the ledger, the
  kernel runs it while other threads work on the service, and the lease is looked at again before the result is recorded.
\<close>

definition invoke_check :: "senv \<Rightarrow> string \<Rightarrow> string \<Rightarrow> nat \<Rightarrow> string \<Rightarrow> service \<Rightarrow> owner_lease answer" where
  "invoke_check env who token fence cap s =
     bind_result (validate (se_now env) who token fence s) (\<lambda>l.
     if \<not> (case hm_get (sv_grants s) who of Some g \<Rightarrow> cap \<in> set (gr_capabilities g) | None \<Rightarrow> False) then Inl ''permission-denied''
     else if \<not> (case hm_get (k_definitions (sv_kernel s)) (ls_logical l) of Some d \<Rightarrow> cap \<in> set (sm_caps d) | None \<Rightarrow> False)
     then Inl ''permission-denied''
     else Inr l)"

definition invoke_request :: "string \<Rightarrow> string \<Rightarrow> json \<Rightarrow> json" where
  "invoke_request logical cap input = JObj [(''logical'', JStr logical), (''cap'', JStr cap), (''input'', input)]"

definition is_unknown_code :: "json \<Rightarrow> bool" where
  "is_unknown_code v \<longleftrightarrow> opt_or (get_str v ''code'') [] \<in> {''outcome-unknown'', ''deadline-exceeded'', ''cancelled''}"

definition invoke_record ::
  "senv \<Rightarrow> string \<Rightarrow> string \<Rightarrow> string \<Rightarrow> nat \<Rightarrow> instance_ref \<Rightarrow> json \<times> bool \<Rightarrow> service \<Rightarrow> service \<times> json answer" where
  "invoke_record env who oper logical fence owner out s =
     (let current = lease_live (se_later env) who logical fence owner s;
          unknown = (\<not> current \<or> is_unknown_code (fst out));
          res = (if \<not> current
                 then JObj [(''ok'', JBool False), (''value'', JObj [(''code'', JStr ''outcome-unknown'')]), (''durability'', JStr ''durable'')]
                 else JObj [(''ok'', JBool (snd out)), (''value'', fst out), (''durability'', JStr ''durable'')])
      in case finish (se_codec env) (se_fault2 env) who oper res unknown (sv_store s) of
           (st, Inl e) \<Rightarrow> (s\<lparr>sv_store := st\<rparr>, Inl e)
         | (st, Inr _) \<Rightarrow> (s\<lparr>sv_store := st\<rparr>, Inr res))"

text \<open>Up to the answer of the kernel: an answer to the peer, or what is to be recorded.\<close>

definition invoke_begin ::
  "senv \<Rightarrow> string \<Rightarrow> string \<Rightarrow> nat \<Rightarrow> string \<Rightarrow> string \<Rightarrow> json \<Rightarrow> service \<Rightarrow> service \<times> (json answer + owner_lease \<times> json \<times> bool)" where
  "invoke_begin env who token fence oper cap input s =
     (case invoke_check env who token fence cap s of
        Inl e \<Rightarrow> (s, Inl (Inl e))
      | Inr l \<Rightarrow>
          (case admit (se_codec env) (se_fault env) who oper (invoke_request (ls_logical l) cap input) (sv_store s) of
             (st, Inl e) \<Rightarrow> (s\<lparr>sv_store := st\<rparr>, Inl (Inl e))
           | (st, Inr (AdmCompleted v)) \<Rightarrow> (s\<lparr>sv_store := st\<rparr>, Inl (Inr v))
           | (st, Inr AdmUnknown) \<Rightarrow> (s\<lparr>sv_store := st\<rparr>, Inl (Inl ''outcome-unknown''))
           | (st, Inr AdmNew) \<Rightarrow>
               (let s1 = s\<lparr>sv_store := st\<rparr> in
                if instance_ref_of (sv_kernel s1) (ls_logical l) \<noteq> Some (ls_owner l) then (s1, Inl (Inl ''stale-generation''))
                else case invoke_for_ref (se_depth env) (se_window env) (se_forwarder env) (se_debug env) (ls_owner l) cap input (sv_kernel s1) of
                  (k1, out) \<Rightarrow> (s1\<lparr>sv_kernel := k1\<rparr>, Inr (l, out)))))"

definition invoke_lease ::
  "senv \<Rightarrow> string \<Rightarrow> string \<Rightarrow> nat \<Rightarrow> string \<Rightarrow> string \<Rightarrow> json \<Rightarrow> service \<Rightarrow> service \<times> json answer" where
  "invoke_lease env who token fence oper cap input s =
     (case invoke_begin env who token fence oper cap input s of
        (s1, Inl r) \<Rightarrow> (s1, r)
      | (s1, Inr (l, out)) \<Rightarrow> invoke_record env who oper (ls_logical l) fence (ls_owner l) out (se_between env s1))"

definition EFFECT_WRITE :: string where
  "EFFECT_WRITE = ''matrix.effect.write''"

definition commit_lease_effect ::
  "senv \<Rightarrow> string \<Rightarrow> string \<Rightarrow> nat \<Rightarrow> string \<Rightarrow> string \<Rightarrow> json \<Rightarrow> service \<Rightarrow> service \<times> json answer" where
  "commit_lease_effect env who token fence oper key v s =
     (case validate (se_now env) who token fence s of
        Inl e \<Rightarrow> (s, Inl e)
      | Inr l \<Rightarrow>
          if \<not> (case hm_get (sv_grants s) who of Some g \<Rightarrow> EFFECT_WRITE \<in> set (gr_capabilities g) | None \<Rightarrow> False)
          then (s, Inl ''permission-denied'')
          else (case store_commit_effect (se_codec env) (se_fault env) who oper (ls_logical l) fence key v (sv_store s) of
                  (st, r) \<Rightarrow> (s\<lparr>sv_store := st\<rparr>, r)))"

subsection \<open>The end of a lease\<close>

definition retire :: "senv \<Rightarrow> owner_lease \<Rightarrow> service \<Rightarrow> service \<times> json" where
  "retire env l s =
     (case dispose_plugin (se_depth env) (se_window env) (ls_logical l) (sv_kernel s) of
        (k1, out) \<Rightarrow>
          (let clean = (outcome_as_str out \<noteq> ''CleanupPending'' \<and> \<not> se_running env (ls_logical l) \<and>
                        active_resources_for k1 (ls_logical l) = 0)
           in case store_event (se_codec env) (se_fault env) ''lease.retired''
                (JObj [(''logical'', JStr (ls_logical l)), (''fence'', JStr (show_nat (ls_fence l))), (''cleanup_confirmed'', JBool clean)])
                (sv_store s) of
                (st, audit) \<Rightarrow>
                  (s\<lparr>sv_kernel := k1, sv_killed := sv_killed s @ [ls_logical l], sv_store := st\<rparr>,
                   JObj [(''state'', JStr (if clean then ''Disposed'' else ''CleanupPending'')), (''kernel'', JStr (outcome_as_str out)),
                         (''audit_durable'', JBool (\<not> isl audit))])))"

definition release_lease :: "senv \<Rightarrow> string \<Rightarrow> string \<Rightarrow> nat \<Rightarrow> service \<Rightarrow> service \<times> json answer" where
  "release_lease env who token fence s =
     (case hm_get (sv_leases s) token of
        None \<Rightarrow> (s, Inl ''stale-generation'')
      | Some l \<Rightarrow>
          if ls_principal l \<noteq> who then (s, Inl ''permission-denied'')
          else if ls_fence l \<noteq> fence then (s, Inl ''stale-generation'')
          else (case retire env l (s\<lparr>sv_leases := hm_remove token (sv_leases s)\<rparr>) of (s1, v) \<Rightarrow> (s1, Inr v)))"

definition retire_key :: "senv \<Rightarrow> string \<Rightarrow> service \<Rightarrow> service" where
  "retire_key env token s =
     (case hm_get (sv_leases s) token of
        None \<Rightarrow> s
      | Some l \<Rightarrow> fst (retire env l (s\<lparr>sv_leases := hm_remove token (sv_leases s)\<rparr>)))"

definition keys_where :: "(owner_lease \<Rightarrow> bool) \<Rightarrow> service \<Rightarrow> string list" where
  "keys_where P s = map fst (filter (\<lambda>(_, l). P l) (sv_leases s))"

definition service_grant :: "senv \<Rightarrow> string \<Rightarrow> grant \<Rightarrow> service \<Rightarrow> service \<times> unit answer" where
  "service_grant env who g s =
     (case set_revoked (se_fault env) who False (sv_store s) of
        (st, Inl e) \<Rightarrow> (s\<lparr>sv_store := st\<rparr>, Inl e)
      | (st, Inr _) \<Rightarrow>
          (s\<lparr>sv_store := st, sv_revoked := filter (\<lambda>p. p \<noteq> who) (sv_revoked s), sv_grants := hm_insert who g (sv_grants s)\<rparr>, Inr ()))"

definition service_revoke :: "senv \<Rightarrow> string \<Rightarrow> service \<Rightarrow> service \<times> unit answer" where
  "service_revoke env who s =
     (case set_revoked (se_fault2 env) who True (sv_store s) of
        (st, durable) \<Rightarrow>
          (let s1 = s\<lparr>sv_revoked := (if who \<in> set (sv_revoked s) then sv_revoked s else sv_revoked s @ [who]), sv_store := st\<rparr>
           in (fold (retire_key env) (keys_where (\<lambda>l. ls_principal l = who) s1) s1, durable)))"

definition sync_outbound_grants :: "(string, string list) hmap \<Rightarrow> service \<Rightarrow> service" where
  "sync_outbound_grants want s =
     (let want_set = remdups (concat (map (\<lambda>(c, caps). map (Pair c) caps) want));
          k1 = fold (\<lambda>(c, cap) k. fst (revoke_outbound c cap k)) (filter (\<lambda>x. x \<notin> set want_set) (sv_outbound s)) (sv_kernel s);
          k2 = fold (\<lambda>(c, cap) k. fst (grant_outbound c cap k)) (filter (\<lambda>x. x \<notin> set (sv_outbound s)) want_set) k1
      in s\<lparr>sv_kernel := k2, sv_outbound := want_set\<rparr>)"

subsection \<open>Supervision\<close>

definition retry_lease :: "senv \<Rightarrow> owner_lease \<Rightarrow> service \<Rightarrow> service \<times> owner_lease" where
  "retry_lease env l s =
     (let l1 = l\<lparr>ls_retry := None\<rparr> in
      case materialize env (ls_logical l) s of
        Inl e \<Rightarrow> (s, l1\<lparr>ls_started := se_now env\<rparr>)
      | Inr file \<Rightarrow>
          (case load_file env file (sv_kernel s) of
             (k1, r) \<Rightarrow>
               (s\<lparr>sv_kernel := k1\<rparr>,
                (case (r, instance_ref_of k1 (ls_logical l)) of
                   (Inr _, Some owner) \<Rightarrow> l1\<lparr>ls_owner := owner, ls_started := se_now env\<rparr>
                 | _ \<Rightarrow> l1\<lparr>ls_started := se_now env\<rparr>))))"

definition fail_lease :: "senv \<Rightarrow> owner_lease \<Rightarrow> service \<Rightarrow> service \<times> owner_lease" where
  "fail_lease env l s =
     (let k1 = fst (dispose_plugin (se_depth env) (se_window env) (ls_logical l) (sv_kernel s));
          l1 = (case hm_get (sv_restart s) (ls_logical l) of
                  None \<Rightarrow> l
                | Some p \<Rightarrow> (case reserve (se_now env) p (ls_budget l) of (b, r) \<Rightarrow> l\<lparr>ls_budget := b, ls_retry := r\<rparr>));
          l2 = (if ls_retry l1 = None then l1\<lparr>ls_failed := True\<rparr> else l1)
      in (s\<lparr>sv_kernel := k1,
            sv_store := fst (store_event (se_codec env) (se_fault2 env) ''supervision.failure''
              (JObj [(''logical'', JStr (ls_logical l)), (''failed'', JBool (ls_failed l2)), (''instance'', JStr (describe (ls_owner l)))])
              (sv_store s))\<rparr>, l2))"

definition supervise :: "senv \<Rightarrow> owner_lease \<Rightarrow> service \<Rightarrow> service \<times> owner_lease" where
  "supervise env l s =
     (if \<not> ls_external l \<or> ls_failed l then (s, l)
      else case ls_retry l of
        Some at \<Rightarrow> if se_now env < at then (s, l) else retry_lease env l s
      | None \<Rightarrow>
          if se_running env (ls_logical l) \<or> se_now env - ls_started l < ms 250 then (s, l) else fail_lease env l s)"

definition supervise_key :: "senv \<Rightarrow> string \<Rightarrow> service \<Rightarrow> service" where
  "supervise_key env token s =
     (case hm_get (sv_leases s) token of
        None \<Rightarrow> s
      | Some l \<Rightarrow> (case supervise env l s of (s1, l1) \<Rightarrow> s1\<lparr>sv_leases := hm_modify token (\<lambda>_. l1) (sv_leases s1)\<rparr>))"

definition service_tick :: "senv \<Rightarrow> service \<Rightarrow> service" where
  "service_tick env s =
     (let s1 = fold (retire_key env) (keys_where (\<lambda>l. ls_deadline l \<le> se_now env) s) s
      in fold (supervise_key env) (hm_keys (sv_leases s1)) s1)"

definition service_inspect :: "senv \<Rightarrow> service \<Rightarrow> json" where
  "service_inspect env s =
     JObj [(''epoch'', JStr (show_nat (st_epoch (sv_store s)))), (''kernel'', inventory (sv_kernel s)),
           (''leases'', JArr (map (\<lambda>l. JObj [(''principal'', JStr (ls_principal l)), (''logical'', JStr (ls_logical l)),
              (''fence'', JStr (show_nat (ls_fence l))), (''failed'', JBool (ls_failed l)),
              (''restart_pending'', JBool (ls_retry l \<noteq> None)),
              (''remaining_ms'', j_nat ((ls_deadline l - se_now env) div 1000000))]) (hm_values (sv_leases s))))]"

definition service_shutdown :: "senv \<Rightarrow> service \<Rightarrow> service" where
  "service_shutdown env s = fold (retire_key env) (hm_keys (sv_leases s)) (s\<lparr>sv_stopped := True\<rparr>)"
subsection \<open>Runs\<close>

text \<open>
  Everything that changes the service. The two halves of an invocation are steps of their own, so that runs interleave
  invocations with everything else; the second half may record any outcome. \<open>VKernel\<close> is what the rest of the
  runtime does to the kernel.
\<close>

datatype svc_cmd =
    VProvision json
  | VProvisionRemote json
  | VActivate string string nat
  | VRenew string string nat nat
  | VRenewSeq string string nat nat nat
  | VInvokeBegin string string nat string string json
  | VInvokeRecord string string string nat instance_ref "json \<times> bool"
  | VCommit string string nat string string json
  | VRelease string string nat
  | VGrant string grant
  | VRevoke string
  | VSync "(string, string list) hmap"
  | VTick
  | VShutdown
  | VKernel "kernel \<Rightarrow> kernel"

fun svc_exec :: "senv \<Rightarrow> svc_cmd \<Rightarrow> service \<Rightarrow> service" where
  "svc_exec env (VProvision b) s = fst (provision env b s)"
| "svc_exec env (VProvisionRemote b) s = fst (provision_remote env b s)"
| "svc_exec env (VActivate p l ttl) s = fst (activate_lease env p l ttl s)"
| "svc_exec env (VRenew p t f ttl) s = fst (renew env p t f ttl s)"
| "svc_exec env (VRenewSeq p t f n ttl) s = fst (renew_seq env p t f n ttl s)"
| "svc_exec env (VInvokeBegin p t f i c v) s = fst (invoke_begin env p t f i c v s)"
| "svc_exec env (VInvokeRecord p i l f r out) s = fst (invoke_record env p i l f r out s)"
| "svc_exec env (VCommit p t f i key v) s = fst (commit_lease_effect env p t f i key v s)"
| "svc_exec env (VRelease p t f) s = fst (release_lease env p t f s)"
| "svc_exec env (VGrant p g) s = fst (service_grant env p g s)"
| "svc_exec env (VRevoke p) s = fst (service_revoke env p s)"
| "svc_exec env (VSync want) s = sync_outbound_grants want s"
| "svc_exec env VTick s = service_tick env s"
| "svc_exec env VShutdown s = service_shutdown env s"
| "svc_exec env (VKernel f) s = s\<lparr>sv_kernel := f (sv_kernel s)\<rparr>"

definition svc_run :: "(senv \<times> svc_cmd) list \<Rightarrow> service \<Rightarrow> service" where
  "svc_run steps s = fold (\<lambda>(env, c). svc_exec env c) steps s"

subsection \<open>The invariant of leases\<close>

definition leases_ok :: "(string, owner_lease) hmap \<Rightarrow> (string, nat) hmap \<Rightarrow> bool" where
  "leases_ok L F \<longleftrightarrow>
     hm_wf L \<and> length L \<le> 128 \<and>
     (\<forall>t l. hm_get L t = Some l \<longrightarrow> ls_token l = t \<and> hm_get F (ls_logical l) = Some (ls_fence l)) \<and>
     (\<forall>t l t' l'. hm_get L t = Some l \<longrightarrow> hm_get L t' = Some l' \<longrightarrow> ls_logical l = ls_logical l' \<longrightarrow> t = t')"

definition holders :: "(string, owner_lease) hmap \<Rightarrow> string set" where
  "holders L = {ls_principal l | t l. hm_get L t = Some l}"

definition svc_ok :: "service \<Rightarrow> bool" where
  "svc_ok s \<longleftrightarrow> leases_ok (sv_leases s) (st_fences (sv_store s)) \<and> holders (sv_leases s) \<inter> set (sv_revoked s) = {}"

lemma hm_length_remove_lt: "hm_get m k = Some v \<Longrightarrow> length (hm_remove k m) < length m"
  by (induction m) (auto simp: hm_remove_Cons less_Suc_eq_le split: if_splits)

lemma leases_ok_remove: "leases_ok L F \<Longrightarrow> leases_ok (hm_remove t L) F"
  by (auto simp: leases_ok_def intro: le_trans [OF hm_length_remove_le] split: if_splits)

lemma leases_ok_removes: "leases_ok L F \<Longrightarrow> leases_ok (fold hm_remove ts L) F"
  by (induction ts arbitrary: L) (auto simp: leases_ok_remove)

lemma leases_ok_insert:
  assumes "leases_ok L F" "ls_token l = t" "hm_get F (ls_logical l) = Some (ls_fence l)" "length L < 128"
    "\<And>t' l'. hm_get L t' = Some l' \<Longrightarrow> ls_logical l' \<noteq> ls_logical l"
  shows "leases_ok (hm_insert t l L) F"
  using assms(1-4) by (auto simp: leases_ok_def dest: assms(5) assms(5) [THEN not_sym] split: if_splits)

lemma leases_ok_modify:
  assumes "leases_ok L F" "\<And>l. hm_get L t = Some l \<Longrightarrow>
    ls_token (f l) = ls_token l \<and> ls_logical (f l) = ls_logical l \<and> ls_fence (f l) = ls_fence l"
  shows "leases_ok (hm_modify t f L) F"
  using assms by (auto simp: leases_ok_def split: if_splits)

lemma leases_ok_fences:
  assumes "leases_ok L F" "\<And>t l. hm_get L t = Some l \<Longrightarrow> hm_get F' (ls_logical l) = hm_get F (ls_logical l)"
  shows "leases_ok L F'"
  using assms by (simp add: leases_ok_def)

lemma holders_remove: "holders (hm_remove t L) \<subseteq> holders L"
  by (auto simp: holders_def split: if_splits)

lemma holders_insert: "holders (hm_insert t l L) \<subseteq> insert (ls_principal l) (holders L)"
  by (auto simp: holders_def split: if_splits)

lemma holders_get: "hm_get L t = Some l \<Longrightarrow> ls_principal l \<in> holders L"
  by (auto simp: holders_def)

text \<open>What an operation leaves alone.\<close>

definition same_leases :: "service \<Rightarrow> service \<Rightarrow> bool" where
  "same_leases s s' \<longleftrightarrow>
     sv_leases s' = sv_leases s \<and> sv_revoked s' = sv_revoked s \<and> sv_grants s' = sv_grants s \<and>
     st_fences (sv_store s') = st_fences (sv_store s)"

lemma same_leases_refl [simp]: "same_leases s s"
  by (simp add: same_leases_def)

lemma same_leases_ok: "same_leases s s' \<Longrightarrow> svc_ok s \<Longrightarrow> svc_ok s'"
  by (simp add: same_leases_def svc_ok_def)

lemma unless_fault_fences: "st_fences (fst r) = st_fences st \<Longrightarrow> st_fences (fst (unless_fault flt st r)) = st_fences st"
  by (simp add: unless_fault_def split: option.split)

lemma store_fences [simp]:
  "st_fences (fst (set_revoked flt p b st)) = st_fences st" "st_fences (fst (set_desired cd flt i v st)) = st_fences st"
  "st_fences (fst (store_event cd flt kind v st)) = st_fences st" "st_fences (fst (admit cd flt p i v st)) = st_fences st"
  "st_fences (fst (finish cd flt p i v u st)) = st_fences st"
  "st_fences (fst (store_commit_effect cd flt p i r e key v st)) = st_fences st"
  by (auto simp: set_revoked_def set_desired_def store_event_def admit_def finish_def store_commit_effect_def Let_def
      intro!: unless_fault_fences split: option.split)

lemma same_leases_retire: "same_leases s (fst (retire env l s))"
  by (simp add: retire_def same_leases_def Let_def case_prod_beta)

lemma fold_retire:
  "same_leases (s\<lparr>sv_leases := fold hm_remove ts (sv_leases s)\<rparr>) (fold (retire_key env) ts s)"
proof (induction ts arbitrary: s)
  case Nil
  then show ?case by (simp add: same_leases_def)
next
  case (Cons t ts)
  have "same_leases (s\<lparr>sv_leases := hm_remove t (sv_leases s)\<rparr>) (retire_key env t s)"
    using same_leases_retire [of "s\<lparr>sv_leases := hm_remove t (sv_leases s)\<rparr>" env]
    by (auto simp: retire_key_def hm_remove_absent same_leases_def split: option.split)
  then show ?case using Cons.IH [of "retire_key env t s"] by (simp add: same_leases_def)
qed

lemma same_leases_simple:
  "same_leases s (fst (provision env b s))" "same_leases s (fst (provision_remote env b s))"
  "same_leases s (sync_outbound_grants want s)" "same_leases s (fst (commit_lease_effect env p t f i key v s))"
  "same_leases s (fst (invoke_record env p i l f' r out s))"
  by (simp_all add: provision_def provision_remote_def sync_outbound_grants_def commit_lease_effect_def invoke_record_def Let_def
      same_leases_def case_prod_beta split: option.split sum.split)

lemma same_leases_invoke_begin: "same_leases s (fst (invoke_begin env p t f i c v s))"
  by (simp add: invoke_begin_def Let_def same_leases_def case_prod_beta split: sum.split admission.split)

lemma same_leases_supervise:
  assumes "supervise env l s = (s1, l1)"
  shows "same_leases s s1" "ls_token l1 = ls_token l" "ls_logical l1 = ls_logical l" "ls_fence l1 = ls_fence l"
    "ls_principal l1 = ls_principal l"
  using assms
  by (auto simp: supervise_def retry_lease_def fail_lease_def Let_def same_leases_def case_prod_beta
      split: if_splits option.splits sum.splits)

lemma svc_ok_supervise_key:
  assumes "svc_ok s"
  shows "svc_ok (supervise_key env t s)" "sv_revoked (supervise_key env t s) = sv_revoked s"
proof -
  have "svc_ok (supervise_key env t s) \<and> sv_revoked (supervise_key env t s) = sv_revoked s"
  proof (cases "hm_get (sv_leases s) t")
    case None
    then show ?thesis using assms by (simp add: supervise_key_def)
  next
    case (Some l)
    obtain s1 l1 where sup: "supervise env l s = (s1, l1)" by fastforce
    have L: "sv_leases s1 = sv_leases s" "sv_revoked s1 = sv_revoked s" "st_fences (sv_store s1) = st_fences (sv_store s)"
      using same_leases_supervise(1) [OF sup] by (simp_all add: same_leases_def)
    have "leases_ok (hm_modify t (\<lambda>_. l1) (sv_leases s)) (st_fences (sv_store s))"
      using assms same_leases_supervise(2-4) [OF sup] Some by (intro leases_ok_modify) (auto simp: svc_ok_def)
    moreover have "holders (hm_modify t (\<lambda>_. l1) (sv_leases s)) \<subseteq> holders (sv_leases s)"
      using same_leases_supervise(5) [OF sup] Some by (fastforce simp: holders_def split: if_splits)
    ultimately show ?thesis using assms sup Some L by (auto simp: supervise_key_def svc_ok_def)
  qed
  then show "svc_ok (supervise_key env t s)" "sv_revoked (supervise_key env t s) = sv_revoked s" by simp_all
qed

lemma svc_ok_fold_supervise:
  "svc_ok s \<Longrightarrow> svc_ok (fold (supervise_key env) ts s) \<and> sv_revoked (fold (supervise_key env) ts s) = sv_revoked s"
  by (induction ts arbitrary: s) (auto simp: svc_ok_supervise_key)

lemma holders_removes: "holders (fold hm_remove ts L) \<subseteq> holders L"
  by (induction ts arbitrary: L) (simp, simp, rule order_trans [OF _ holders_remove])

lemma svc_ok_fold_retire:
  assumes "svc_ok s"
  shows "svc_ok (fold (retire_key env) ts s)" "sv_revoked (fold (retire_key env) ts s) = sv_revoked s"
  using fold_retire [where s = s and ts = ts and env = env] assms leases_ok_removes [of "sv_leases s" _ ts] holders_removes [of ts "sv_leases s"]
  by (auto simp: svc_ok_def same_leases_def)

lemma svc_ok_tick: "svc_ok s \<Longrightarrow> svc_ok (service_tick env s) \<and> sv_revoked (service_tick env s) = sv_revoked s"
  using svc_ok_fold_retire svc_ok_fold_supervise by (simp add: service_tick_def Let_def)

lemma svc_ok_remove:
  "svc_ok s \<Longrightarrow> svc_ok (s\<lparr>sv_leases := hm_remove t (sv_leases s)\<rparr>)"
  using holders_remove [of t "sv_leases s"] by (auto simp: svc_ok_def leases_ok_remove)

lemma svc_ok_release: "svc_ok s \<Longrightarrow> svc_ok (fst (release_lease env p t f s))"
  using same_leases_ok [OF same_leases_retire] svc_ok_remove
  by (auto simp: release_lease_def case_prod_beta split: option.split)

lemma validate_Inr:
  "validate now p t f s = Inr l \<longleftrightarrow>
     p \<notin> set (sv_revoked s) \<and> hm_get (sv_leases s) t = Some l \<and> ls_principal l = p \<and> ls_fence l = f \<and> healthy now l"
  by (auto simp: validate_def token_eq_iff healthy_def split: option.splits if_splits)

lemma svc_ok_rotate:
  assumes "svc_ok s" "hm_get (sv_leases s) t = Some l"
    "\<And>l. ls_token (g l) = ls_token l \<and> ls_logical (g l) = ls_logical l \<and> ls_fence (g l) = ls_fence l \<and> ls_principal (g l) = ls_principal l"
  shows "svc_ok (rotate env t new ttl g l s)"
proof -
  let ?l = "g (l\<lparr>ls_token := new, ls_deadline := se_now env + ms ttl\<rparr>)" and ?L = "hm_remove t (sv_leases s)"
  have ok: "leases_ok (sv_leases s) (st_fences (sv_store s))" using assms(1) by (simp add: svc_ok_def)
  have "leases_ok (hm_insert new ?l ?L) (st_fences (sv_store s))"
  proof (rule leases_ok_insert)
    show "length ?L < 128" using ok hm_length_remove_lt [OF assms(2)] by (simp add: leases_ok_def)
    show "leases_ok ?L (st_fences (sv_store s))" using ok by (rule leases_ok_remove)
  qed (use ok assms(2,3) in \<open>auto simp: leases_ok_def split: if_splits\<close>)
  moreover have "ls_principal ?l \<in> holders (sv_leases s)" using holders_get [OF assms(2)] by (simp add: assms(3))
  then have "holders (hm_insert new ?l ?L) \<subseteq> holders (sv_leases s)"
    using holders_insert [of new ?l ?L] holders_remove [of t "sv_leases s"] by blast
  ultimately show ?thesis using assms(1) by (auto simp: rotate_def svc_ok_def)
qed

lemma svc_ok_renew: "svc_ok s \<Longrightarrow> svc_ok (fst (renew env p t f ttl s)) \<and> svc_ok (fst (renew_seq env p t f n ttl s))"
  using svc_ok_rotate by (auto simp: renew_def renew_seq_def validate_Inr split: sum.split option.split)

lemma svc_ok_grant: "svc_ok s \<Longrightarrow> svc_ok (fst (service_grant env p g s))"
  by (auto simp: service_grant_def svc_ok_def case_prod_beta split: sum.split)

lemma keys_where_mem:
  assumes "hm_get (sv_leases s) t = Some l" "P l"
  shows "t \<in> set (keys_where P s)"
proof -
  have "(t, l) \<in> set (filter (\<lambda>(_, l). P l) (sv_leases s))" using map_of_SomeD [OF assms(1)] assms(2) by simp
  then have "fst (t, l) \<in> fst ` set (filter (\<lambda>(_, l). P l) (sv_leases s))" by (rule imageI)
  then show ?thesis by (simp only: keys_where_def set_map fst_conv)
qed

lemma svc_ok_revoke:
  assumes "svc_ok s"
  shows "svc_ok (fst (service_revoke env p s))" "p \<in> set (sv_revoked (fst (service_revoke env p s)))"
proof -
  let ?st = "fst (set_revoked (se_fault2 env) p True (sv_store s))"
  let ?R = "if p \<in> set (sv_revoked s) then sv_revoked s else sv_revoked s @ [p]"
  let ?s1 = "s\<lparr>sv_revoked := ?R, sv_store := ?st\<rparr>"
  let ?ks = "keys_where (\<lambda>l. ls_principal l = p) ?s1"
  have F: "fst (service_revoke env p s) = fold (retire_key env) ?ks ?s1"
    by (simp add: service_revoke_def Let_def case_prod_beta)
  have "p \<notin> holders (fold hm_remove ?ks (sv_leases s))"
  proof -
    have "t \<in> set ?ks" if "hm_get (sv_leases s) t = Some l" "ls_principal l = p" for t l
      using keys_where_mem [of ?s1 t l] that by simp
    then show ?thesis by (auto simp: holders_def hm.get_fold_rem split: if_splits)
  qed
  then show "svc_ok (fst (service_revoke env p s))" "p \<in> set (sv_revoked (fst (service_revoke env p s)))"
    using fold_retire [where s = ?s1 and ts = ?ks and env = env] assms leases_ok_removes [of "sv_leases s" _ ?ks] holders_removes [of ?ks "sv_leases s"]
    unfolding F by (auto simp: svc_ok_def same_leases_def split: if_splits)
qed
lemma next_fence_other: "l \<noteq> logical \<Longrightarrow> hm_get (st_fences (fst (next_fence flt logical st))) l = hm_get (st_fences st) l"
  by (auto simp: next_fence_def unless_fault_def split: option.split)

lemma svc_ok_activate_load:
  assumes "svc_ok s" "length (sv_leases s) < 128" "hm_get (st_fences (sv_store s)) logical = Some fence"
    "\<And>t l. hm_get (sv_leases s) t = Some l \<Longrightarrow> ls_logical l \<noteq> logical" "p \<notin> set (sv_revoked s)"
  shows "svc_ok (fst (activate_load env p logical ttl token fence file s))"
proof -
  have "svc_ok (s\<lparr>sv_kernel := k, sv_leases := hm_insert token (owner_lease_new env p logical token fence ttl owner ext) (sv_leases s)\<rparr>)" for k owner ext
  proof -
    let ?l = "owner_lease_new env p logical token fence ttl owner ext"
    have "leases_ok (hm_insert token ?l (sv_leases s)) (st_fences (sv_store s))"
      using assms by (intro leases_ok_insert) (auto simp: owner_lease_new_def svc_ok_def)
    moreover have "holders (hm_insert token ?l (sv_leases s)) \<subseteq> insert p (holders (sv_leases s))"
      using holders_insert [of token ?l "sv_leases s"] by (simp add: owner_lease_new_def)
    ultimately show ?thesis using assms(1,5) by (auto simp: svc_ok_def)
  qed
  moreover have "svc_ok (s\<lparr>sv_kernel := k\<rparr>)" for k using assms(1) by (simp add: svc_ok_def)
  ultimately show ?thesis by (auto simp: activate_load_def case_prod_beta split: sum.split option.split)
qed

lemma svc_ok_activate:
  assumes "svc_ok s"
  shows "svc_ok (fst (activate_lease env p logical ttl s))" "sv_revoked (fst (activate_lease env p logical ttl s)) = sv_revoked s"
proof -
  have *: "svc_ok (s\<lparr>sv_store := st\<rparr>)"
    if "\<And>l. l \<noteq> logical \<Longrightarrow> hm_get (st_fences st) l = hm_get (st_fences (sv_store s)) l"
      and "\<And>t l. hm_get (sv_leases s) t = Some l \<Longrightarrow> ls_logical l \<noteq> logical" for st
    using assms leases_ok_fences [of "sv_leases s" "st_fences (sv_store s)" "st_fences st"] that by (auto simp: svc_ok_def)
  show "svc_ok (fst (activate_lease env p logical ttl s))"
  proof (cases "ttl_ok ttl \<and> may_activate p logical s \<and> (\<forall>l \<in> set (hm_values (sv_leases s)). ls_logical l \<noteq> logical) \<and> length (sv_leases s) < 128")
    case True
    then have free: "\<And>t l. hm_get (sv_leases s) t = Some l \<Longrightarrow> ls_logical l \<noteq> logical" using hm_value_in by fast
    have p: "p \<notin> set (sv_revoked s)" using True by (simp add: may_activate_def)
    show ?thesis
    proof (cases "next_fence (se_fault env) logical (sv_store s)")
      case (Pair st1 r)
      have st1: "\<And>l. l \<noteq> logical \<Longrightarrow> hm_get (st_fences st1) l = hm_get (st_fences (sv_store s)) l"
        using next_fence_other [of _ logical "se_fault env" "sv_store s"] Pair by simp
      have st2: "st_fences (fst (lease_created env logical p fence st1)) = st_fences st1" for fence
        by (simp add: lease_created_def)
      have "svc_ok (fst (activate_load env p logical ttl token fence fl (s\<lparr>sv_store := fst (lease_created env logical p fence st1)\<rparr>)))"
        if "r = Inr fence" for token fence fl
        using True p free next_fence_Inr [of "se_fault env" logical "sv_store s" st1 fence] Pair that st1
        by (intro svc_ok_activate_load) (auto simp: st2 intro!: *)
      moreover have "svc_ok (s\<lparr>sv_store := fst (lease_created env logical p fence st1)\<rparr>)" for fence
        using st1 free by (intro *) (simp_all add: st2)
      moreover have "svc_ok (s\<lparr>sv_store := st1\<rparr>)" using st1 free by (rule *)
      ultimately show ?thesis
        using assms True Pair by (auto simp: activate_lease_def case_prod_beta split: sum.split)
    qed
  next
    case False
    then show ?thesis using assms by (auto simp: activate_lease_def)
  qed
  show "sv_revoked (fst (activate_lease env p logical ttl s)) = sv_revoked s"
    by (simp add: activate_lease_def activate_load_def case_prod_beta split: sum.split option.split)
qed

lemma svc_ok_exec: "svc_ok s \<Longrightarrow> svc_ok (svc_exec env c s)"
proof (cases c)
  case (VSync want)
  then show "svc_ok s \<Longrightarrow> ?thesis" using same_leases_ok same_leases_simple(3) by fastforce
next
  case VShutdown
  assume "svc_ok s"
  then have "svc_ok (s\<lparr>sv_stopped := True\<rparr>)" by (simp add: svc_ok_def)
  then show ?thesis using VShutdown svc_ok_fold_retire(1) by (simp add: service_shutdown_def)
next
  case (VKernel f)
  then show "svc_ok s \<Longrightarrow> ?thesis" by (simp add: svc_ok_def)
qed (simp_all add: svc_ok_activate svc_ok_renew svc_ok_release svc_ok_grant svc_ok_revoke svc_ok_tick
    same_leases_ok [OF same_leases_simple(1)] same_leases_ok [OF same_leases_simple(2)] same_leases_ok [OF same_leases_simple(4)]
    same_leases_ok [OF same_leases_simple(5)] same_leases_ok [OF same_leases_invoke_begin])

lemma svc_ok_run: "svc_ok s \<Longrightarrow> svc_ok (svc_run steps s)"
  unfolding svc_run_def by (induction steps arbitrary: s) (auto simp: svc_ok_exec)

lemma svc_ok_open: "service_open secure oe dir jrn attach ep home comps grants restart st = Inr s \<Longrightarrow> svc_ok s"
  by (auto simp: service_open_def svc_ok_def leases_ok_def holders_def split: if_splits option.splits sum.splits prod.splits)

end
