(* ===== verification/Mx_Authority.thy ===== *)
theory Mx_Authority
  imports Mx_Runs "HOL-Library.Code_Target_Nat"
begin

text \<open>
  What a single operation of the kernel guarantees when it returns, whatever other threads did
  in its windows: acquisition, admission of a child, and the commit of an effect; and three
  interleavings the code does not exclude.
\<close>

declare map_of_eq_Some_iff [simp del] Some_eq_map_of_iff [simp del]

subsection \<open>A kernel for the examples\<close>

text \<open>
  Two components are active, an agent and a store the agent is bound to; the operator granted the
  agent the store's capability, and a call of the agent is open under ticket 1.
\<close>

definition store_def :: stored_manifest where
  "store_def = \<lparr>sm_id = ''s'', sm_caps = [''r@1''], sm_requires = [], sm_subs = [], sm_calls = [], sm_reducer = ''noop'',
     sm_init_state = JNull, sm_tier = [], sm_trust = [], sm_restart = [], sm_source = None, sm_execution = InProcess,
     sm_remote = False, sm_outbound = None\<rparr>"

definition agent_def :: stored_manifest where
  "agent_def = \<lparr>sm_id = ''a'', sm_caps = [''c@1''], 
     sm_requires = [\<lparr>rq_interface = ''r@1'', rq_base = ''r'', rq_major = Some 1, rq_provider = None\<rparr>],
     sm_subs = [], sm_calls = [], sm_reducer = ''noop'',
     sm_init_state = JNull, sm_tier = [], sm_trust = [], sm_restart = [], sm_source = None, sm_execution = InProcess,
     sm_remote = False, sm_outbound = Some \<lparr>op_requested = [''r@1''], op_limits =
       \<lparr>ol_max_depth = 2, ol_max_children_per_parent = 4, ol_max_calls_per_session = 4, ol_max_calls_global = 8,
        ol_max_seen_requests = 16, ol_max_queued_bytes = 64, ol_max_deadline_ms = 100\<rparr>\<rparr>\<rparr>"

definition scenario :: kernel where
  "scenario = (kernel_new 9 (journal_open [] True) False)
     \<lparr>k_definitions := [(''s'', store_def), (''a'', agent_def)],
      k_contexts := fst (ctx_create ''a'' (fst (ctx_create ''s'' (ctx_new 9)))),
      k_calls := fst (calls_alloc ''c@1'' ''a'' 2 1 2 9 policy_default [] False 0 calls_new),
      k_dep_bindings := [(''bind-1'', \<lparr>db_id = ''bind-1'', db_consumer_logical = ''a'',
       db_consumer_instance = 2, db_consumer_generation = 1,
       db_consumer_context = 2, db_interface = ''r@1'',
       db_capability = ''r@1'', db_provider_logical = ''s'',
       db_provider_instance = 1, db_provider_generation = 1\<rparr>)],
      k_outbound_grants := [((''a'', ''r@1''), 1)], k_grant_seq := 2\<rparr>"

definition child_request :: dep_admit where
  "child_request = \<lparr>da_parent = 1, da_binding = ''bind-1'', da_caller_logical = ''a'', da_caller_instance = 2,
     da_caller_generation = 1, da_session = ''s'', da_timeout_ms = 10\<rparr>"

subsection \<open>Acquisition\<close>

lemma acquire_stale_None:
  "acquire_stale l ctx k = None \<longleftrightarrow>
     (\<exists>cur. ctx_current (k_contexts k) l = Some cur \<and> cr_instance cur = cr_instance ctx \<and>
        cr_generation cur = cr_generation ctx \<and> canonical (cr_state cur) = Active)"
  by (auto simp: acquire_stale_def split: option.splits)

lemma revoke_cap_gone:
  "hm_get (fst (reg_revoke_cap_if_owned cap inst m)) cap = Some e \<Longrightarrow> re_instance e \<noteq> inst"
  by (auto simp: reg_revoke_cap_if_owned_def split: option.splits if_splits)

lemma rollback_not_active: "\<not> is_active_record (fst (res_rollback_register h t)) h"
  by (auto simp: res_rollback_register_def res_unrecord_def is_active_record_def Let_def split: option.splits)

lemma acquire_cases:
  assumes "acquire env l kind k = (k', r)"
  obtains (refused) e where "r = Inl e"
    | (confirmed) ctx h k1 where "ctx_current (k_contexts k) l = Some ctx" "acquire_confirm l ctx kind h k1 = (k', r)"
  using assms by (auto simp: acquire_def split: option.splits sum.splits prod.splits)

lemma acquire_confirm_Inr:
  "acquire_confirm l ctx kind h k = (k', Inr h') \<Longrightarrow> acquire_stale l ctx k = None \<and> k_contexts k' = k_contexts k"
  by (auto simp: acquire_confirm_def Let_def journal_acquired_def k_append_def split: option.splits)


subsection \<open>Admission of a child\<close>

lemma dep_still_valid_append: "dep_still_valid req g (k_append l e v k) = dep_still_valid req g k"
  by (simp add: dep_still_valid_def dep_provider_live_def k_append_def Let_def cong: option.case_cong)

lemma dep_confirm_Inr: "dep_confirm req g i k = (k', Inr i') \<Longrightarrow> dep_still_valid req g k'"
  unfolding dep_confirm_def by (cases "dep_still_valid req g k") (auto simp: dep_still_valid_append)

lemma dependency_admit_cases:
  assumes "dependency_admit env req k = (k', Inr i)"
  obtains g k1 where "check_authority req k = Inr g" "check_quotas req (op_limits (dg_policy g)) k = Inr ()"
    "dep_confirm req g i k1 = (k', Inr i)"
proof -
  obtain g where g: "check_authority req k = Inr g" "check_quotas req (op_limits (dg_policy g)) k = Inr ()"
    using assms by (auto simp: dependency_admit_def split: if_splits sum.splits)
  moreover obtain k1 i0 c where "dep_confirm req g i0 (env DepRegistered (k1\<lparr>k_calls := c\<rparr>)) = (k', Inr i)"
    using assms g by (auto simp: dependency_admit_def split: if_splits prod.splits bool.splits)
  moreover from this have "i0 = i" by (auto simp: dep_confirm_def split: if_splits)
  ultimately show thesis using that by blast
qed

lemma check_authority_Inr:
  assumes "check_authority req k = Inr g"
  shows "check_parent req k = Inr (dg_parent g)" "check_binding req k = Inr (dg_binding g)"
    "\<exists>ccur. check_consumer req k = Inr ccur \<and>
       check_provider ccur (dg_binding g) k = Inr (dg_ticket_ctx g, dg_remote_peer g)"
    "dg_depth g \<le> ol_max_depth (op_limits (dg_policy g))"
    "dg_depth g = (case tr_dep (dg_parent g) of None \<Rightarrow> 1 | Some d \<Rightarrow> dc_depth d + 1)"
    "outbound_policy_of k (da_caller_logical req) = Some (dg_policy g)"
    "hm_get (k_outbound_grants k) (da_caller_logical req, db_capability (dg_binding g)) = Some (dg_rev g)"
proof -
  note d = assms [unfolded check_authority_def bind_result_def]
  obtain parent b ccur where c: "check_parent req k = Inr parent" "check_binding req k = Inr b" "check_consumer req k = Inr ccur"
    using d by (cases "check_parent req k"; cases "check_binding req k"; cases "check_consumer req k") simp_all
  obtain t r where p: "check_provider ccur b k = Inr (t, r)"
    using d c by (cases "check_provider ccur b k") (simp, metis prod.exhaust)
  obtain policy where q: "outbound_policy_of k (da_caller_logical req) = Some policy"
    using d c p by (cases "outbound_policy_of k (da_caller_logical req)") simp_all
  obtain revision where v: "hm_get (k_outbound_grants k) (da_caller_logical req, db_capability b) = Some revision"
    using d c p q by (cases "hm_get (k_outbound_grants k) (da_caller_logical req, db_capability b)")
      (simp_all add: Let_def split: if_split_asm)
  define depth where "depth = (case tr_dep parent of None \<Rightarrow> 1 | Some d \<Rightarrow> dc_depth d + 1)"
  have g: "\<not> ol_max_depth (op_limits policy) < depth"
    "g = \<lparr>dg_parent = parent, dg_binding = b, dg_ticket_ctx = t, dg_remote_peer = r, dg_policy = policy,
       dg_depth = depth, dg_rev = revision\<rparr>"
    using d unfolding c p q v depth_def [symmetric] Let_def sum.case option.case prod.case by (simp_all split: if_split_asm)
  show "check_parent req k = Inr (dg_parent g)" "check_binding req k = Inr (dg_binding g)"
    "\<exists>ccur. check_consumer req k = Inr ccur \<and>
       check_provider ccur (dg_binding g) k = Inr (dg_ticket_ctx g, dg_remote_peer g)"
    "dg_depth g \<le> ol_max_depth (op_limits (dg_policy g))"
    "dg_depth g = (case tr_dep (dg_parent g) of None \<Rightarrow> 1 | Some d \<Rightarrow> dc_depth d + 1)"
    "outbound_policy_of k (da_caller_logical req) = Some (dg_policy g)"
    "hm_get (k_outbound_grants k) (da_caller_logical req, db_capability (dg_binding g)) = Some (dg_rev g)"
    using c p q v g(1) by (simp_all add: g(2) not_less depth_def)
qed


lemma child_admitted: "snd (dependency_admit quiescent child_request scenario) = Inr 2"
  by code_simp


subsection \<open>Commit of an effect\<close>

text \<open>What must hold for the chain of a child and for the provider when an effect is committed.\<close>

definition chain_holds :: "ticket_record \<Rightarrow> kernel \<Rightarrow> bool" where
  "chain_holds t k \<longleftrightarrow>
     (case tr_dep t of
        None \<Rightarrow> True
      | Some d \<Rightarrow>
          (case tr_drain_until t of None \<Rightarrow> True | Some u \<Rightarrow> k_now k < u) \<and>
          map_option tr_state (calls_get (k_calls k) (dc_parent d)) = Some Admitted \<and>
          consumer_live k (dc_consumer d) \<and>
          hm_get (k_outbound_grants k) (dc_grant_consumer d, dc_grant_cap d) = Some (dc_grant_rev d))"

definition owner_holds :: "ticket_record \<Rightarrow> kernel \<Rightarrow> bool" where
  "owner_holds t k \<longleftrightarrow>
     tr_epoch t = epoch k \<and>
     (\<exists>owner. ctx_get_by_instance (k_contexts k) (tr_instance t) = Some owner \<and>
        cr_logical owner = tr_logical t \<and> cr_generation owner = tr_generation t \<and>
        (canonical (cr_state owner) = Active \<or>
         canonical (cr_state owner) = Quiescing \<and> cp_on_withdraw (tr_policy t) = Drain \<and>
         (\<exists>u. tr_drain_until t = Some u \<and> k_now k \<le> u))) \<and>
     (\<forall>cur. ctx_current (k_contexts k) (tr_logical t) = Some cur \<longrightarrow> cr_instance cur = tr_instance t)"

definition provider_holds :: "ticket_record \<Rightarrow> kernel \<Rightarrow> bool" where
  "provider_holds t k \<longleftrightarrow>
     (if Option.bind (tr_dep t) dc_remote_peer = None then owner_holds t k else remote_leg_live t k)"

lemma dep_chain_check_Inr: "dep_chain_check t kind k = (k', Inr u) \<Longrightarrow> k' = k \<and> chain_holds t k"
  unfolding dep_chain_check_def chain_holds_def Let_def
  by (auto simp: not_le split: option.splits if_splits)

lemma commit_owner_check_Inr: "commit_owner_check t kind k = (k', Inr u) \<Longrightarrow> k' = k \<and> owner_holds t k"
  unfolding commit_owner_check_def owner_holds_def Let_def
  by (auto split: option.splits if_splits)

lemma commit_provider_check_Inr: "commit_provider_check t kind k = (k', Inr u) \<Longrightarrow> k' = k \<and> provider_holds t k"
  unfolding commit_provider_check_def provider_holds_def
  by (auto dest!: commit_owner_check_Inr split: option.splits if_splits)

lemma commit_check_Inr:
  "commit_check i kind k = (k', Inr t) \<Longrightarrow>
     k' = k \<and> calls_get (k_calls k) i = Some t \<and> tr_state t = Admitted \<and> chain_holds t k \<and> provider_holds t k"
  unfolding commit_check_def Let_def
  by (auto dest!: dep_chain_check_Inr commit_provider_check_Inr
      split: option.splits ticket_state.splits prod.splits sum.splits)

lemma dep_chain_check_effects: "cl_effects (k_calls (fst (dep_chain_check t kind k))) = cl_effects (k_calls k)"
  by (simp add: dep_chain_check_def Let_def journal_call_rejected_def k_append_def calls_set_state_def calls_modify_def
      split: option.split)

lemma commit_provider_check_calls: "k_calls (fst (commit_provider_check t kind k)) = k_calls k"
  by (simp add: commit_provider_check_def commit_owner_check_def Let_def journal_call_rejected_def k_append_def
      split: option.split)

lemma commit_check_effects: "cl_effects (k_calls (fst (commit_check i kind k))) = cl_effects (k_calls k)"
proof -
  have "cl_effects (k_calls k1) = cl_effects (k_calls k)" if "dep_chain_check t kind k = (k1, r)" for t k1 r
    using that dep_chain_check_effects [of t kind k] by simp
  moreover have "k_calls k2 = k_calls k1" if "commit_provider_check t kind k1 = (k2, r)" for t k1 k2 r
    using that commit_provider_check_calls [of t kind k1] by simp
  ultimately show ?thesis
    by (auto simp: commit_check_def Let_def journal_call_rejected_def k_append_def
        split: option.split ticket_state.split prod.split sum.split)
qed

lemma last_pop_excess: "0 < n \<Longrightarrow> last (pop_excess n (xs @ [x])) = x"
  by (simp add: pop_excess_drop)

lemma commit_apply_result:
  assumes "calls_get (k_calls k) i = Some t"
  shows "calls_get (k_calls (fst (commit_apply i t kind p k))) i = Some (t\<lparr>tr_state := Committed\<rparr>)"
    and "last (cl_effects (k_calls (fst (commit_apply i t kind p k)))) =
       \<lparr>ce_seq = snd (commit_apply i t kind p k), ce_ticket = i, ce_logical = tr_logical t, ce_instance = tr_instance t,
        ce_generation = tr_generation t, ce_kind = kind, ce_payload = p, ce_at_ms = k_wall k\<rparr>"
  using assms
  by (simp_all add: commit_apply_def calls_push_effect_def calls_set_state_def calls_modify_def calls_get_def k_append_def
      Let_def last_pop_excess MAX_EFFECTS_def case_prod_beta)

lemma committed_again:
  "calls_get (k_calls k) i = Some t \<Longrightarrow> tr_state t = Committed \<Longrightarrow>
     commit_effect i kind p k = (k, Inl (err_json ''already committed'' ''already-committed'' [(''ticket'', j_nat i)]))"
  by (simp add: commit_effect_def commit_check_def Let_def)


subsection \<open>Interleavings that are not excluded\<close>


lemma journal_cancelled_calls: "k_calls (journal_cancelled reason ts k) = k_calls k"
  using same_tables_journal_cancelled by (simp add: same_tables_def)

lemma cancel_admitted:
  assumes "calls_get (k_calls k) i = Some t" "tr_state t = Admitted"
  shows "snd (call_cancel i reason k)"
    and "map_option tr_state (calls_get (k_calls (fst (call_cancel i reason k))) i) = Some Cancelled"
  using assms
  by (simp_all add: call_cancel_def calls_get_def calls_cancel_def modify_if_admitted_def calls_modify_def
      revoke_ticket_descendants_def calls_revoke_descendants_def revoke_where_def k_append_def
      journal_cancelled_calls mark_cancelled_def)

text \<open>C33. A commit can overtake a cancellation: the checks of a commit and its effect are separate steps, and
  a cancellation that is acknowledged between them is overwritten; the effect is committed.\<close>

theorem commit_overtakes_cancel:
  assumes "commit_check i kind k = (k1, Inr t)" "call_cancel i reason k1 = (k2, c)"
  shows "c \<and> map_option tr_state (calls_get (k_calls k2) i) = Some Cancelled \<and>
    map_option tr_state (calls_get (k_calls (fst (commit_apply i t kind p k2))) i) = Some Committed \<and>
    ce_ticket (last (cl_effects (k_calls (fst (commit_apply i t kind p k2))))) = i"
proof -
  have t: "calls_get (k_calls k1) i = Some t" "tr_state t = Admitted"
    using commit_check_Inr [OF assms(1)] by auto
  have c: "c" "map_option tr_state (calls_get (k_calls k2) i) = Some Cancelled"
    using cancel_admitted [OF t, of reason] assms(2) by simp_all
  then obtain t2 where "calls_get (k_calls k2) i = Some t2" by auto
  then show ?thesis using c by (simp add: commit_apply_def calls_push_effect_def calls_set_state_def calls_modify_def
        calls_get_def k_append_def Let_def last_pop_excess MAX_EFFECTS_def case_prod_beta)
qed

theorem commit_overtakes_cancel_witness:
  "\<exists>k1 t k2. commit_check 1 ''write'' scenario = (k1, Inr t) \<and> call_cancel 1 ''stop'' k1 = (k2, True) \<and>
     map_option tr_state (calls_get (k_calls (fst (commit_apply 1 t ''write'' JNull k2))) 1) = Some Committed"
proof -
  have "case snd (commit_check 1 ''write'' scenario) of Inl e \<Rightarrow> False | Inr t \<Rightarrow> True" by code_simp
  then obtain k1 t where 1: "commit_check 1 ''write'' scenario = (k1, Inr t)"
    by (cases "commit_check 1 ''write'' scenario") (auto split: sum.splits)
  obtain k2 c where 2: "call_cancel 1 ''stop'' k1 = (k2, c)" by fastforce
  show ?thesis using commit_overtakes_cancel [OF 1 2, of JNull] 1 2 by auto
qed


end
