(* ===== verification/Mx_Tenure.thy ===== *)
theory Mx_Tenure
  imports Mx_Service Mx_Authority
begin

text \<open>
  What the leases of the service guarantee to the operator: a live lease holds the current fence of
  its component, a revoked principal can do nothing, a successful invocation had authority when it
  started and when it was recorded, and what becomes of a renewal whose answer was lost.
\<close>

declare map_of_eq_Some_iff [simp del] Some_eq_map_of_iff [simp del]

subsection \<open>A concrete service\<close>

definition demo_store :: store where
  "demo_store = fst (store_open \<lparr>oe_io = None, oe_owned = False, oe_schema = 0, oe_check = ''ok'', oe_fault = None\<rparr> store_empty)"

definition demo_env :: senv where
  "demo_env = \<lparr>se_codec = demo_codec, se_now = 0, se_later = 1, se_token = Inr ''new'', se_fault = None, se_fault2 = None,
     se_file = None, se_depth = 1, se_window = quiescent, se_forwarder = None, se_debug = (\<lambda>_. []), se_show = (\<lambda>_. []),
     se_running = (\<lambda>_. True), se_session = (\<lambda>_ _. True), se_between = (\<lambda>s. s)\<rparr>"

definition demo_owner :: instance_ref where
  "demo_owner = \<lparr>ir_epoch = 9, ir_instance = 1, ir_context = 1, ir_logical = ''s'', ir_generation = 1\<rparr>"

definition demo_lease :: owner_lease where
  "demo_lease = owner_lease_new demo_env ''p'' ''s'' ''old'' 1 1000 demo_owner False"

definition demo_service :: service where
  "demo_service = \<lparr>sv_kernel = scenario, sv_store = fst (next_fence None ''s'' demo_store), sv_home = [], sv_allowed = [],
     sv_leases = [(''old'', demo_lease)],
     sv_grants = [(''p'', \<lparr>gr_components = [''s''], gr_capabilities = [''r@1'']\<rparr>)], sv_revoked = [], sv_outbound = [],
     sv_restart = [], sv_stopped = False, sv_killed = []\<rparr>"

subsection \<open>Fences\<close>

text \<open>C7. A live lease holds the fence of its component. From the opening of the service on, through any sequence of
  operations of peers and operators, supervision, restarts of components and interleaved invocations, with any failures
  of the store: every lease is filed under its own token, no principal that is revoked holds one, its fence is the one the durable store
  currently has for the component, no two leases are for the same component, and there are at most 128.\<close>

theorem live_lease_holds_fence:
  assumes "service_open secure oe dir jrn attach ep home comps grants restart st = Inr s0"
    and "s = svc_run steps s0"
  shows "(\<forall>t l. hm_get (sv_leases s) t = Some l \<longrightarrow>
      ls_token l = t \<and> ls_principal l \<notin> set (sv_revoked s) \<and> hm_get (st_fences (sv_store s)) (ls_logical l) = Some (ls_fence l)) \<and>
    (\<forall>t l t' l'. hm_get (sv_leases s) t = Some l \<longrightarrow> hm_get (sv_leases s) t' = Some l' \<longrightarrow> ls_logical l = ls_logical l' \<longrightarrow> t = t') \<and>
    length (sv_leases s) \<le> 128"
proof -
  have ok: "svc_ok s" unfolding assms(2) by (intro svc_ok_run svc_ok_open [OF assms(1)])
  have "ls_principal l \<notin> set (sv_revoked s)" if "hm_get (sv_leases s) t = Some l" for t l
    using ok holders_get [OF that] by (auto simp: svc_ok_def)
  then show ?thesis using ok unfolding svc_ok_def leases_ok_def by blast
qed

theorem live_lease_holds_fence_witness:
  "length (sv_leases (svc_run [(demo_env, VTick)]
     (projr (service_open True \<lparr>oe_io = None, oe_owned = False, oe_schema = 0, oe_check = ''ok'', oe_fault = None\<rparr>
        None (Inr (journal_open [] False)) None 1 [] [] [] [] store_empty)))) \<le> 128"
proof -
  let ?o = "service_open True \<lparr>oe_io = None, oe_owned = False, oe_schema = 0, oe_check = ''ok'', oe_fault = None\<rparr>
        None (Inr (journal_open [] False)) None 1 [] [] [] [] store_empty"
  have "?o = Inr (projr ?o)"
    by (simp add: service_open_def store_open_def unless_fault_def store_empty_def I64_MAX_def bind_result_def)
  from live_lease_holds_fence [OF this refl, of "[(demo_env, VTick)]"] show ?thesis by blast
qed

subsection \<open>Revocation\<close>

lemma revoked_step:
  assumes "svc_ok s" "p \<in> set (sv_revoked s)" "\<And>g. c \<noteq> VGrant p g"
  shows "p \<in> set (sv_revoked (svc_exec env c s))"
proof (cases c)
  case (VGrant q g)
  then show ?thesis using assms by (cases "q = p") (auto simp: service_grant_def case_prod_beta split: sum.split)
next
  case (VRevoke q)
  have "set (sv_revoked s) \<subseteq> set (sv_revoked (fst (service_revoke env q s)))"
    using fold_retire [where env = env] by (auto simp: service_revoke_def Let_def case_prod_beta same_leases_def)
  then show ?thesis using assms(2) VRevoke by auto
next
  case VShutdown
  have "svc_ok (s\<lparr>sv_stopped := True\<rparr>)" using assms(1) by (simp add: svc_ok_def)
  then show ?thesis using assms(2) VShutdown svc_ok_fold_retire(2) by (simp add: service_shutdown_def)
next
  case (VRelease q t f)
  have "sv_revoked (fst (retire env l s)) = sv_revoked s" for l s using same_leases_retire by (simp add: same_leases_def)
  then show ?thesis using assms(2) VRelease by (simp add: release_lease_def case_prod_beta split: option.split)
qed (use assms(1,2) svc_ok_activate(2) svc_ok_tick same_leases_simple same_leases_invoke_begin in
    \<open>auto simp: same_leases_def renew_def renew_seq_def rotate_def split: sum.split option.split\<close>)

lemma revoked_run:
  assumes "svc_ok s" "p \<in> set (sv_revoked s)" "list_all (\<lambda>(env, c). case c of VGrant q g \<Rightarrow> q \<noteq> p | _ \<Rightarrow> True) steps"
  shows "p \<in> set (sv_revoked (svc_run steps s))"
  using assms
proof (induction steps arbitrary: s)
  case (Cons x steps)
  obtain env c where x: "x = (env, c)" by fastforce
  have "p \<in> set (sv_revoked (svc_exec env c s))" using Cons.prems x by (intro revoked_step) auto
  then show ?case using Cons.IH [of "svc_exec env c s"] Cons.prems x by (simp add: svc_ok_exec svc_run_def)
qed (simp add: svc_run_def)

text \<open>C6. A revoked principal is powerless. After the operator revoked a principal, and as long as no operator grants it
  anything again, whatever else happens: it is not authorized, and every activation, renewal, invocation, commit and release
  it asks for, under any token and fence, is refused and changes nothing.\<close>

theorem revoked_principal_powerless:
  assumes "svc_ok s0" "list_all (\<lambda>(env, c). case c of VGrant q g \<Rightarrow> q \<noteq> p | _ \<Rightarrow> True) steps"
    and s_def: "s = svc_run steps (fst (service_revoke env0 p s0))"
  shows "\<not> authorized p s \<and>
    (\<exists>e. activate_lease env p logical ttl s = (s, Inl e)) \<and> (\<exists>e. renew env p t f ttl s = (s, Inl e)) \<and>
    (\<exists>e. renew_seq env p t f n ttl s = (s, Inl e)) \<and> (\<exists>e. invoke_lease env p t f i cap v s = (s, Inl e)) \<and>
    (\<exists>e. commit_lease_effect env p t f i key v s = (s, Inl e)) \<and> (\<exists>e. release_lease env p t f s = (s, Inl e))"
proof -
  have ok: "svc_ok s" unfolding s_def by (intro svc_ok_run svc_ok_revoke(1) assms(1))
  have p: "p \<in> set (sv_revoked s)" unfolding s_def by (intro revoked_run svc_ok_revoke assms(1,2))
  then have v: "validate now p t f s = Inl ''permission-denied''" for now by (simp add: validate_def)
  have none: "ls_principal l \<noteq> p" if "hm_get (sv_leases s) t = Some l" for l
    using ok p holders_get [OF that] by (auto simp: svc_ok_def)
  then have "replays env p t f n s = None" by (simp add: replays_def split: option.split)
  then show ?thesis
    using p v none
    by (auto simp: authorized_def activate_lease_def may_activate_def renew_def renew_seq_def invoke_lease_def invoke_begin_def
        invoke_check_def bind_result_def commit_lease_effect_def release_lease_def split: option.split)
qed
lemma demo_service_ok: "svc_ok demo_service"
  by (simp add: svc_ok_def leases_ok_def holders_def demo_service_def demo_lease_def owner_lease_new_def next_fence_def unless_fault_def
      demo_store_def store_open_def store_empty_def I64_MAX_def)

theorem revoked_principal_powerless_witness:
  "\<exists>e. activate_lease demo_env ''p'' ''s'' 1000 (svc_run [(demo_env, VTick)] (fst (service_revoke demo_env ''p'' demo_service))) =
     (svc_run [(demo_env, VTick)] (fst (service_revoke demo_env ''p'' demo_service)), Inl e)"
  using revoked_principal_powerless [OF demo_service_ok _ refl, of "''p''" "[(demo_env, VTick)]" demo_env] by simp

subsection \<open>Invocations\<close>

lemma invoke_record_ok:
  assumes "invoke_record env p i logical f owner out s = (s', Inr res)" "j_get res ''ok'' = Some (JBool True)"
  shows "lease_live (se_later env) p logical f owner s'"
proof -
  have "same_leases s s'" using same_leases_simple(5) [of s env p i logical f owner out] assms(1) by simp
  moreover have "lease_live (se_later env) p logical f owner s"
    using assms by (auto simp: invoke_record_def Let_def j_get_def split: if_splits sum.splits prod.splits)
  ultimately show ?thesis by (simp add: lease_live_def same_leases_def)
qed

lemma invoke_check_Inr:
  "invoke_check env p t f cap s = Inr l \<Longrightarrow>
     hm_get (sv_leases s) t = Some l \<and> ls_principal l = p \<and> ls_fence l = f \<and> healthy (se_now env) l \<and> grant_covers p cap s"
  by (auto simp: invoke_check_def validate_Inr grant_covers_def split: if_splits)


definition demo_running :: service where
  "demo_running = demo_service\<lparr>sv_kernel := scenario
     \<lparr>k_plugins := [(''s'', plugin_of store_def (the (ctx_current (k_contexts scenario) ''s'')) Active [] None JNull [])],
      k_caps := reg_provide_instance ''r@1'' demo_owner reg_new\<rparr>\<rparr>"


subsection \<open>Renewals\<close>

text \<open>C40. A lost answer to a renewal cannot be recovered by asking again. When a session renewal rotated the token and its
  answer was lost, the peer only knows the old token; repeating the same renewal with it, at any later time, is refused as
  stale, because the rotation removed the entry that the replay check looks up. Only a peer that has the new token gets
  the replay.\<close>

theorem renew_seq_answer_lost:
  assumes "renew_seq env p t f n ttl s = (s1, Inr res)" "replays env p t f n s = None" "se_token env = Inr new" "new \<noteq> t"
  shows "renew_seq env' p t f n ttl s1 = (s1, Inl ''stale-generation'') \<and>
    (se_now env' < se_now env + ms ttl \<longrightarrow> snd (renew_seq env' p new f n ttl s1) = Inr (JObj (renewed new f ttl @ [(''replay'', JBool True)])))"
proof -
  obtain l where l: "validate (se_now env) p t f s = Inr l" "s1 = rotate env t new ttl (\<lambda>l. l\<lparr>ls_renew_seq := n\<rparr>) l s"
    and "ttl_ok ttl" "n \<noteq> 0"
    using assms(1-3) by (auto simp: renew_seq_def split: if_splits sum.splits)
  moreover have "p \<notin> set (sv_revoked s1)" "ls_principal l = p" "ls_fence l = f" "healthy (se_now env) l"
    using l by (simp_all add: rotate_def validate_Inr)
  moreover have "hm_get (sv_leases s1) t = None"
    "hm_get (sv_leases s1) new = Some (l\<lparr>ls_token := new, ls_deadline := se_now env + ms ttl, ls_renew_seq := n\<rparr>)"
    using l(2) assms(4) by (simp_all add: rotate_def)
  ultimately show ?thesis by (simp add: renew_seq_def replays_def validate_def healthy_def)
qed

theorem renew_seq_answer_lost_witness:
  "let s1 = fst (renew_seq demo_env ''p'' ''old'' 1 1 1000 demo_service)
   in renew_seq demo_env ''p'' ''old'' 1 1 1000 s1 = (s1, Inl ''stale-generation'')"
proof -
  let ?r = "renew_seq demo_env ''p'' ''old'' 1 1 1000 demo_service"
  have "\<not> isl (snd ?r)" "replays demo_env ''p'' ''old'' 1 1 demo_service = None" by code_simp+
  then obtain res where "?r = (fst ?r, Inr res)" by (cases ?r; cases "snd ?r") auto
  from renew_seq_answer_lost [OF this \<open>replays demo_env ''p'' ''old'' 1 1 demo_service = None\<close>, of "''new''" demo_env]
  show ?thesis by (simp add: demo_env_def Let_def)
qed

end
