(* ===== verification/Mx_Remote.thy ===== *)
theory Mx_Remote
  imports Mx_Envelope
begin

text \<open>
  The remote profile of the wire (matrix-proto/src/remote.rs): the checks of every message that
  crosses between hosts, envelope and body. A check that a body passes returns, and the first check that
  fails gives the error of the message.
\<close>

declare map_of_eq_Some_iff [simp del] Some_eq_map_of_iff [simp del]

subsection \<open>Constants\<close>

definition REMOTE_PROTOCOL_ID :: string where
  "REMOTE_PROTOCOL_ID = ''matrix.remote''"

definition REMOTE_PROTOCOL_VERSION :: string where
  "REMOTE_PROTOCOL_VERSION = ''0.1''"

definition REMOTE_FEATURES :: "string list" where
  "REMOTE_FEATURES = [''remote-calls/1'', ''remote-streams/1'', ''remote-events/1'', ''remote-ops/1'']"

definition REMOTE_TYPES :: "string list" where
  "REMOTE_TYPES =
     [''session.hello'', ''session.welcome'', ''session.close'', ''heartbeat'', ''lease.renew'', ''lease.renewed'',
      ''call.open'', ''call.accepted'', ''call.result'', ''call.cancel'',
      ''stream.open'', ''stream.data'', ''stream.credit'', ''stream.complete'', ''stream.cancel'',
      ''event.deliver'', ''event.subscribe'', ''event.subscribed'', ''op.query'', ''op.result'',
      ''inventory.reconcile'', ''inventory.result'', ''revoke.notice'']"

definition MAX_TRANSPORT_MS :: nat where
  "MAX_TRANSPORT_MS = 35000"

definition REMOTE_MAX_FRAME :: nat where
  "REMOTE_MAX_FRAME = 1024 * 1024"

definition REMOTE_MAX_ID_LEN :: nat where
  "REMOTE_MAX_ID_LEN = 128"

definition FORBIDDEN_CALL_FIELDS :: "string list" where
  "FORBIDDEN_CALL_FIELDS =
     [''provider'', ''grant'', ''grants'', ''principal'', ''executable'', ''entrypoint'', ''path'', ''ancestor'', ''ancestors'']"

subsection \<open>Checks of a field\<close>

definition rm_bad :: "string \<Rightarrow> wire_error" where
  "rm_bad reason = with_details (JObj [(''reason'', JStr reason)]) (wire_error_new ''invalid-message'' ''remote'')"

definition rm_bad_field :: "string \<Rightarrow> string \<Rightarrow> wire_error" where
  "rm_bad_field field reason =
     with_details (JObj [(''field'', JStr field), (''reason'', JStr reason)]) (wire_error_new ''invalid-message'' ''remote'')"

definition rm_check_id :: "json \<Rightarrow> string \<Rightarrow> (wire_error, string) result" where
  "rm_check_id body field =
     (case get_str body field of
        Some s \<Rightarrow> if s \<noteq> [] \<and> length s \<le> REMOTE_MAX_ID_LEN then Inr s else Inl (rm_bad_field field ''empty or oversize id'')
      | None \<Rightarrow> Inl (rm_bad_field field ''missing id''))"

definition rm_check_decimal :: "json \<Rightarrow> string \<Rightarrow> (wire_error, nat) result" where
  "rm_check_decimal body field =
     (case get_str body field of
        None \<Rightarrow> Inl (rm_bad_field field ''decimal string required'')
      | Some s \<Rightarrow>
          if s = [] \<or> 20 < length s \<or> \<not> list_all is_ascii_digit s then Inl (rm_bad_field field ''decimal string required'')
          else (case parse_u64 s of Some n \<Rightarrow> Inr n | None \<Rightarrow> Inl (rm_bad_field field ''out of range'')))"

definition rm_check_budget_ms :: "json \<Rightarrow> string \<Rightarrow> (wire_error, nat) result" where
  "rm_check_budget_ms body field =
     (case get_u64 body field of
        Some n \<Rightarrow> if 0 < n \<and> n \<le> MAX_TRANSPORT_MS then Inr n
                   else Inl (rm_bad_field field ''positive integer within transport budget required'')
      | None \<Rightarrow> Inl (rm_bad_field field ''positive integer within transport budget required''))"

definition is_ascii_alphanumeric :: "char \<Rightarrow> bool" where
  "is_ascii_alphanumeric c \<longleftrightarrow> is_ascii_digit c \<or> in_range 65 90 c \<or> in_range 97 122 c"

definition rm_check_domain :: "string \<Rightarrow> (wire_error, unit) result" where
  "rm_check_domain s =
     ensure (s \<noteq> [] \<and> length s \<le> 64 \<and> list_all (\<lambda>c. is_ascii_alphanumeric c \<or> c = CHR ''-'' \<or> c = CHR ''_'') s)
       (rm_bad_field ''domain'' ''1..64 of [A-Za-z0-9_-] required'')"

definition activation_member :: "json \<Rightarrow> string \<Rightarrow> (wire_error, unit) result" where
  "activation_member v f =
     (case get_str v f of
        None \<Rightarrow> Inl (rm_bad_field ''activation'' ''logical/instance/generation strings required'')
      | Some s \<Rightarrow>
          if s = [] \<or> REMOTE_MAX_ID_LEN < length s then Inl (rm_bad_field ''activation'' ''empty or oversize member'')
          else if f \<noteq> ''logical'' \<and> (\<not> list_all is_ascii_digit s \<or> parse_u64 s = None)
          then Inl (rm_bad_field ''activation'' ''instance/generation must be decimal'')
          else Inr ())"

definition rm_check_activation :: "json \<Rightarrow> (wire_error, unit) result" where
  "rm_check_activation v =
     bind_result (ensure (as_object v \<noteq> None) (rm_bad_field ''activation'' ''object required'')) (\<lambda>_.
     for_each (activation_member v) [''logical'', ''instance'', ''generation''])"

definition rm_check_base64 :: "string \<Rightarrow> bool" where
  "rm_check_base64 s \<longleftrightarrow>
     length s \<le> 4 * (REMOTE_MAX_FRAME div 3 + 1) \<and>
     list_all (\<lambda>c. is_ascii_alphanumeric c \<or> c \<in> {CHR ''+'', CHR ''/'', CHR ''='', CHR 0x0A, CHR 0x0D}) s \<and>
     length s mod 4 = 0"

subsection \<open>The required fields of an envelope\<close>

definition rm_required_top :: "string \<Rightarrow> string list option" where
  "rm_required_top ty =
     (if ty = ''session.hello'' then Some [''message_id'', ''body'']
      else if ty \<in> {''session.welcome'', ''session.close'', ''heartbeat'', ''lease.renew'', ''lease.renewed''}
      then Some [''message_id'', ''session_id'', ''body'']
      else if ty = ''call.open'' \<or> ty = ''stream.open''
      then Some [''message_id'', ''session_id'', ''instance_id'', ''generation'', ''request_id'', ''body'']
      else if ty \<in> {''call.accepted'', ''call.result'', ''call.cancel''}
      then Some [''message_id'', ''session_id'', ''request_id'', ''body'']
      else if ty \<in> {''stream.data'', ''stream.credit'', ''stream.complete'', ''stream.cancel''}
      then Some [''message_id'', ''session_id'', ''body'']
      else if ty = ''event.deliver'' then Some [''message_id'', ''session_id'', ''instance_id'', ''generation'', ''body'']
      else if ty = ''event.subscribe'' \<or> ty = ''event.subscribed''
      then Some [''message_id'', ''session_id'', ''request_id'', ''body'']
      else if ty \<in> {''op.query'', ''op.result'', ''inventory.reconcile'', ''inventory.result'', ''revoke.notice''}
      then Some [''message_id'', ''session_id'', ''body'']
      else None)"

subsection \<open>The bodies\<close>

text \<open>A sequence of checks, each followed by \<open>?\<close>.\<close>

definition checks :: "(wire_error, unit) result list \<Rightarrow> (wire_error, unit) result" where
  "checks rs = for_each (\<lambda>r. r) rs"

definition passed :: "(wire_error, 'a) result \<Rightarrow> (wire_error, unit) result" where
  "passed r = bind_result r (\<lambda>_. Inr ())"

definition rm_has_u64 :: "json \<Rightarrow> string \<Rightarrow> string \<Rightarrow> (wire_error, unit) result" where
  "rm_has_u64 body field reason = ensure (get_u64 body field \<noteq> None) (rm_bad_field field reason)"

definition rm_has_bool :: "json \<Rightarrow> string \<Rightarrow> (wire_error, unit) result" where
  "rm_has_bool body field = ensure (Option.bind (j_get body field) as_bool \<noteq> None) (rm_bad_field field ''boolean required'')"

definition rm_one_of :: "json \<Rightarrow> string \<Rightarrow> string list \<Rightarrow> string \<Rightarrow> (wire_error, unit) result" where
  "rm_one_of body field allowed reason =
     ensure (case get_str body field of Some s \<Rightarrow> s \<in> set allowed | None \<Rightarrow> False) (rm_bad_field field reason)"

definition rm_strings :: "string \<Rightarrow> nat \<Rightarrow> json list \<Rightarrow> (wire_error, unit) result" where
  "rm_strings field max_len vs =
     for_each (\<lambda>v. ensure (case as_str v of Some s \<Rightarrow> s \<noteq> [] \<and> length s \<le> max_len | None \<Rightarrow> False)
                 (rm_bad_field field ''entries must be non-empty strings'')) vs"

definition rm_arrays :: "json \<Rightarrow> string list \<Rightarrow> (wire_error, unit) result" where
  "rm_arrays body fs = for_each (\<lambda>f. ensure (get_array body f \<noteq> None) (rm_bad_field f ''array required'')) fs"

definition rm_domain_field :: "json \<Rightarrow> string \<Rightarrow> string \<Rightarrow> (wire_error, unit) result" where
  "rm_domain_field v field reason =
     (case get_str v ''domain'' of Some s \<Rightarrow> rm_check_domain s | None \<Rightarrow> Inl (rm_bad_field field reason))"

definition rm_activation_field :: "json \<Rightarrow> string \<Rightarrow> string \<Rightarrow> (wire_error, unit) result" where
  "rm_activation_field v field reason =
     (case j_get v ''activation'' of Some a \<Rightarrow> rm_check_activation a | None \<Rightarrow> Inl (rm_bad_field field reason))"

definition rm_validate_hello :: "json \<Rightarrow> (wire_error, unit) result" where
  "rm_validate_hello body =
     (case get_array body ''versions'' of
        None \<Rightarrow> Inl (rm_bad_field ''versions'' ''array of version strings required'')
      | Some versions \<Rightarrow>
          checks
            [ensure (versions \<noteq> [] \<and> length versions \<le> 8) (rm_bad_field ''versions'' ''1..8 entries required''),
             rm_strings ''versions'' 32 versions,
             rm_domain_field body ''domain'' ''missing domain'',
             passed (rm_check_id body ''authority''),
             passed (rm_check_decimal body ''controller_epoch'')])"

definition rm_validate_welcome :: "json \<Rightarrow> (wire_error, unit) result" where
  "rm_validate_welcome body =
     checks
       [passed (rm_check_id body ''version''),
        passed (rm_check_decimal body ''executor_epoch''),
        (case j_get body ''features'' of
           None \<Rightarrow> Inr ()
         | Some feats \<Rightarrow>
             (case as_array feats of
                None \<Rightarrow> Inl (rm_bad_field ''features'' ''array of strings required'')
              | Some arr \<Rightarrow>
                  checks [ensure (length arr \<le> 16) (rm_bad_field ''features'' ''too many entries''),
                          rm_strings ''features'' 64 arr]))]"

definition rm_validate_call_open :: "json \<Rightarrow> (wire_error, unit) result" where
  "rm_validate_call_open body =
     (case j_get body ''parent'' of
        None \<Rightarrow> Inl (rm_bad_field ''parent'' ''object required'')
      | Some parent \<Rightarrow>
          checks
            [rm_activation_field parent ''parent'' ''parent.activation required'',
             passed (rm_check_id parent ''ticket''),
             rm_domain_field parent ''parent'' ''parent.domain required'',
             bind_result (rm_check_id body ''binding_id'') (\<lambda>binding.
               ensure (starts_with binding ''rb-'') (rm_bad_field ''binding_id'' ''remote bindings are rb-<n>'')),
             rm_activation_field body ''activation'' ''consumer activation required'',
             passed (rm_check_id body ''cap''),
             ensure (j_get body ''input'' \<noteq> None) (rm_bad_field ''input'' ''missing input''),
             passed (rm_check_budget_ms body ''timeout_ms''),
             passed (rm_check_budget_ms body ''budget_ms''),
             passed (rm_check_id body ''lease''),
             passed (rm_check_decimal body ''grant_rev''),
             passed (rm_check_id body ''operation_id''),
             for_each (\<lambda>f. ensure (j_get body f = None) (rm_bad_field f ''authority must not come from payload''))
               FORBIDDEN_CALL_FIELDS])"

definition rm_validate_call_result :: "json \<Rightarrow> (wire_error, unit) result" where
  "rm_validate_call_result body =
     checks
       [(let status = get_str body ''status'' in
         if status = Some ''ok'' then ensure (j_get body ''output'' \<noteq> None) (rm_bad_field ''output'' ''ok requires output'')
         else if status = Some ''error''
         then (case Option.bind (j_get body ''error'') as_object of
                 None \<Rightarrow> Inl (rm_bad_field ''error'' ''error requires {code, message}'')
               | Some err \<Rightarrow> ensure (dep_error_ok err) (rm_bad_field ''error'' ''non-empty code and message required''))
         else Inl (rm_bad_field ''status'' ''must be ok or error'')),
        rm_has_bool body ''terminal'']"

definition rm_validate_stream_open :: "json \<Rightarrow> (wire_error, unit) result" where
  "rm_validate_stream_open body =
     checks
       [passed (rm_check_id body ''stream_id''),
        passed (rm_check_id body ''operation_id''),
        rm_one_of body ''direction'' [''up'', ''down'', ''bidi''] ''must be up, down or bidi'',
        for_each (\<lambda>f. rm_has_u64 body f ''non-negative integer required'') [''max_bytes'', ''credit''],
        rm_activation_field body ''activation'' ''owner activation required'']"

definition rm_validate_stream_data :: "json \<Rightarrow> (wire_error, unit) result" where
  "rm_validate_stream_data body =
     checks
       [passed (rm_check_id body ''stream_id''),
        rm_has_u64 body ''seq'' ''non-negative integer required'',
        (case get_str body ''bytes'' of
           None \<Rightarrow> Inl (rm_bad_field ''bytes'' ''base64 string required'')
         | Some bytes \<Rightarrow> ensure (rm_check_base64 bytes) (rm_bad_field ''bytes'' ''invalid base64 payload'')),
        rm_has_u64 body ''credit'' ''remaining-credit report required'']"

definition rm_validate_topics :: "json \<Rightarrow> (wire_error, unit) result" where
  "rm_validate_topics body =
     (case get_array body ''topics'' of
        None \<Rightarrow> Inl (rm_bad_field ''topics'' ''array of topic strings required'')
      | Some topics \<Rightarrow>
          checks [ensure (length topics \<le> 128) (rm_bad_field ''topics'' ''at most 128 entries''),
                  rm_strings ''topics'' REMOTE_MAX_ID_LEN topics])"

definition rm_validate_inventory_result :: "json \<Rightarrow> (wire_error, unit) result" where
  "rm_validate_inventory_result body =
     checks
       [rm_arrays body [''revoked'', ''unknown''],
        (case j_get body ''activations'' of
           None \<Rightarrow> Inr ()
         | Some acts \<Rightarrow>
             (case as_array acts of
                None \<Rightarrow> Inl (rm_bad_field ''activations'' ''array required'')
              | Some arr \<Rightarrow>
                  checks
                    [ensure (length arr \<le> 256) (rm_bad_field ''activations'' ''at most 256 entries''),
                     for_each (\<lambda>a. checks [passed (rm_check_id a ''logical''), passed (rm_check_decimal a ''instance''),
                                           passed (rm_check_decimal a ''generation'')]) arr]))]"

definition rm_validate_body :: "string \<Rightarrow> json \<Rightarrow> (wire_error, unit) result" where
  "rm_validate_body ty body =
     (if ty = ''session.hello'' then rm_validate_hello body
      else if ty = ''session.welcome'' then rm_validate_welcome body
      else if ty = ''session.close'' then passed (rm_check_id body ''reason'')
      else if ty = ''heartbeat'' then Inr ()
      else if ty = ''lease.renew''
      then checks [passed (rm_check_id body ''token''), passed (rm_check_decimal body ''fence''),
                   rm_has_u64 body ''seq'' ''monotonic sequence required'', passed (rm_check_budget_ms body ''ttl_ms'')]
      else if ty = ''lease.renewed''
      then checks [rm_one_of body ''status'' [''ok'', ''stale'', ''retired''] ''must be ok, stale or retired'',
                   passed (rm_check_id body ''token''), rm_has_u64 body ''seq'' ''monotonic sequence required'']
      else if ty = ''call.open'' then rm_validate_call_open body
      else if ty = ''call.accepted''
      then checks [rm_one_of body ''status'' [''admitted''] ''must be admitted'', rm_has_bool body ''persisted'']
      else if ty = ''call.result'' then rm_validate_call_result body
      else if ty = ''call.cancel'' then checks [passed (rm_check_id body ''reason''), passed (rm_check_id body ''operation_id'')]
      else if ty = ''stream.open'' then rm_validate_stream_open body
      else if ty = ''stream.data'' then rm_validate_stream_data body
      else if ty = ''stream.credit''
      then checks [passed (rm_check_id body ''stream_id''), rm_has_u64 body ''credit'' ''non-negative integer required'']
      else if ty = ''stream.complete'' \<or> ty = ''stream.cancel''
      then checks [passed (rm_check_id body ''stream_id''),
                   rm_one_of body ''status'' [''ok'', ''error'', ''cancelled''] ''must be ok, error or cancelled'']
      else if ty = ''event.deliver''
      then checks [passed (rm_check_id body ''topic''),
                   ensure (j_get body ''payload'' \<noteq> None) (rm_bad_field ''payload'' ''missing payload''),
                   rm_has_u64 body ''seq'' ''non-negative integer required'']
      else if ty = ''event.subscribe'' \<or> ty = ''event.subscribed'' then rm_validate_topics body
      else if ty = ''op.query'' then checks [passed (rm_check_id body ''principal''), passed (rm_check_id body ''operation_id'')]
      else if ty = ''op.result''
      then rm_one_of body ''state'' [''admitted'', ''completed'', ''unknown''] ''must be admitted, completed or unknown''
      else if ty = ''inventory.reconcile'' then rm_arrays body [''activations'', ''leases'', ''operations'', ''resources'']
      else if ty = ''inventory.result'' then rm_validate_inventory_result body
      else if ty = ''revoke.notice'' then checks [passed (rm_check_id body ''target''), passed (rm_check_decimal body ''fence'')]
      else Inl (rm_bad ''unknown remote message''))"

definition is_answer_type :: "string \<Rightarrow> bool" where
  "is_answer_type ty \<longleftrightarrow>
     ty \<in> {''call.accepted'', ''call.result'', ''op.result'', ''inventory.result'', ''lease.renewed'', ''event.subscribed''}"

subsection \<open>The envelope\<close>

definition rm_top_ok :: "json \<Rightarrow> string \<Rightarrow> bool" where
  "rm_top_ok v f =
     (case j_get v f of
        Some (JStr s) \<Rightarrow> s \<noteq> [] \<and> length s \<le> REMOTE_MAX_ID_LEN
      | Some (JObj _) \<Rightarrow> f = ''body''
      | _ \<Rightarrow> False)"

definition rm_decimal_ok :: "json \<Rightarrow> string \<Rightarrow> bool" where
  "rm_decimal_ok v f =
     (case j_get v f of
        None \<Rightarrow> True
      | Some x \<Rightarrow> (case as_str x of Some s \<Rightarrow> s \<noteq> [] \<and> list_all is_ascii_digit s \<and> parse_u64 s \<noteq> None | None \<Rightarrow> False))"

definition rm_validate_envelope :: "json \<Rightarrow> (wire_error, unit) result" where
  "rm_validate_envelope v =
     bind_result (ensure (as_object v \<noteq> None) (rm_bad ''envelope must be an object'')) (\<lambda>_.
     bind_result (ensure (get_str v ''protocol'' = Some REMOTE_PROTOCOL_ID) (rm_bad ''protocol must be matrix.remote'')) (\<lambda>_.
     bind_result (ensure (get_str v ''version'' = Some REMOTE_PROTOCOL_VERSION) (rm_bad ''version must be 0.1'')) (\<lambda>_.
     bind_result (case get_str v ''type'' of Some ty \<Rightarrow> Inr ty | None \<Rightarrow> Inl (rm_bad ''missing type'')) (\<lambda>ty.
     bind_result (case rm_required_top ty of Some fs \<Rightarrow> Inr fs | None \<Rightarrow> Inl (rm_bad ''unknown remote message'')) (\<lambda>required.
     bind_result (for_each (\<lambda>f. ensure (rm_top_ok v f) (rm_bad_field f ''missing or oversize field'')) required) (\<lambda>_.
     bind_result (for_each (\<lambda>f. ensure (rm_decimal_ok v f) (rm_bad_field f ''decimal string required''))
                   [''instance_id'', ''generation'']) (\<lambda>_.
     bind_result (case j_get v ''body'' of Some b \<Rightarrow> Inr b | None \<Rightarrow> Inl (rm_bad ''missing body'')) (\<lambda>body.
     rm_validate_body ty body))))))))"

subsection \<open>What an accepted message has\<close>

lemma checks_Inr [simp]: "checks rs = Inr u \<longleftrightarrow> (\<forall>r \<in> set rs. r = Inr ())"
  by (simp add: checks_def)

lemma passed_Inr [simp]: "passed r = Inr u \<longleftrightarrow> (\<exists>x. r = Inr x)"
  by (simp add: passed_def)

text \<open>Every refusal is a wire error of the remote layer.\<close>

definition remote_error :: "wire_error \<Rightarrow> bool" where
  "remote_error e \<longleftrightarrow> we_code e = ''invalid-message'' \<and> we_phase e = ''remote''"

definition refuses_well :: "(wire_error, 'a) result \<Rightarrow> bool" where
  "refuses_well r = (case r of Inl e \<Rightarrow> remote_error e | Inr _ \<Rightarrow> True)"

lemma rm_bad_remote [simp]: "remote_error (rm_bad reason)" "remote_error (rm_bad_field f reason)"
  by (simp_all add: remote_error_def rm_bad_def rm_bad_field_def with_details_def wire_error_new_def)

lemma refuses_basic [simp]: "refuses_well (Inr x)" "refuses_well (Inl e) \<longleftrightarrow> remote_error e"
  by (simp_all add: refuses_well_def)

lemma refuses_bind: "refuses_well r \<Longrightarrow> (\<And>x. r = Inr x \<Longrightarrow> refuses_well (f x)) \<Longrightarrow> refuses_well (bind_result r f)"
  by (cases r) (simp_all add: bind_result_def)

lemma refuses_ensure [simp]: "refuses_well (ensure b e) \<longleftrightarrow> b \<or> remote_error e"
  by (simp add: ensure_def)

lemma refuses_for_each: "(\<And>x. x \<in> set xs \<Longrightarrow> refuses_well (f x)) \<Longrightarrow> refuses_well (for_each f xs)"
proof (induction xs)
  case (Cons x xs)
  then show ?case by (cases "f x") (auto dest: meta_spec [of _ x])
qed simp

lemma refuses_checks: "(\<And>r. r \<in> set rs \<Longrightarrow> refuses_well r) \<Longrightarrow> refuses_well (checks rs)"
  unfolding checks_def by (rule refuses_for_each) simp

lemma refuses_passed [simp]: "refuses_well (passed r) \<longleftrightarrow> refuses_well r"
  by (cases r) (simp_all add: passed_def bind_result_def)
lemma refuses_fields [simp]:
  "refuses_well (rm_check_id b f)" "refuses_well (rm_check_decimal b f)" "refuses_well (rm_check_budget_ms b f)"
  "refuses_well (rm_check_domain s)" "refuses_well (activation_member b f)"
  "refuses_well (rm_has_u64 b f r)" "refuses_well (rm_has_bool b f)" "refuses_well (rm_one_of b f allowed r)"
  by (simp_all add: rm_check_id_def rm_check_decimal_def rm_check_budget_ms_def rm_check_domain_def activation_member_def
      rm_has_u64_def rm_has_bool_def rm_one_of_def split: option.split)

lemma refuses_activation [simp]: "refuses_well (rm_check_activation v)"
  unfolding rm_check_activation_def by (rule refuses_bind, simp, rule refuses_for_each, simp)

lemma refuses_groups [simp]:
  "refuses_well (rm_strings f n vs)" "refuses_well (rm_arrays b fs)"
  "refuses_well (rm_domain_field v f r)" "refuses_well (rm_activation_field v f r)"
  by (auto simp: rm_strings_def rm_arrays_def rm_domain_field_def rm_activation_field_def
      intro!: refuses_bind refuses_checks refuses_for_each split: option.split)

lemma refuses_bodies [simp]:
  "refuses_well (rm_validate_hello b)" "refuses_well (rm_validate_welcome b)" "refuses_well (rm_validate_call_open b)"
  "refuses_well (rm_validate_call_result b)" "refuses_well (rm_validate_stream_open b)" "refuses_well (rm_validate_stream_data b)"
  "refuses_well (rm_validate_topics b)" "refuses_well (rm_validate_inventory_result b)"
  by (auto simp: rm_validate_hello_def rm_validate_welcome_def rm_validate_call_open_def rm_validate_call_result_def
      rm_validate_stream_open_def rm_validate_stream_data_def rm_validate_topics_def rm_validate_inventory_result_def Let_def
      simp del: for_each.simps intro!: refuses_bind refuses_checks refuses_for_each split: option.split)

lemma refuses_if: "refuses_well a \<Longrightarrow> refuses_well b \<Longrightarrow> refuses_well (if c then a else b)"
  by simp

lemma refuses_body [simp]: "refuses_well (rm_validate_body ty b)"
  unfolding rm_validate_body_def by (intro refuses_if; (rule refuses_checks)?) auto

lemma refuses_envelope: "refuses_well (rm_validate_envelope v)"
  unfolding rm_validate_envelope_def
  by (auto simp del: for_each.simps intro!: refuses_bind refuses_checks refuses_for_each split: option.split)

lemma rm_check_id_Inr [simp]: "rm_check_id b f = Inr s \<longleftrightarrow> get_str b f = Some s \<and> s \<noteq> [] \<and> length s \<le> REMOTE_MAX_ID_LEN"
  by (auto simp: rm_check_id_def split: option.split)

lemma rm_check_budget_ms_Inr [simp]: "rm_check_budget_ms b f = Inr n \<longleftrightarrow> get_u64 b f = Some n \<and> 0 < n \<and> n \<le> MAX_TRANSPORT_MS"
  by (auto simp: rm_check_budget_ms_def split: option.split)

lemma rm_check_decimal_Inr: "rm_check_decimal b f = Inr n \<Longrightarrow> \<exists>s. get_str b f = Some s \<and> parse_u64 s = Some n"
  by (auto simp: rm_check_decimal_def split: option.splits if_splits)

text \<open>What a host may rely on when a remote call arrives: the budgets, the binding, and that the body claims no authority.\<close>

definition call_open_ok :: "json \<Rightarrow> bool" where
  "call_open_ok body \<longleftrightarrow>
     (\<forall>f \<in> set FORBIDDEN_CALL_FIELDS. j_get body f = None) \<and>
     (case get_str body ''binding_id'' of Some b \<Rightarrow> starts_with b ''rb-'' \<and> length b \<le> REMOTE_MAX_ID_LEN | None \<Rightarrow> False) \<and>
     (\<forall>f \<in> {''timeout_ms'', ''budget_ms''}. case get_u64 body f of Some n \<Rightarrow> 0 < n \<and> n \<le> MAX_TRANSPORT_MS | None \<Rightarrow> False) \<and>
     (case get_str body ''grant_rev'' of Some s \<Rightarrow> parse_u64 s \<noteq> None | None \<Rightarrow> False) \<and>
     (case j_get body ''activation'' of Some a \<Rightarrow> rm_check_activation a = Inr () | None \<Rightarrow> False)"

lemma rm_validate_call_open_Inr: "rm_validate_call_open body = Inr () \<Longrightarrow> call_open_ok body"
  by (auto simp: rm_validate_call_open_def call_open_ok_def rm_activation_field_def simp del: for_each.simps
      dest!: rm_check_decimal_Inr split: option.splits)

lemma rm_validate_body_call_open: "rm_validate_body ''call.open'' body = rm_validate_call_open body"
  by (simp add: rm_validate_body_def)

lemma rm_validate_envelope_Inr:
  assumes "rm_validate_envelope v = Inr u"
  obtains ty body where "get_str v ''type'' = Some ty" "j_get v ''body'' = Some body" "rm_decimal_ok v ''instance_id''"
    "rm_decimal_ok v ''generation''" "rm_validate_body ty body = Inr u"
  using assms unfolding rm_validate_envelope_def by (auto simp del: for_each.simps split: option.splits)

text \<open>C38. Authority never comes from the payload of a remote call. An envelope of type \<open>call.open\<close> is either refused, with
  the code \<open>invalid-message\<close> of the remote layer, or its body names none of the fields that would fabricate authority
  (provider, grant, principal, executable, path, ancestors, ...), its binding is a remote one, both of its time budgets are
  positive and within the transport budget, its grant revision is a 64-bit decimal, and its consumer activation is well formed.\<close>

theorem remote_call_open_guarded:
  assumes "get_str v ''type'' = Some ''call.open''"
  shows "case rm_validate_envelope v of
      Inl e \<Rightarrow> we_code e = ''invalid-message'' \<and> we_phase e = ''remote''
    | Inr _ \<Rightarrow> \<exists>body. j_get v ''body'' = Some body \<and> call_open_ok body \<and> rm_decimal_ok v ''instance_id'' \<and> rm_decimal_ok v ''generation''"
proof (cases "rm_validate_envelope v")
  case (Inl e)
  then show ?thesis using refuses_envelope [of v] by (simp add: remote_error_def)
next
  case (Inr u)
  then show ?thesis
    using assms rm_validate_call_open_Inr by (auto simp: rm_validate_body_call_open elim!: rm_validate_envelope_Inr)
qed

definition forged_call :: json where
  "forged_call = JObj
     [(''protocol'', JStr ''matrix.remote''), (''version'', JStr ''0.1''), (''type'', JStr ''call.open''),
      (''message_id'', JStr ''m1''), (''session_id'', JStr ''s''), (''instance_id'', JStr ''3''), (''generation'', JStr ''1''),
      (''request_id'', JStr ''r''),
      (''body'', JObj
        [(''parent'', JObj [(''domain'', JStr ''d1''), (''ticket'', JStr ''41''),
           (''activation'', JObj [(''logical'', JStr ''c''), (''instance'', JStr ''3''), (''generation'', JStr ''1'')])]),
         (''binding_id'', JStr ''rb-0''),
         (''activation'', JObj [(''logical'', JStr ''c''), (''instance'', JStr ''3''), (''generation'', JStr ''1'')]),
         (''cap'', JStr ''p@1''), (''input'', JNull), (''timeout_ms'', JInt 5000), (''budget_ms'', JInt 8000),
         (''lease'', JStr ''tok''), (''grant_rev'', JStr ''9''), (''operation_id'', JStr ''op-1''),
         (''ancestors'', JArr [])])]"

theorem remote_call_open_guarded_witness:
  "\<exists>e. rm_validate_envelope forged_call = Inl e \<and> we_code e = ''invalid-message'' \<and> we_phase e = ''remote''"
proof -
  have "get_str forged_call ''type'' = Some ''call.open''"
    by (simp add: forged_call_def get_str_def j_get_def as_str_def)
  moreover have "j_get forged_call ''body'' = Some body \<Longrightarrow> \<not> call_open_ok body" for body
    by (auto simp: forged_call_def j_get_def call_open_ok_def FORBIDDEN_CALL_FIELDS_def)
  ultimately show ?thesis
    using remote_call_open_guarded [of forged_call] by (auto split: sum.splits)
qed

end
