(* ===== verification/Mx_Reader.thy ===== *)
theory Mx_Reader
  imports Mx_Remote
begin

text \<open>
  The receiving half of a remote session (\<open>Assembler\<close>, \<open>TlsIo::recv_frame\<close> and
  \<open>Engine::pump_reads\<close> of matrix-runtime/src/session.rs). The TLS library is the environment:
  what a round of \<open>complete_io\<close> and \<open>process_new_packets\<close> answers, and the decrypted
  bytes the reader has, as the chunks its reads deliver. A read that would block and a read of
  nothing are the end of the chunks. Loops that the code leaves without a measure are partial
  functions; that they return is proved.
\<close>

declare map_of_eq_Some_iff [simp del] Some_eq_map_of_iff [simp del]

subsection \<open>The assembler\<close>

text \<open>\<open>as_header\<close> is the filled part of the four bytes of \<open>header\<close>; its length is \<open>header_got\<close>.\<close>

record assembler =
  as_header :: string
  as_pending :: "nat option"
  as_body :: string

definition assembler_new :: assembler where
  "assembler_new = \<lparr>as_header = [], as_pending = None, as_body = []\<rparr>"

definition has_frame :: "assembler \<Rightarrow> bool" where
  "has_frame a = (case as_pending a of None \<Rightarrow> False | Some n \<Rightarrow> n \<le> length (as_body a))"

definition assembler_empty :: "assembler \<Rightarrow> bool" where
  "assembler_empty a \<longleftrightarrow> as_header a = [] \<and> as_pending a = None \<and> as_body a = []"

definition declared :: "string \<Rightarrow> nat option" where
  "declared h = (case h of [b1, b2, b3, b4] \<Rightarrow> Some (unat (from_be_bytes b1 b2 b3 b4)) | _ \<Rightarrow> None)"

partial_function (option) feed :: "nat \<Rightarrow> string \<Rightarrow> assembler \<Rightarrow> (assembler \<times> (unit, string) result) option" where
  "feed max_frame rest a =
     (if rest = [] then Some (a, Inr rest)
      else (case as_pending a of
              None \<Rightarrow>
                (let k = min (4 - length (as_header a)) (length rest);
                     a1 = a\<lparr>as_header := as_header a @ take k rest\<rparr> in
                 (case declared (as_header a1) of
                    None \<Rightarrow> feed max_frame (drop k rest) a1
                  | Some len \<Rightarrow>
                      if len = 0 \<or> max_frame < len then Some (a1, Inl ())
                      else feed max_frame (drop k rest) (a1\<lparr>as_pending := Some len, as_body := []\<rparr>)))
            | Some n \<Rightarrow>
                if has_frame a then Some (a, Inr rest)
                else (let want = n - length (as_body a) in
                      if want = 0 then Some (a, Inr rest)
                      else feed max_frame (drop (min want (length rest)) rest)
                             (a\<lparr>as_body := as_body a @ take (min want (length rest)) rest\<rparr>))))"

definition take_frame :: "assembler \<Rightarrow> assembler \<times> (string, string option) result" where
  "take_frame a =
     (case as_pending a of
        None \<Rightarrow> (a, Inr None)
      | Some len \<Rightarrow>
          if \<not> has_frame a then (a, Inr None)
          else (\<lparr>as_header = [], as_pending = None, as_body = []\<rparr>,
                if length (as_body a) \<noteq> len then Inl ''assembler drift'' else Inr (Some (as_body a))))"

lemma take_frame_shrinks: "take_frame a = (a', Inr (Some raw)) \<Longrightarrow> has_frame a \<and> \<not> has_frame a'"
  by (auto simp: take_frame_def has_frame_def split: option.splits if_splits)

subsection \<open>A round of reading\<close>

definition decode_frame :: "(string \<Rightarrow> string) \<Rightarrow> (string \<Rightarrow> (string, json) result) \<Rightarrow> string \<Rightarrow> (string, json) result" where
  "decode_frame utf8_msg from_str raw = (case scan_raw utf8_msg from_str raw of Inl e \<Rightarrow> Inl (we_code e) | Inr v \<Rightarrow> Inr v)"

text \<open>
  The transport of a session: the decrypted bytes not read yet, the assembler, the frames read
  ahead, and whether the stream has ended or was shut down. \<open>io_malformed\<close> is the counter
  \<open>dropped_malformed\<close> of the session.
\<close>

record tls_io =
  io_plain :: "chunk list"
  io_assembler :: assembler
  io_stash :: "json list"
  io_eof :: bool
  io_poisoned :: bool
  io_malformed :: nat

definition tls_io_new :: tls_io where
  "tls_io_new = \<lparr>io_plain = [], io_assembler = assembler_new, io_stash = [], io_eof = False, io_poisoned = False, io_malformed = 0\<rparr>"

definition poison :: "tls_io \<Rightarrow> tls_io" where
  "poison io = io\<lparr>io_poisoned := True\<rparr>"

text \<open>Takes every complete frame. A frame that is no JSON document is dropped and counted.\<close>

function take_frames ::
  "(string \<Rightarrow> (string, json) result) \<Rightarrow> bool \<Rightarrow> json list \<Rightarrow> tls_io \<Rightarrow> (tls_io \<times> json list) \<times> (string, bool) result" where
  "take_frames dec took out io =
     (case take_frame (io_assembler io) of
        (a, Inl e) \<Rightarrow> ((io\<lparr>io_assembler := a\<rparr>, out), Inl e)
      | (a, Inr None) \<Rightarrow> ((io\<lparr>io_assembler := a\<rparr>, out), Inr took)
      | (a, Inr (Some raw)) \<Rightarrow>
          (case dec raw of
             Inr v \<Rightarrow> take_frames dec True (out @ [v]) (io\<lparr>io_assembler := a\<rparr>)
           | Inl e \<Rightarrow> take_frames dec True out (io\<lparr>io_assembler := a, io_malformed := io_malformed io + 1\<rparr>)))"
  by pat_completeness auto
termination
  by (relation "measure (\<lambda>(dec, took, out, io). if has_frame (io_assembler io) then 1 else 0)")
    (auto dest!: take_frame_shrinks [OF sym])

declare take_frames.simps [simp del]

text \<open>One chunk: feed and take in turns.\<close>

partial_function (option) feed_chunk ::
  "(string \<Rightarrow> (string, json) result) \<Rightarrow> nat \<Rightarrow> string \<Rightarrow> json list \<Rightarrow> tls_io \<Rightarrow> ((tls_io \<times> json list) \<times> (string, unit) result) option" where
  "feed_chunk dec max_frame rest out io =
     (case feed max_frame rest (io_assembler io) of
        None \<Rightarrow> None
      | Some (a, Inl _) \<Rightarrow> Some ((poison (io\<lparr>io_assembler := a\<rparr>), out), Inl ''frame too large'')
      | Some (a, Inr rest') \<Rightarrow>
          (case take_frames dec False out (io\<lparr>io_assembler := a\<rparr>) of
             ((io1, out1), Inl e) \<Rightarrow> Some ((io1, out1), Inl e)
           | ((io1, out1), Inr took) \<Rightarrow>
               if rest' = [] then Some ((io1, out1), Inr ())
               else if \<not> took then Some ((poison io1, out1), Inl ''assembler stall'')
               else feed_chunk dec max_frame rest' out1 io1))"

text \<open>The reads of a round, up to the cap; what is not read stays in the reader.\<close>

fun pump_chunks ::
  "(string \<Rightarrow> (string, json) result) \<Rightarrow> nat \<Rightarrow> nat \<Rightarrow> nat \<Rightarrow> chunk list \<Rightarrow> json list \<Rightarrow> tls_io \<Rightarrow>
     ((tls_io \<times> json list) \<times> (string, unit) result) option" where
  "pump_chunks dec max_frame cap drained [] out io = Some ((io\<lparr>io_plain := []\<rparr>, out), Inr ())"
| "pump_chunks dec max_frame cap drained (c # cs) out io =
     (if cap \<le> drained then Some ((io\<lparr>io_plain := c # cs\<rparr>, out), Inr ())
      else (case c of
              Broken e \<Rightarrow> Some ((io\<lparr>io_plain := cs\<rparr>, out), Inl e)
            | Data d \<Rightarrow>
                if d = [] then Some ((io\<lparr>io_plain := cs\<rparr>, out), Inr ())
                else (case feed_chunk dec max_frame d out io of
                        None \<Rightarrow> None
                      | Some ((io1, out1), Inl e) \<Rightarrow> Some ((io1\<lparr>io_plain := cs\<rparr>, out1), Inl e)
                      | Some ((io1, out1), Inr _) \<Rightarrow> pump_chunks dec max_frame cap (drained + length d) cs out1 io1)))"

datatype tls_round = TlsOk | TlsWouldBlock | TlsEof | TlsError string

record read_env =
  re_complete :: tls_round
  re_packets :: "string option"
  re_chunks :: "chunk list"

definition pump_reads ::
  "(string \<Rightarrow> (string, json) result) \<Rightarrow> nat \<Rightarrow> read_env \<Rightarrow> tls_io \<Rightarrow> (tls_io \<times> (string, json list) result) option" where
  "pump_reads dec max_frame env io =
     (case re_complete env of
        TlsError e \<Rightarrow> Some (io, Inl e)
      | round \<Rightarrow>
          (let io1 = (if round = TlsEof then io\<lparr>io_eof := True\<rparr> else io) in
           case re_packets env of
             Some e \<Rightarrow> Some (io1, Inl e)
           | None \<Rightarrow>
               (case pump_chunks dec max_frame (max (max_frame * 4) (2 ^ 20)) 0 (io_plain io1 @ re_chunks env) [] io1 of
                  None \<Rightarrow> None
                | Some ((io2, out), Inl e) \<Rightarrow> Some (io2, Inl e)
                | Some ((io2, out), Inr _) \<Rightarrow>
                    if io_eof io2 \<and> out = []
                    then Some (io2, Inl (if assembler_empty (io_assembler io2) then ''clean-eof'' else ''truncated frame''))
                    else Some (io2, Inr out))))"
subsection \<open>What the loops compute\<close>

lemma declared_length: "declared h \<noteq> None \<longleftrightarrow> length h = 4"
  by (auto simp: declared_def length_Suc_conv numeral_eq_Suc split: list.split)

lemma declared_None: "declared h = None \<longleftrightarrow> length h \<noteq> 4"
  using declared_length [of h] by blast

lemma declared_to_be_bytes: "declared (to_be_bytes w) = Some (unat w)"
  by (simp add: declared_def to_be_bytes_def be_bytes_roundtrip)

lemma feed_Nil [simp]: "feed mx [] a = Some (a, Inr [])"
  by (simp add: feed.simps)

lemma feed_body:
  assumes "as_pending a = Some n" "length (as_body a) \<le> n"
  shows "feed mx c a = Some (a\<lparr>as_body := as_body a @ take (n - length (as_body a)) c\<rparr>, Inr (drop (n - length (as_body a)) c))"
proof (cases "c = [] \<or> length (as_body a) = n")
  case True
  then show ?thesis using assms by (auto simp: feed.simps [of mx c] has_frame_def)
next
  case False
  let ?w = "n - length (as_body a)"
  let ?a = "a\<lparr>as_body := as_body a @ take (min ?w (length c)) c\<rparr>"
  have w: "?w \<noteq> 0" "\<not> has_frame a" using False assms by (auto simp: has_frame_def)
  have "feed mx c a = feed mx (drop (min ?w (length c)) c) ?a"
    using False assms w by (subst feed.simps) (simp add: Let_def)
  moreover have "feed mx (drop (min ?w (length c)) c) ?a = Some (?a, Inr (drop (min ?w (length c)) c))"
    using assms by (subst feed.simps) (auto simp: has_frame_def)
  ultimately show ?thesis by (simp add: min_def)
qed

lemma feed_header:
  assumes "as_pending a = None" "length (as_header a) < 4"
  shows "feed mx c a =
    (if length (as_header a) + length c < 4 then Some (a\<lparr>as_header := as_header a @ c\<rparr>, Inr [])
     else (let k = 4 - length (as_header a); h = as_header a @ take k c; len = the (declared h) in
           if len = 0 \<or> mx < len then Some (a\<lparr>as_header := h\<rparr>, Inl ())
           else Some (a\<lparr>as_header := h, as_pending := Some len, as_body := take len (drop k c)\<rparr>, Inr (drop len (drop k c)))))"
proof (cases "length (as_header a) + length c < 4")
  case True
  then have "declared (as_header a @ c) = None" by (simp add: declared_None)
  then show ?thesis using True assms by (subst feed.simps) (auto simp: Let_def min_def)
next
  case False
  let ?k = "4 - length (as_header a)" and ?h = "as_header a @ take (4 - length (as_header a)) c"
  have "length ?h = 4" using False assms(2) by simp
  then obtain len where len: "declared ?h = Some len" using declared_length [of ?h] by auto
  have k: "min ?k (length c) = ?k" "c \<noteq> []" using False assms by auto
  have "feed mx c a = (if len = 0 \<or> mx < len then Some (a\<lparr>as_header := ?h\<rparr>, Inl ())
           else feed mx (drop ?k c) (a\<lparr>as_header := ?h, as_pending := Some len, as_body := []\<rparr>))"
    using assms k len by (subst feed.simps) (simp add: Let_def)
  then show ?thesis using False len by (simp add: Let_def feed_body)
qed

text \<open>
  \<open>holds mx a b\<close>: the assembler has taken the bytes \<open>b\<close> of a frame and no complete frame is in it.
\<close>

definition holds :: "nat \<Rightarrow> assembler \<Rightarrow> string \<Rightarrow> bool" where
  "holds mx a b \<longleftrightarrow>
     (case as_pending a of
        None \<Rightarrow> as_header a = b \<and> length b < 4 \<and> as_body a = []
      | Some n \<Rightarrow> b = as_header a @ as_body a \<and> declared (as_header a) = Some n \<and> 0 < n \<and> n \<le> mx \<and> length (as_body a) < n)"

definition on_wire :: "string \<Rightarrow> string" where
  "on_wire p = to_be_bytes (of_nat (length p)) @ p"

text \<open>The payloads a peer may send: not empty, and within the frame limit.\<close>

definition sendable :: "nat \<Rightarrow> string \<Rightarrow> bool" where
  "sendable mx p \<longleftrightarrow> p \<noteq> [] \<and> length p \<le> mx \<and> length p < 2 ^ 32"

lemma length_to_be_bytes [simp]: "length (to_be_bytes w) = 4"
  by (simp add: to_be_bytes_def)

lemma declared_on_wire: "sendable mx p \<Longrightarrow> declared (take 4 (on_wire p @ r)) = Some (length p)"
  by (simp add: on_wire_def declared_to_be_bytes sendable_def unat_of_nat)

lemma holds_new [simp]: "holds mx assembler_new []"
  by (simp add: holds_def assembler_new_def)

lemma holds_no_frame: "holds mx a b \<Longrightarrow> \<not> has_frame a"
  by (auto simp: holds_def has_frame_def split: option.splits)

lemma holds_short:
  assumes "holds mx a b" "sendable mx p" "b @ x = on_wire p @ y"
  shows "length b < length (on_wire p)"
proof (cases "as_pending a")
  case None
  then show ?thesis using assms by (simp add: holds_def on_wire_def)
next
  case (Some n)
  then have b: "b = as_header a @ as_body a" "declared (as_header a) = Some n" "length (as_body a) < n"
    using assms(1) by (auto simp: holds_def)
  then have "length (as_header a) = 4" using declared_length [of "as_header a"] by simp
  then have "as_header a = take 4 (on_wire p @ y)" using arg_cong [OF assms(3), of "take 4"] b by simp
  then have "n = length p" using declared_on_wire [OF assms(2)] b by simp
  then show ?thesis using b \<open>length (as_header a) = 4\<close> by (simp add: on_wire_def)
qed

lemma feed_frame:
  assumes a: "holds mx a b" and p: "sendable mx p" and s: "b @ c @ x = on_wire p @ y"
  shows "length b + length c < length (on_wire p) \<Longrightarrow> \<exists>a'. feed mx c a = Some (a', Inr []) \<and> holds mx a' (b @ c)"
    and "length (on_wire p) \<le> length b + length c \<Longrightarrow>
      \<exists>a'. feed mx c a = Some (a', Inr (drop (length (on_wire p) - length b) c)) \<and> as_pending a' = Some (length p) \<and> as_body a' = p"
proof -
  have "(length b + length c < length (on_wire p) \<longrightarrow> (\<exists>a'. feed mx c a = Some (a', Inr []) \<and> holds mx a' (b @ c))) \<and>
    (length (on_wire p) \<le> length b + length c \<longrightarrow>
      (\<exists>a'. feed mx c a = Some (a', Inr (drop (length (on_wire p) - length b) c)) \<and> as_pending a' = Some (length p) \<and> as_body a' = p))"
  proof (cases "as_pending a")
    case None
    then have b: "as_header a = b" "length b < 4" "as_body a = []" using a by (auto simp: holds_def)
    show ?thesis
    proof (cases "length b + length c < 4")
      case True
      then show ?thesis using None b by (simp add: feed_header holds_def on_wire_def)
    next
      case False
      let ?k = "4 - length b"
      have h: "b @ take ?k c = take 4 (on_wire p @ y)" using False b arg_cong [OF s, of "take 4"] by simp
      have d: "drop ?k c @ x = p @ y" using False b arg_cong [OF s, of "drop 4"] by (simp add: on_wire_def)
      have len: "declared (b @ take ?k c) = Some (length p)" using declared_on_wire [OF p] h by simp
      have f: "feed mx c a = Some (a\<lparr>as_header := b @ take ?k c, as_pending := Some (length p), as_body := take (length p) (drop ?k c)\<rparr>,
          Inr (drop (length p) (drop ?k c)))"
        using feed_header [of a mx c] None b False len p by (simp add: Let_def sendable_def)
      have "length b + length c < length (on_wire p) \<longleftrightarrow> length (drop ?k c) < length p"
        using False b by (auto simp: on_wire_def)
      moreover have "take (length p) (drop ?k c) = p" if "length p \<le> length (drop ?k c)"
        using arg_cong [OF d, of "take (length p)"] that by simp
      moreover have "drop (length p) (drop ?k c) = drop (length (on_wire p) - length b) c"
        using b by (simp add: on_wire_def add.commute)
      ultimately show ?thesis
        using f len p False by (auto simp: holds_def sendable_def not_less)
    qed
  next
    case (Some n)
    then have b: "b = as_header a @ as_body a" "declared (as_header a) = Some n" "length (as_body a) < n" "0 < n" "n \<le> mx"
      using a by (auto simp: holds_def)
    then have h4: "length (as_header a) = 4" using declared_length [of "as_header a"] by simp
    then have "as_header a = take 4 (on_wire p @ y)" using arg_cong [OF s, of "take 4"] b by simp
    then have n: "n = length p" using declared_on_wire [OF p] b by simp
    have d: "as_body a @ c @ x = p @ y" using arg_cong [OF s, of "drop 4"] b h4 by (simp add: on_wire_def)
    let ?w = "n - length (as_body a)"
    have w: "?w = length (on_wire p) - length b" using b h4 n by (simp add: on_wire_def)
    have f: "feed mx c a = Some (a\<lparr>as_body := as_body a @ take ?w c\<rparr>, Inr (drop ?w c))"
      using feed_body [OF Some] b by simp
    have "as_body a @ take ?w c = p" if "?w \<le> length c"
      using arg_cong [OF d, of "take n"] that b n by simp
    moreover have "length b + length c < length (on_wire p) \<longleftrightarrow> length c < ?w"
      using b h4 n by (auto simp: on_wire_def)
    ultimately show ?thesis
      using f w n b Some by (auto simp: holds_def not_less)
  qed
  then show "length b + length c < length (on_wire p) \<Longrightarrow> \<exists>a'. feed mx c a = Some (a', Inr []) \<and> holds mx a' (b @ c)"
    and "length (on_wire p) \<le> length b + length c \<Longrightarrow>
      \<exists>a'. feed mx c a = Some (a', Inr (drop (length (on_wire p) - length b) c)) \<and> as_pending a' = Some (length p) \<and> as_body a' = p"
    by blast+
qed

definition decoded :: "(string \<Rightarrow> (string, json) result) \<Rightarrow> string list \<Rightarrow> json list" where
  "decoded dec ps = filter_map (\<lambda>p. case dec p of Inr v \<Rightarrow> Some v | Inl _ \<Rightarrow> None) ps"

definition undecoded :: "(string \<Rightarrow> (string, json) result) \<Rightarrow> string list \<Rightarrow> nat" where
  "undecoded dec ps = length (filter (\<lambda>p. \<exists>e. dec p = Inl e) ps)"

lemma decoded_simps [simp]: "decoded dec [] = []" "decoded dec (ps @ qs) = decoded dec ps @ decoded dec qs"
    "undecoded dec [] = 0" "undecoded dec (ps @ qs) = undecoded dec ps + undecoded dec qs"
  by (auto simp: decoded_def undecoded_def filter_map_def List.map_filter_def)

lemma take_frames_none: "\<not> has_frame (io_assembler io) \<Longrightarrow> take_frames dec took out io = ((io, out), Inr took)"
  by (subst take_frames.simps) (auto simp: take_frame_def split: option.split)

lemma take_frames_one:
  assumes "as_pending (io_assembler io) = Some (length p)" "as_body (io_assembler io) = p"
  shows "take_frames dec took out io =
     ((io\<lparr>io_assembler := assembler_new, io_malformed := io_malformed io + undecoded dec [p]\<rparr>, out @ decoded dec [p]), Inr True)"
proof -
  have t: "take_frame (io_assembler io) = (assembler_new, Inr (Some p))"
    using assms by (simp add: take_frame_def has_frame_def assembler_new_def)
  have e: "\<not> has_frame assembler_new"
    by (simp add: has_frame_def assembler_new_def)
  show ?thesis
  proof (cases "dec p")
    case (Inl e)
    then show ?thesis using t e
      by (subst take_frames.simps) (simp add: take_frames_none decoded_def undecoded_def filter_map_def List.map_filter_def)
  next
    case (Inr v)
    then show ?thesis using t e
      by (subst take_frames.simps) (simp add: take_frames_none decoded_def undecoded_def filter_map_def List.map_filter_def)
  qed
qed

text \<open>
  One chunk of a stream of frames: the frames that are complete are decoded in order, and
  the rest of the chunk is in the assembler.
\<close>

lemma feed_chunk_stream:
  assumes "holds mx (io_assembler io) b" "\<forall>p \<in> set ps. sendable mx p" "b @ c @ tail = concat (map on_wire ps)"
  shows "\<exists>now later a b'. ps = now @ later \<and> holds mx a b' \<and> b' @ tail = concat (map on_wire later) \<and>
     feed_chunk dec mx c out io =
       Some ((io\<lparr>io_assembler := a, io_malformed := io_malformed io + undecoded dec now\<rparr>, out @ decoded dec now), Inr ())"
  using assms
proof (induction "length c" arbitrary: c b ps out io rule: less_induct)
  case less
  show ?case
  proof (cases "c = []")
    case True
    then have "feed_chunk dec mx c out io = Some ((io, out), Inr ())"
      using holds_no_frame [OF less.prems(1)] by (subst feed_chunk.simps) (simp add: take_frames_none)
    then show ?thesis using True less.prems by (intro exI [of _ "[]"] exI [of _ ps] exI [of _ "io_assembler io"] exI [of _ b]) simp
  next
    case False
    then obtain p qs where ps: "ps = p # qs" using less.prems(3) by (cases ps) auto
    have p: "sendable mx p" and qs: "\<forall>p \<in> set qs. sendable mx p" using less.prems(2) ps by auto
    have s: "b @ c @ tail = on_wire p @ concat (map on_wire qs)" using less.prems(3) ps by simp
    note ff = feed_frame [OF less.prems(1) p s]
    show ?thesis
    proof (cases "length b + length c < length (on_wire p)")
      case True
      then obtain a where a: "feed mx c (io_assembler io) = Some (a, Inr [])" "holds mx a (b @ c)" using ff(1) by blast
      then have "feed_chunk dec mx c out io = Some ((io\<lparr>io_assembler := a\<rparr>, out), Inr ())"
        using holds_no_frame [OF a(2)] by (subst feed_chunk.simps) (simp add: take_frames_none)
      then show ?thesis using a less.prems(3)
        by (intro exI [of _ "[]"] exI [of _ ps] exI [of _ a] exI [of _ "b @ c"]) simp
    next
      case False
      let ?m = "length (on_wire p) - length b"
      obtain a where a: "feed mx c (io_assembler io) = Some (a, Inr (drop ?m c))" "as_pending a = Some (length p)" "as_body a = p"
        using ff(2) False by auto
      have m: "0 < ?m" "?m \<le> length c" using holds_short [OF less.prems(1) p s] False by auto
      have rest: "drop ?m c @ tail = concat (map on_wire qs)"
        using arg_cong [OF s, of "drop (length (on_wire p))"] m by simp
      let ?io = "io\<lparr>io_assembler := assembler_new, io_malformed := io_malformed io + undecoded dec [p]\<rparr>"
      let ?out = "out @ decoded dec [p]"
      have t: "take_frames dec False out (io\<lparr>io_assembler := a\<rparr>) = ((?io, ?out), Inr True)"
        using take_frames_one [of "io\<lparr>io_assembler := a\<rparr>" p] a by simp
      have fc: "feed_chunk dec mx c out io = (if drop ?m c = [] then Some ((?io, ?out), Inr ()) else feed_chunk dec mx (drop ?m c) ?out ?io)"
        using a(1) t by (subst feed_chunk.simps) simp
      show ?thesis
      proof (cases "drop ?m c = []")
        case True
        then show ?thesis using fc rest ps
          by (intro exI [of _ "[p]"] exI [of _ qs] exI [of _ assembler_new] exI [of _ "[]"]) simp
      next
        case False
        have l: "length (drop ?m c) < length c" using m False by simp
        have h: "holds mx (io_assembler ?io) []" by simp
        have r0: "[] @ drop ?m c @ tail = concat (map on_wire qs)" using rest by simp
        obtain now later a' b' where r: "qs = now @ later" "holds mx a' b'" "b' @ tail = concat (map on_wire later)"
          "feed_chunk dec mx (drop ?m c) ?out ?io =
             Some ((?io\<lparr>io_assembler := a', io_malformed := io_malformed ?io + undecoded dec now\<rparr>, ?out @ decoded dec now), Inr ())"
          using less.hyps [OF l h qs r0, of ?out] by blast
        then show ?thesis using fc False ps
          by (intro exI [of _ "[p] @ now"] exI [of _ later] exI [of _ a'] exI [of _ b']) (simp only: decoded_simps, simp add: add.assoc)
      qed
    qed
  qed
qed
lemma stream_bytes_simps [simp]: "stream_bytes [] = []" "stream_bytes (Data d # cs) = d @ stream_bytes cs"
    "stream_bytes (cs @ ds) = stream_bytes cs @ stream_bytes ds"
  by (simp_all add: stream_bytes_def)

lemma pump_chunks_stream:
  assumes "in_order cs" "holds mx (io_assembler io) b" "\<forall>p \<in> set ps. sendable mx p"
    "b @ stream_bytes cs @ tail = concat (map on_wire ps)"
  shows "\<exists>now later a b' cs'. ps = now @ later \<and> in_order cs' \<and> holds mx a b' \<and>
     b' @ stream_bytes cs' @ tail = concat (map on_wire later) \<and>
     pump_chunks dec mx cap drained cs out io =
       Some ((io\<lparr>io_plain := cs', io_assembler := a, io_malformed := io_malformed io + undecoded dec now\<rparr>, out @ decoded dec now), Inr ())"
  using assms
proof (induction cs arbitrary: drained io b ps out)
  case Nil
  then show ?case
    by (intro exI [of _ "[]"] exI [of _ ps] exI [of _ "io_assembler io"] exI [of _ b]) simp
next
  case (Cons c cs)
  obtain d where c: "c = Data d" "d \<noteq> []" "in_order cs" using Cons.prems(1) by (auto simp: in_order_def)
  show ?case
  proof (cases "cap \<le> drained")
    case True
    then show ?thesis using Cons.prems
      by (intro exI [of _ "[]"] exI [of _ ps] exI [of _ "io_assembler io"] exI [of _ b] exI [of _ "c # cs"]) simp
  next
    case False
    have s: "b @ d @ (stream_bytes cs @ tail) = concat (map on_wire ps)" using Cons.prems(4) c by simp
    obtain now later a b' where f: "ps = now @ later" "holds mx a b'" "b' @ stream_bytes cs @ tail = concat (map on_wire later)"
      "feed_chunk dec mx d out io =
         Some ((io\<lparr>io_assembler := a, io_malformed := io_malformed io + undecoded dec now\<rparr>, out @ decoded dec now), Inr ())"
      using feed_chunk_stream [OF Cons.prems(2,3) s, of dec out] by blast
    let ?io = "io\<lparr>io_assembler := a, io_malformed := io_malformed io + undecoded dec now\<rparr>"
    have l: "\<forall>p \<in> set later. sendable mx p" using Cons.prems(3) f(1) by simp
    have h: "holds mx (io_assembler ?io) b'" using f(2) by simp
    obtain now' later' a' b'' cs' where r: "later = now' @ later'" "in_order cs'" "holds mx a' b''"
      "b'' @ stream_bytes cs' @ tail = concat (map on_wire later')"
      "pump_chunks dec mx cap (drained + length d) cs (out @ decoded dec now) ?io =
       Some ((?io\<lparr>io_plain := cs', io_assembler := a', io_malformed := io_malformed ?io + undecoded dec now'\<rparr>,
         (out @ decoded dec now) @ decoded dec now'), Inr ())"
      using Cons.IH [OF c(3) h l f(3), of "drained + length d" "out @ decoded dec now"] by blast
    have "pump_chunks dec mx cap drained (c # cs) out io = pump_chunks dec mx cap (drained + length d) cs (out @ decoded dec now) ?io"
      using False c f(4) by simp
    then show ?thesis using r f(1)
      by (intro exI [of _ "now @ now'"] exI [of _ later'] exI [of _ a'] exI [of _ b''] exI [of _ cs']) (simp add: add.assoc)
  qed
qed

text \<open>Rounds of reading on a connection that neither fails nor ends.\<close>

fun pump_rounds ::
  "(string \<Rightarrow> (string, json) result) \<Rightarrow> nat \<Rightarrow> read_env list \<Rightarrow> tls_io \<Rightarrow> (tls_io \<times> (string, json list) result) option" where
  "pump_rounds dec max_frame [] io = Some (io, Inr [])"
| "pump_rounds dec max_frame (e # es) io =
     (case pump_reads dec max_frame e io of
        None \<Rightarrow> None
      | Some (io1, Inl err) \<Rightarrow> Some (io1, Inl err)
      | Some (io1, Inr vs) \<Rightarrow>
          (case pump_rounds dec max_frame es io1 of
             None \<Rightarrow> None
           | Some (io2, Inl err) \<Rightarrow> Some (io2, Inl err)
           | Some (io2, Inr ws) \<Rightarrow> Some (io2, Inr (vs @ ws))))"

definition flowing :: "read_env \<Rightarrow> bool" where
  "flowing e \<longleftrightarrow> (re_complete e = TlsOk \<or> re_complete e = TlsWouldBlock) \<and> re_packets e = None \<and> in_order (re_chunks e)"

definition delivered :: "read_env list \<Rightarrow> string" where
  "delivered es = stream_bytes (concat (map re_chunks es))"

lemma delivered_simps [simp]: "delivered [] = []" "delivered (e # es) = stream_bytes (re_chunks e) @ delivered es"
  by (simp_all add: delivered_def)

lemma in_order_append [simp]: "in_order (cs @ ds) \<longleftrightarrow> in_order cs \<and> in_order ds"
  by (auto simp: in_order_def)

lemma pump_reads_flowing:
  assumes "flowing e" "\<not> io_eof io"
  shows "pump_reads dec mx e io =
     (case pump_chunks dec mx (max (mx * 4) (2 ^ 20)) 0 (io_plain io @ re_chunks e) [] io of
        None \<Rightarrow> None
      | Some ((io2, out), Inl e) \<Rightarrow> Some (io2, Inl e)
      | Some ((io2, out), Inr _) \<Rightarrow>
          if io_eof io2 \<and> out = []
          then Some (io2, Inl (if assembler_empty (io_assembler io2) then ''clean-eof'' else ''truncated frame''))
          else Some (io2, Inr out))"
  using assms unfolding flowing_def pump_reads_def by (elim conjE disjE) (simp_all add: Let_def)

lemma pump_rounds_stream:
  assumes "\<forall>e \<in> set es. flowing e" "\<not> io_eof io" "in_order (io_plain io)" "holds mx (io_assembler io) b"
    "\<forall>p \<in> set ps. sendable mx p" "b @ stream_bytes (io_plain io) @ delivered es @ tail = concat (map on_wire ps)"
  shows "\<exists>now later a b' cs. ps = now @ later \<and> in_order cs \<and> holds mx a b' \<and>
     b' @ stream_bytes cs @ tail = concat (map on_wire later) \<and>
     pump_rounds dec mx es io =
       Some (io\<lparr>io_plain := cs, io_assembler := a, io_malformed := io_malformed io + undecoded dec now\<rparr>, Inr (decoded dec now))"
  using assms
proof (induction es arbitrary: io b ps)
  case Nil
  then show ?case
    by (intro exI [of _ "[]"] exI [of _ ps] exI [of _ "io_assembler io"] exI [of _ b] exI [of _ "io_plain io"]) simp
next
  case (Cons e es)
  have i: "in_order (io_plain io @ re_chunks e)" using Cons.prems(1,3) by (simp add: flowing_def)
  have s: "b @ stream_bytes (io_plain io @ re_chunks e) @ (delivered es @ tail) = concat (map on_wire ps)"
    using Cons.prems(6) by simp
  obtain now later a b' cs where f: "ps = now @ later" "in_order cs" "holds mx a b'"
    "b' @ stream_bytes cs @ delivered es @ tail = concat (map on_wire later)"
    "pump_chunks dec mx (max (mx * 4) (2 ^ 20)) 0 (io_plain io @ re_chunks e) [] io =
       Some ((io\<lparr>io_plain := cs, io_assembler := a, io_malformed := io_malformed io + undecoded dec now\<rparr>, [] @ decoded dec now), Inr ())"
    using pump_chunks_stream [OF i Cons.prems(4,5) s, of dec "max (mx * 4) (2 ^ 20)" 0 "[]"] by blast
  let ?io = "io\<lparr>io_plain := cs, io_assembler := a, io_malformed := io_malformed io + undecoded dec now\<rparr>"
  have p: "pump_reads dec mx e io = Some (?io, Inr (decoded dec now))"
    using f(5) Cons.prems(1,2) by (simp add: pump_reads_flowing)
  have pre: "\<forall>e \<in> set es. flowing e" "\<not> io_eof ?io" "in_order (io_plain ?io)" "holds mx (io_assembler ?io) b'"
    "\<forall>p \<in> set later. sendable mx p" "b' @ stream_bytes (io_plain ?io) @ delivered es @ tail = concat (map on_wire later)"
    using Cons.prems f by simp_all
  obtain now' later' a' b'' cs' where r: "later = now' @ later'" "in_order cs'" "holds mx a' b''"
    "b'' @ stream_bytes cs' @ tail = concat (map on_wire later')"
    "pump_rounds dec mx es ?io = Some (?io\<lparr>io_plain := cs', io_assembler := a', io_malformed := io_malformed ?io + undecoded dec now'\<rparr>,
       Inr (decoded dec now'))"
    using Cons.IH [OF pre] by blast
  have "pump_rounds dec mx (e # es) io = Some (?io\<lparr>io_plain := cs', io_assembler := a', io_malformed := io_malformed ?io + undecoded dec now'\<rparr>,
       Inr (decoded dec now @ decoded dec now'))"
    using p r(5) by simp
  then show ?case using r f(1)
    by (intro exI [of _ "now @ now'"] exI [of _ later'] exI [of _ a'] exI [of _ b''] exI [of _ cs']) (simp add: add.assoc)
qed

text \<open>C15. A session reads every frame of its peer, once and in order, however the transport cuts
  the stream into chunks and rounds: when the peer has sent the frames of a list of payloads
  and the connection has delivered any part of them, the rounds of reading answer the
  documents of an initial part of the payloads, count the payloads that are no documents,
  and never poison the connection. Once the reader is drained, only a frame that was not
  delivered whole is left.\<close>

theorem session_reads_stream:
  assumes "\<forall>p \<in> set ps. sendable mx p" "\<forall>e \<in> set es. flowing e" "delivered es @ tail = concat (map on_wire ps)"
  shows "\<exists>io now later. pump_rounds dec mx es tls_io_new = Some (io, Inr (decoded dec now)) \<and> ps = now @ later \<and>
     io_malformed io = undecoded dec now \<and> \<not> io_poisoned io \<and>
     (io_plain io = [] \<longrightarrow> (\<forall>p qs. later = p # qs \<longrightarrow> length (delivered es) < length (concat (map on_wire (now @ [p])))))"
proof -
  have pre: "\<not> io_eof tls_io_new" "in_order (io_plain tls_io_new)" "holds mx (io_assembler tls_io_new) []"
    "[] @ stream_bytes (io_plain tls_io_new) @ delivered es @ tail = concat (map on_wire ps)"
    using assms(3) by (simp_all add: tls_io_new_def in_order_def)
  obtain now later a b cs where r: "ps = now @ later" "holds mx a b" "b @ stream_bytes cs @ tail = concat (map on_wire later)"
    "pump_rounds dec mx es tls_io_new = Some (tls_io_new\<lparr>io_plain := cs, io_assembler := a,
       io_malformed := io_malformed tls_io_new + undecoded dec now\<rparr>, Inr (decoded dec now))"
    using pump_rounds_stream [OF assms(2) pre(1,2,3) assms(1) pre(4), of dec] by blast
  have "length (delivered es) < length (concat (map on_wire (now @ [p])))" if "cs = []" "later = p # qs" for p qs
  proof -
    have "b @ tail = on_wire p @ concat (map on_wire qs)" using r(3) that by simp
    moreover have "sendable mx p" using assms(1) r(1) that by simp
    ultimately have "length b < length (on_wire p)" using holds_short [OF r(2)] by blast
    moreover have "delivered es @ tail = concat (map on_wire now) @ b @ tail" using assms(3) r(1,3) that by simp
    then have "delivered es = concat (map on_wire now) @ b" by simp
    ultimately show ?thesis by simp
  qed
  then show ?thesis using r(1,4)
    by (intro exI [of _ "tls_io_new\<lparr>io_plain := cs, io_assembler := a, io_malformed := undecoded dec now\<rparr>"]
        exI [of _ now] exI [of _ later]) (simp add: tls_io_new_def)
qed

text \<open>Two frames cut inside a header and inside a body; the second one is no document.\<close>

theorem session_reads_stream_witness:
  "\<exists>io now later. pump_rounds (\<lambda>p. if p = ''{}'' then Inr (JObj []) else Inl ''bad'') 16
       [\<lparr>re_complete = TlsOk, re_packets = None, re_chunks = [Data (take 3 (on_wire ''{}''))]\<rparr>,
        \<lparr>re_complete = TlsWouldBlock, re_packets = None, re_chunks = [Data (drop 3 (on_wire ''{}'') @ take 5 (on_wire ''x'')), Data (on_wire ''{}'')]\<rparr>]
       tls_io_new = Some (io, Inr (decoded (\<lambda>p. if p = ''{}'' then Inr (JObj []) else Inl ''bad'') now)) \<and>
     [''{}'', ''x'', ''{}''] = now @ later"
proof -
  let ?dec = "\<lambda>p. if p = ''{}'' then Inr (JObj []) else Inl ''bad''"
  let ?es = "[\<lparr>re_complete = TlsOk, re_packets = None, re_chunks = [Data (take 3 (on_wire ''{}''))]\<rparr>,
        \<lparr>re_complete = TlsWouldBlock, re_packets = None, re_chunks = [Data (drop 3 (on_wire ''{}'') @ take 5 (on_wire ''x'')), Data (on_wire ''{}'')]\<rparr>]"
  have "\<forall>p \<in> set [''{}'', ''x'', ''{}'']. sendable 16 p" by (simp add: sendable_def)
  moreover have "\<forall>e \<in> set ?es. flowing e" by (simp add: flowing_def in_order_def on_wire_def to_be_bytes_def)
  moreover have "delivered ?es @ [] = concat (map on_wire [''{}'', ''x'', ''{}''])"
    by (simp add: on_wire_def to_be_bytes_def)
  ultimately show ?thesis using session_reads_stream [of "[''{}'', ''x'', ''{}'']" 16 ?es "[]" ?dec] by blast
qed
subsection \<open>Reading always returns\<close>

text \<open>
  Whatever the peer sends, a chunk is consumed: the loops return, the assembler is between frames or
  inside one, and the only failure is a length outside the limit. The stall and the drift that the code guards against
  do not occur.
\<close>

definition between :: "nat \<Rightarrow> assembler \<Rightarrow> bool" where
  "between mx a \<longleftrightarrow> (\<exists>b. holds mx a b)"

lemma between_new [simp]: "between mx assembler_new"
  unfolding between_def by (rule exI [of _ "[]"]) simp

lemma between_no_frame: "between mx a \<Longrightarrow> \<not> has_frame a"
  by (auto simp: between_def dest: holds_no_frame)

lemma feed_total:
  assumes "between mx a"
  shows "(\<exists>a'. feed mx c a = Some (a', Inl ())) \<or>
     (\<exists>a' r. feed mx c a = Some (a', Inr r) \<and> (between mx a' \<and> r = [] \<or>
        as_pending a' = Some (length (as_body a')) \<and> length r < length c))"
proof (cases "as_pending a")
  case None
  then obtain b where b: "as_header a = b" "length b < 4" "as_body a = []" using assms by (auto simp: between_def holds_def)
  show ?thesis
  proof (cases "length b + length c < 4")
    case True
    then have "holds mx (a\<lparr>as_header := b @ c\<rparr>) (b @ c)" using None b by (simp add: holds_def)
    then show ?thesis using True None b by (auto simp: feed_header between_def)
  next
    case False
    let ?k = "4 - length b"
    let ?h = "b @ take ?k c"
    have "length ?h = 4" using False b by simp
    then obtain len where len: "declared ?h = Some len" using declared_length [of ?h] by auto
    show ?thesis
    proof (cases "len = 0 \<or> mx < len")
      case True
      then show ?thesis using feed_header [of a mx c] None b False len by (simp add: Let_def)
    next
      case ok: False
      let ?a = "a\<lparr>as_header := ?h, as_pending := Some len, as_body := take len (drop ?k c)\<rparr>"
      have f: "feed mx c a = Some (?a, Inr (drop len (drop ?k c)))"
        using feed_header [of a mx c] None b False len ok by (simp add: Let_def)
      show ?thesis
      proof (cases "length (drop ?k c) < len")
        case True
        then have "holds mx ?a (?h @ drop ?k c)" using len ok by (simp add: holds_def)
        then show ?thesis using f True by (auto simp: between_def)
      next
        case full: False
        then have "as_pending ?a = Some (length (as_body ?a))" by simp
        moreover have "length (drop len (drop ?k c)) < length c" using full False b ok by auto
        ultimately show ?thesis using f by blast
      qed
    qed
  qed
next
  case (Some n)
  then have b: "declared (as_header a) = Some n" "0 < n" "n \<le> mx" "length (as_body a) < n" using assms by (auto simp: between_def holds_def)
  let ?w = "n - length (as_body a)"
  let ?a = "a\<lparr>as_body := as_body a @ take ?w c\<rparr>"
  have f: "feed mx c a = Some (?a, Inr (drop ?w c))" using feed_body Some b by simp
  show ?thesis
  proof (cases "length c < ?w")
    case True
    then have "holds mx ?a (as_header a @ as_body a @ c)" using Some b by (simp add: holds_def)
    then show ?thesis using f True by (auto simp: between_def)
  next
    case False
    then have "as_pending ?a = Some (length (as_body ?a))" "length (drop ?w c) < length c" using Some b by auto
    then show ?thesis using f by blast
  qed
qed

lemma feed_chunk_total:
  assumes "between mx (io_assembler io)"
  shows "\<exists>io' out' r. feed_chunk dec mx c out io = Some ((io', out'), r) \<and> io_eof io' = io_eof io \<and> io_stash io' = io_stash io \<and>
     (r = Inr () \<and> between mx (io_assembler io') \<and> io_poisoned io' = io_poisoned io \<or> r = Inl ''frame too large'' \<and> io_poisoned io')"
  using assms
proof (induction "length c" arbitrary: c out io rule: less_induct)
  case less
  consider a where "feed mx c (io_assembler io) = Some (a, Inl ())"
    | a where "feed mx c (io_assembler io) = Some (a, Inr [])" "between mx a"
    | a r where "feed mx c (io_assembler io) = Some (a, Inr r)" "as_pending a = Some (length (as_body a))" "length r < length c"
    using feed_total [OF less.prems, of c] by blast
  then show ?case
  proof cases
    case (1 a)
    then show ?thesis by (subst feed_chunk.simps) (simp add: poison_def)
  next
    case (2 a)
    then show ?thesis by (subst feed_chunk.simps) (simp add: take_frames_none between_no_frame)
  next
    case (3 a r)
    let ?io = "io\<lparr>io_assembler := assembler_new, io_malformed := io_malformed io + undecoded dec [as_body a]\<rparr>"
    let ?out = "out @ decoded dec [as_body a]"
    have t: "take_frames dec False out (io\<lparr>io_assembler := a\<rparr>) = ((?io, ?out), Inr True)"
      using take_frames_one [of "io\<lparr>io_assembler := a\<rparr>" "as_body a"] 3 by simp
    have fc: "feed_chunk dec mx c out io = (if r = [] then Some ((?io, ?out), Inr ()) else feed_chunk dec mx r ?out ?io)"
      using 3(1) t by (subst feed_chunk.simps) simp
    show ?thesis
    proof (cases "r = []")
      case True
      then show ?thesis using fc by simp
    next
      case False
      have b: "between mx (io_assembler ?io)" by simp
      show ?thesis using less.hyps [OF 3(3) b, of ?out] fc False by simp
    qed
  qed
qed

lemma pump_chunks_total:
  assumes "between mx (io_assembler io)"
  shows "\<exists>io' out' r. pump_chunks dec mx cap drained cs out io = Some ((io', out'), r) \<and> io_eof io' = io_eof io \<and> io_stash io' = io_stash io \<and>
     (r = Inr () \<and> between mx (io_assembler io') \<and> io_poisoned io' = io_poisoned io \<or> (\<exists>e. r = Inl e))"
  using assms
proof (induction cs arbitrary: drained out io)
  case Nil
  then show ?case by simp
next
  case (Cons c cs)
  show ?case
  proof (cases c)
    case (Broken e)
    then show ?thesis using Cons.prems by simp
  next
    case (Data d)
    obtain io' out' r where f: "feed_chunk dec mx d out io = Some ((io', out'), r)" "io_eof io' = io_eof io \<and> io_stash io' = io_stash io"
      "r = Inr () \<and> between mx (io_assembler io') \<and> io_poisoned io' = io_poisoned io \<or> r = Inl ''frame too large'' \<and> io_poisoned io'"
      using feed_chunk_total [OF Cons.prems] by blast
    show ?thesis
    proof (cases r)
      case (Inl e)
      then show ?thesis using f Data Cons.prems by simp
    next
      case (Inr u)
      then have b: "between mx (io_assembler io')" "io_poisoned io' = io_poisoned io" using f(3) by auto
      show ?thesis using f(1,2) Data Inr b Cons.prems Cons.IH [OF b(1), of "drained + length d" out'] by simp
    qed
  qed
qed

lemma pump_reads_total:
  assumes "between mx (io_assembler io)"
  shows "\<exists>io' r. pump_reads dec mx e io = Some (io', r) \<and> io_stash io' = io_stash io \<and> (\<forall>vs. r = Inr vs \<longrightarrow> between mx (io_assembler io') \<and> io_poisoned io' = io_poisoned io)"
proof -
  let ?io1 = "if re_complete e = TlsEof then io\<lparr>io_eof := True\<rparr> else io"
  have b: "between mx (io_assembler ?io1)" "io_poisoned ?io1 = io_poisoned io" "io_stash ?io1 = io_stash io" using assms by simp_all
  obtain io' out' r where f: "pump_chunks dec mx (max (mx * 4) (2 ^ 20)) 0 (io_plain ?io1 @ re_chunks e) [] ?io1 = Some ((io', out'), r)"
    "io_stash io' = io_stash ?io1"
    "r = Inr () \<and> between mx (io_assembler io') \<and> io_poisoned io' = io_poisoned ?io1 \<or> (\<exists>e. r = Inl e)"
    using pump_chunks_total [OF b(1), of dec "max (mx * 4) (2 ^ 20)" 0 "io_plain ?io1 @ re_chunks e" "[]"] by blast
  show ?thesis
  proof (cases "(\<exists>x. re_complete e = TlsError x) \<or> re_packets e \<noteq> None")
    case True
    then show ?thesis using b assms by (cases "re_complete e") (auto simp: pump_reads_def Let_def split: option.splits)
  next
    case False
    then have "pump_reads dec mx e io = (case r of Inl e \<Rightarrow> Some (io', Inl e) | Inr _ \<Rightarrow>
        if io_eof io' \<and> out' = [] then Some (io', Inl (if assembler_empty (io_assembler io') then ''clean-eof'' else ''truncated frame''))
        else Some (io', Inr out'))"
      using f(1) by (cases "re_complete e") (simp_all add: pump_reads_def Let_def)
    then show ?thesis using f(2,3) b(2,3) by (cases r) auto
  qed
qed

end
