(* ===== verification/Mx_Session.thy ===== *)
theory Mx_Session
  imports Mx_Reader Mx_Store "HOL-Library.Multiset"
begin

text \<open>
  Remote sessions (matrix-runtime/src/session.rs): the handshake, the handle that the callers
  share, and the engine thread that owns the connection. The engine is a state machine over
  its program counter; callers and the engine interleave at the locks and channels of the code, so
  a step is one critical section. A reply channel is a number, the next one is \<open>ss_channels\<close>; what
  was sent on the channels is kept in \<open>ss_answers\<close>, the frames flushed in \<open>ss_wire\<close>. Readings of the clock, random identities and the answers of the TLS library are
  arguments of the steps.
\<close>

declare map_of_eq_Some_iff [simp del] Some_eq_map_of_iff [simp del]

subsection \<open>Limits, commands and state\<close>

record session_limits =
  sl_max_frame :: nat
  sl_control_queue :: nat
  sl_data_queue :: nat
  sl_commands :: nat
  sl_max_pending :: nat
  sl_frame_budget :: nat
  sl_handshake_budget :: nat
  sl_heartbeat_interval :: nat
  sl_suspect_after :: nat
  sl_detach_after :: nat

definition session_limits_default :: session_limits where
  "session_limits_default =
     \<lparr>sl_max_frame = DEFAULT_MAX_FRAME, sl_control_queue = 128, sl_data_queue = 64, sl_commands = 256, sl_max_pending = 256,
      sl_frame_budget = 5 * 10 ^ 9, sl_handshake_budget = 10 * 10 ^ 9, sl_heartbeat_interval = 10 ^ 9,
      sl_suspect_after = 5 * 10 ^ 9, sl_detach_after = 15 * 10 ^ 9\<rparr>"

datatype session_state = Connected | Suspect | Detached

datatype session_command = CmdControl string | CmdData string | CmdRequest string string nat

record queued_frame =
  qf_bytes :: string
  qf_deadline :: nat

record session =
  ss_commands :: "session_command list"
  ss_replies :: "(string, nat \<times> nat) hmap"
  ss_multi :: "(string, nat) hmap"
  ss_handler :: bool
  ss_state :: session_state
  ss_last_inbound :: nat
  ss_late :: nat
  ss_refused_control :: nat
  ss_refused_data :: nat
  ss_shutdown :: bool
  ss_session_id :: string
  ss_peer :: string
  ss_io :: tls_io
  ss_control_q :: "queued_frame list"
  ss_data_q :: "queued_frame list"
  ss_pending :: "(string, nat \<times> nat) hmap"
  ss_last_heartbeat :: nat
  ss_wire :: "string list"
  ss_answers :: "(nat \<times> (string, json) result) list"
  ss_streamed :: "(nat \<times> json) list"
  ss_handled :: "json list"
  ss_channels :: nat

definition encode_frame :: "codec \<Rightarrow> json \<Rightarrow> nat \<Rightarrow> (string, string) result" where
  "encode_frame cd env max_frame = (case encode (cd_text cd env) max_frame of Inl e \<Rightarrow> Inl (show_frame_error e) | Inr f \<Rightarrow> Inr f)"

text \<open>\<open>token\<close> is what \<open>random_token\<close> answers.\<close>

definition fresh_id :: "(string, string) result \<Rightarrow> string \<Rightarrow> string" where
  "fresh_id token prefix = prefix @ ''-'' @ (case token of Inl _ \<Rightarrow> ''x'' | Inr t \<Rightarrow> take 12 t)"

definition spawn :: "tls_io \<Rightarrow> string \<Rightarrow> string \<Rightarrow> nat \<Rightarrow> session" where
  "spawn io sid peer now =
     \<lparr>ss_commands = [], ss_replies = [], ss_multi = [], ss_handler = False, ss_state = Connected, ss_last_inbound = now,
      ss_late = 0, ss_refused_control = 0, ss_refused_data = 0, ss_shutdown = False,
      ss_session_id = sid, ss_peer = peer, ss_io = io, ss_control_q = [], ss_data_q = [], ss_pending = [],
      ss_last_heartbeat = now, ss_wire = [], ss_answers = [], ss_streamed = [], ss_handled = [], ss_channels = 0\<rparr>"

subsection \<open>The handle\<close>

definition admissible :: "session \<Rightarrow> bool" where
  "admissible s \<longleftrightarrow> ss_state s = Connected \<and> \<not> ss_shutdown s"

definition set_handler :: "session \<Rightarrow> session" where
  "set_handler s = s\<lparr>ss_handler := True\<rparr>"

text \<open>\<open>try_send\<close> on the bounded command channel refuses when it is full.\<close>

definition send_cmd :: "session_limits \<Rightarrow> session_command \<Rightarrow> string \<Rightarrow> session \<Rightarrow> session \<times> (string, unit) result" where
  "send_cmd l cmd refused s =
     (if ss_shutdown s \<or> ss_state s = Detached then (s, Inl ''session detached'')
      else if sl_commands l \<le> length (ss_commands s) then (s, Inl refused)
      else (s\<lparr>ss_commands := ss_commands s @ [cmd]\<rparr>, Inr ()))"

definition send_control :: "session_limits \<Rightarrow> codec \<Rightarrow> json \<Rightarrow> session \<Rightarrow> session \<times> (string, unit) result" where
  "send_control l cd env s =
     (case encode_frame cd env DEFAULT_MAX_FRAME of
        Inl e \<Rightarrow> (s, Inl e)
      | Inr frame \<Rightarrow>
          (case send_cmd l (CmdControl frame) ''resource-exhausted'' s of
             (s', Inl e) \<Rightarrow>
               (if e = ''resource-exhausted'' then s'\<lparr>ss_refused_control := ss_refused_control s' + 1\<rparr> else s', Inl e)
           | ok \<Rightarrow> ok))"

definition send_data :: "session_limits \<Rightarrow> codec \<Rightarrow> json \<Rightarrow> session \<Rightarrow> session \<times> (string, unit) result" where
  "send_data l cd env s =
     (case encode_frame cd env DEFAULT_MAX_FRAME of
        Inl e \<Rightarrow> (s, Inl e)
      | Inr frame \<Rightarrow>
          (case send_cmd l (CmdData frame) ''resource-exhausted'' s of
             (s', Inl e) \<Rightarrow>
               (if e = ''resource-exhausted'' then s'\<lparr>ss_refused_data := ss_refused_data s' + 1\<rparr> else s', Inl e)
           | ok \<Rightarrow> ok))"

text \<open>The parts of \<open>request\<close>: the reply channel and its registration, the command, and one turn of the wait.\<close>

definition request_register :: "session_limits \<Rightarrow> json \<Rightarrow> nat \<Rightarrow> nat \<Rightarrow> session \<Rightarrow> session \<times> (string, string \<times> nat) result" where
  "request_register l env timeout now s =
     (case get_str env ''request_id'' of
        None \<Rightarrow> (s, Inl ''request needs request_id'')
      | Some rid \<Rightarrow>
          (let tx = ss_channels s; s1 = s\<lparr>ss_channels := Suc tx\<rparr> in
           if sl_max_pending l \<le> length (ss_replies s1) then (s1, Inl ''resource-exhausted'')
           else if hm_contains (ss_replies s1) rid then (s1, Inl ''duplicate-request'')
           else (s1\<lparr>ss_replies := hm_insert rid (tx, now + timeout) (ss_replies s1)\<rparr>, Inr (rid, tx))))"

definition request_enqueue :: "session_limits \<Rightarrow> codec \<Rightarrow> json \<Rightarrow> nat \<Rightarrow> string \<Rightarrow> session \<Rightarrow> session \<times> (string, unit) result" where
  "request_enqueue l cd env timeout rid s =
     (case encode_frame cd env DEFAULT_MAX_FRAME of
        Inl e \<Rightarrow> (s, Inl e)
      | Inr frame \<Rightarrow>
          (case send_cmd l (CmdRequest rid frame timeout) ''resource-exhausted'' s of
             (s', Inl e) \<Rightarrow>
               (s'\<lparr>ss_replies := hm_remove rid (ss_replies s'), ss_refused_control := ss_refused_control s' + 1\<rparr>,
                Inl ''resource-exhausted'')
           | ok \<Rightarrow> ok))"

text \<open>What \<open>recv_timeout\<close> finds: a message, a channel whose sender is gone, or nothing for a quantum.\<close>

definition received :: "nat \<Rightarrow> session \<Rightarrow> (string, json) result option" where
  "received tx s = map_of (ss_answers s) tx"

definition senders :: "session \<Rightarrow> nat list" where
  "senders s = map fst (hm_values (ss_replies s)) @ map fst (hm_values (ss_pending s))"

datatype wait_turn = Waiting nat | Returned "(string, json) result"

definition request_turn :: "bool \<Rightarrow> nat \<Rightarrow> nat \<Rightarrow> string \<Rightarrow> nat \<Rightarrow> session \<Rightarrow> session \<times> wait_turn" where
  "request_turn cancelled timeout waited rid tx s =
     (let drop_slot = s\<lparr>ss_replies := hm_remove rid (ss_replies s)\<rparr>;
          quantum = min (timeout - waited) (min (5 * 10 ^ 6) timeout) in
      if cancelled then (drop_slot, Returned (Inl ''cancelled''))
      else (case received tx s of
              Some r \<Rightarrow> (s, Returned r)
            | None \<Rightarrow>
                if tx \<notin> set (senders s) then (drop_slot, Returned (Inl ''outcome-unknown''))
                else if timeout \<le> waited + quantum then (drop_slot, Returned (Inl ''outcome-unknown''))
                else (s, Waiting (waited + quantum))))"

definition subscribe_answers :: "session_limits \<Rightarrow> string \<Rightarrow> nat \<Rightarrow> session \<Rightarrow> session \<times> (string, unit) result" where
  "subscribe_answers l rid tx s =
     (if sl_max_pending l \<le> length (ss_multi s) then (s, Inl ''resource-exhausted'')
      else if hm_contains (ss_multi s) rid then (s, Inl ''duplicate-request'')
      else (s\<lparr>ss_multi := hm_insert rid tx (ss_multi s)\<rparr>, Inr ()))"

definition unsubscribe_answers :: "string \<Rightarrow> session \<Rightarrow> session" where
  "unsubscribe_answers rid s = s\<lparr>ss_multi := hm_remove rid (ss_multi s)\<rparr>"

definition show_session_state :: "session_state \<Rightarrow> string" where
  "show_session_state st = (case st of Connected \<Rightarrow> ''Connected'' | Suspect \<Rightarrow> ''Suspect'' | Detached \<Rightarrow> ''Detached'')"

definition session_inspect :: "session \<Rightarrow> json" where
  "session_inspect s =
     JObj [(''session_id'', JStr (ss_session_id s)), (''state'', JStr (show_session_state (ss_state s))),
           (''peer'', JStr (ss_peer s)), (''dropped_malformed'', j_nat (io_malformed (ss_io s))),
           (''dropped_late'', j_nat (ss_late s)), (''refused_control'', j_nat (ss_refused_control s)),
           (''refused_data'', j_nat (ss_refused_data s))]"

definition session_shutdown :: "session \<Rightarrow> session" where
  "session_shutdown s = s\<lparr>ss_shutdown := True\<rparr>"

subsection \<open>The engine\<close>

definition set_state :: "session_state \<Rightarrow> session \<Rightarrow> session" where
  "set_state st s = (if ss_state s = Detached then s else s\<lparr>ss_state := st\<rparr>)"

definition note_inbound :: "nat \<Rightarrow> session \<Rightarrow> session" where
  "note_inbound now s = s\<lparr>ss_last_inbound := now, ss_state := (if ss_state s = Suspect then Connected else ss_state s)\<rparr>"

definition answer_all :: "string \<Rightarrow> (string, nat \<times> nat) hmap \<Rightarrow> (nat \<times> (string, json) result) list" where
  "answer_all reason m = map (\<lambda>(rid, tx, deadline). (tx, Inl reason)) m"

definition fail_all :: "string \<Rightarrow> session \<Rightarrow> session" where
  "fail_all reason s =
     s\<lparr>ss_answers := ss_answers s @ answer_all reason (ss_pending s) @ answer_all reason (ss_replies s),
       ss_pending := [], ss_replies := []\<rparr>"

definition detach :: "string \<Rightarrow> session \<Rightarrow> session" where
  "detach reason s = fail_all reason (s\<lparr>ss_io := poison (ss_io s), ss_state := Detached\<rparr>)"

definition queued :: "session_limits \<Rightarrow> nat \<Rightarrow> string \<Rightarrow> queued_frame" where
  "queued l now frame = \<lparr>qf_bytes = frame, qf_deadline = now + sl_frame_budget l\<rparr>"

definition send_reply :: "nat \<Rightarrow> (string, json) result \<Rightarrow> session \<Rightarrow> session" where
  "send_reply tx r s = s\<lparr>ss_answers := ss_answers s @ [(tx, r)]\<rparr>"

text \<open>One command of \<open>drain_commands\<close>.\<close>

fun drain_command :: "session_limits \<Rightarrow> nat \<Rightarrow> session_command \<Rightarrow> session \<Rightarrow> session" where
  "drain_command l now (CmdControl frame) s =
     (if sl_control_queue l \<le> length (ss_control_q s) then s\<lparr>ss_refused_control := ss_refused_control s + 1\<rparr>
      else s\<lparr>ss_control_q := ss_control_q s @ [queued l now frame]\<rparr>)"
| "drain_command l now (CmdData frame) s =
     (if sl_data_queue l \<le> length (ss_data_q s) then s\<lparr>ss_refused_data := ss_refused_data s + 1\<rparr>
      else s\<lparr>ss_data_q := ss_data_q s @ [queued l now frame]\<rparr>)"
| "drain_command l now (CmdRequest rid frame timeout) s =
     (let s1 = s\<lparr>ss_replies := hm_remove rid (ss_replies s)\<rparr> in
      case hm_get (ss_replies s) rid of
        None \<Rightarrow> s1
      | Some (tx, _) \<Rightarrow>
          if sl_max_pending l \<le> length (ss_pending s) then send_reply tx (Inl ''resource-exhausted'') s1
          else if sl_control_queue l \<le> length (ss_control_q s)
          then send_reply tx (Inl ''resource-exhausted'') (s1\<lparr>ss_refused_control := ss_refused_control s + 1\<rparr>)
          else s1\<lparr>ss_pending := hm_insert rid (tx, now + timeout) (ss_pending s),
                  ss_control_q := ss_control_q s @ [queued l now frame]\<rparr>)"

text \<open>
  The rounds of a write: what the clock reads, how many bytes the TLS writer takes, whether records wait for
  the socket, and whether \<open>drive\<close> gets rid of them before the deadline.
\<close>

record flush_env =
  fe_clock :: "nat \<Rightarrow> nat"
  fe_write :: "nat \<Rightarrow> nat \<Rightarrow> (unit, nat) result"
  fe_wants_write :: "nat \<Rightarrow> bool"
  fe_drive :: "nat \<Rightarrow> bool"

definition feed_writer :: "flush_env \<Rightarrow> nat \<Rightarrow> nat \<Rightarrow> nat \<Rightarrow> nat option" where
  "feed_writer env n len fed =
     (if fed < len
      then (case fe_write env n (len - fed) of
              Inl _ \<Rightarrow> None
            | Inr k \<Rightarrow> if k = 0 \<and> \<not> fe_wants_write env n then None else Some (fed + min k (len - fed)))
      else Some fed)"

partial_function (option) flush_rounds :: "flush_env \<Rightarrow> nat \<Rightarrow> nat \<Rightarrow> nat \<Rightarrow> nat \<Rightarrow> bool option" where
  "flush_rounds env deadline len n fed =
     (if deadline \<le> fe_clock env n then Some False
      else (case feed_writer env n len fed of
              None \<Rightarrow> Some False
            | Some fed' \<Rightarrow>
                if fed' = len \<and> \<not> fe_wants_write env n then Some (fe_clock env (n + 1) < deadline)
                else if fe_drive env n then flush_rounds env deadline len (n + 1) fed'
                else Some False))"

definition flush_one :: "flush_env \<Rightarrow> nat \<Rightarrow> session \<Rightarrow> (session \<times> (unit, bool) result) option" where
  "flush_one env now s =
     (let (frames, s1) = (case ss_control_q s of
                            [] \<Rightarrow> (case ss_data_q s of [] \<Rightarrow> (None, s) | f # q \<Rightarrow> (Some f, s\<lparr>ss_data_q := q\<rparr>))
                          | f # q \<Rightarrow> (Some f, s\<lparr>ss_control_q := q\<rparr>)) in
      case frames of
        None \<Rightarrow> Some (s1, Inr True)
      | Some f \<Rightarrow>
          if qf_deadline f \<le> now then Some (s1\<lparr>ss_late := ss_late s1 + 1\<rparr>, Inr True)
          else (case flush_rounds env (qf_deadline f) (length (qf_bytes f)) 0 0 of
                  None \<Rightarrow> None
                | Some sent \<Rightarrow>
                    if sent then Some (s1\<lparr>ss_wire := ss_wire s1 @ [qf_bytes f]\<rparr>, Inr True)
                    else Some (s1\<lparr>ss_io := poison (ss_io s1)\<rparr>, Inl ())))"

definition expire_pending :: "nat \<Rightarrow> session \<Rightarrow> session" where
  "expire_pending now s =
     (let late = filter (\<lambda>(rid, tx, deadline). deadline \<le> now) (ss_pending s) in
      s\<lparr>ss_answers := ss_answers s @ answer_all ''outcome-unknown'' late,
        ss_pending := hm_retain (\<lambda>rid (tx, deadline). now < deadline) (ss_pending s),
        ss_late := ss_late s + length late,
        ss_replies := hm_retain (\<lambda>rid (tx, deadline). now < deadline) (ss_replies s)\<rparr>)"

text \<open>A document goes to its waiter, to the subscriber of its request, or, validated, to the handler.\<close>

definition handle_inbound :: "json \<Rightarrow> session \<Rightarrow> session" where
  "handle_inbound env s =
     (case rm_validate_envelope env of
        Inl _ \<Rightarrow> s\<lparr>ss_io := (ss_io s)\<lparr>io_malformed := io_malformed (ss_io s) + 1\<rparr>\<rparr>
      | Inr _ \<Rightarrow> if ss_handler s then s\<lparr>ss_handled := ss_handled s @ [env]\<rparr> else s)"

definition session_dispatch :: "nat \<Rightarrow> json \<Rightarrow> session \<Rightarrow> session" where
  "session_dispatch now env s0 =
     (let s = note_inbound now s0; ty = opt_or (get_str env ''type'') [] in
      case get_str env ''request_id'' of
        None \<Rightarrow> handle_inbound env s
      | Some rid \<Rightarrow>
          (case hm_get (ss_pending s) rid of
             Some (tx, _) \<Rightarrow> send_reply tx (Inr env) (s\<lparr>ss_pending := hm_remove rid (ss_pending s)\<rparr>)
           | None \<Rightarrow>
               (case hm_get (ss_multi s) rid of
                  Some tx \<Rightarrow> s\<lparr>ss_streamed := ss_streamed s @ [(tx, env)]\<rparr>
                | None \<Rightarrow>
                    if is_answer_type ty then s\<lparr>ss_late := ss_late s + 1\<rparr> else handle_inbound env s)))"

definition session_notice :: "string \<Rightarrow> string \<Rightarrow> string \<Rightarrow> json \<Rightarrow> json" where
  "session_notice ty mid sid body =
     JObj [(''protocol'', JStr REMOTE_PROTOCOL_ID), (''version'', JStr REMOTE_PROTOCOL_VERSION), (''type'', JStr ty),
           (''message_id'', JStr mid), (''session_id'', JStr sid), (''body'', body)]"

definition heartbeat_due :: "session_limits \<Rightarrow> codec \<Rightarrow> nat \<Rightarrow> (string, string) result \<Rightarrow> session \<Rightarrow> session" where
  "heartbeat_due l cd now token s =
     (if now - ss_last_heartbeat s < sl_heartbeat_interval l then s
      else (let s1 = s\<lparr>ss_last_heartbeat := now\<rparr> in
            case encode_frame cd (session_notice ''heartbeat'' (fresh_id token ''m'') (ss_session_id s) (JObj [])) (sl_max_frame l) of
              Inl _ \<Rightarrow> s1
            | Inr frame \<Rightarrow>
                if length (ss_control_q s1) < sl_control_queue l
                then s1\<lparr>ss_control_q := ss_control_q s1 @ [queued l now frame]\<rparr> else s1))"

definition check_timers :: "session_limits \<Rightarrow> nat \<Rightarrow> session \<Rightarrow> session \<times> bool" where
  "check_timers l now s =
     (let idle = now - ss_last_inbound s in
      if sl_detach_after l \<le> idle then (detach ''session detached'' s, False)
      else if sl_suspect_after l \<le> idle then (set_state Suspect s, True)
      else (s, True))"

text \<open>The best-effort notice and the terminal detach of a shut down session.\<close>

definition close_session :: "session_limits \<Rightarrow> codec \<Rightarrow> (string, string) result \<Rightarrow> bool \<Rightarrow> session \<Rightarrow> session" where
  "close_session l cd token sent s =
     (let env = session_notice ''session.close'' (fresh_id token ''m'') (ss_session_id s) (JObj [(''reason'', JStr ''shutdown'')]) in
      detach ''session detached''
        (case encode_frame cd env (sl_max_frame l) of
           Inl _ \<Rightarrow> s
         | Inr frame \<Rightarrow> if sent then s\<lparr>ss_wire := ss_wire s @ [frame]\<rparr> else s))"

datatype engine_pc = AtTop | Draining | Expiring | Beating | Timing | Polling | Reading | Dispatching "json list" | Flushing | Reaping | Stopped

record engine_env =
  ee_now :: nat
  ee_token :: "(string, string) result"
  ee_notice_sent :: bool
  ee_poll :: bool
  ee_utf8 :: "string \<Rightarrow> string"
  ee_read :: read_env
  ee_flush :: flush_env

text \<open>One step of \<open>run\<close>; no answer is a write that never returns.\<close>

fun engine_step :: "session_limits \<Rightarrow> codec \<Rightarrow> engine_env \<Rightarrow> engine_pc \<Rightarrow> session \<Rightarrow> (engine_pc \<times> session) option" where
  "engine_step l cd e AtTop s =
     (if ss_shutdown s then Some (Stopped, close_session l cd (ee_token e) (ee_notice_sent e) s) else Some (Draining, s))"
| "engine_step l cd e Draining s =
     (case ss_commands s of
        [] \<Rightarrow> Some (Expiring, s)
      | c # cs \<Rightarrow> Some (Draining, drain_command l (ee_now e) c (s\<lparr>ss_commands := cs\<rparr>)))"
| "engine_step l cd e Expiring s = Some (Beating, expire_pending (ee_now e) s)"
| "engine_step l cd e Beating s = Some (Timing, heartbeat_due l cd (ee_now e) (ee_token e) s)"
| "engine_step l cd e Timing s = (case check_timers l (ee_now e) s of (s', go) \<Rightarrow> Some (if go then Polling else Stopped, s'))"
| "engine_step l cd e Polling s =
     (if ee_poll e then Some (Reading, s) else Some (Stopped, detach ''transport error'' s))"
| "engine_step l cd e Reading s =
     (case pump_reads (decode_frame (ee_utf8 e) (cd_parse cd)) (sl_max_frame l) (ee_read e) (ss_io s) of
        None \<Rightarrow> None
      | Some (io, Inr vs) \<Rightarrow> Some (Dispatching vs, s\<lparr>ss_io := io\<rparr>)
      | Some (io, Inl err) \<Rightarrow>
          Some (Stopped, detach (if err = ''clean-eof'' then ''peer closed'' else ''transport error: '' @ err) (s\<lparr>ss_io := io\<rparr>)))"
| "engine_step l cd e (Dispatching []) s = Some (Flushing, s)"
| "engine_step l cd e (Dispatching (v # vs)) s = Some (Dispatching vs, session_dispatch (ee_now e) v s)"
| "engine_step l cd e Flushing s =
     (if ss_control_q s = [] \<and> ss_data_q s = [] then Some (Reaping, s)
      else (case flush_one (ee_flush e) (ee_now e) s of
              None \<Rightarrow> None
            | Some (s', Inr _) \<Rightarrow> Some (Reaping, s')
            | Some (s', Inl _) \<Rightarrow> Some (Stopped, detach ''frame deadline exceeded'' s')))"
| "engine_step l cd e Reaping s = Some (AtTop, expire_pending (ee_now e) s)"
| "engine_step l cd e Stopped s = Some (Stopped, s)"

subsection \<open>Interleaving\<close>

text \<open>What a caller does to the shared state in one critical section.\<close>

datatype caller_op =
    OpControl json
  | OpData json
  | OpRegister json nat nat
  | OpEnqueue json nat string
  | OpTurn bool nat nat string nat
  | OpSubscribe string nat
  | OpUnsubscribe string
  | OpHandler
  | OpShutdown

fun caller_step :: "session_limits \<Rightarrow> codec \<Rightarrow> caller_op \<Rightarrow> session \<Rightarrow> session" where
  "caller_step l cd (OpControl env) s = fst (send_control l cd env s)"
| "caller_step l cd (OpData env) s = fst (send_data l cd env s)"
| "caller_step l cd (OpRegister env timeout now) s = fst (request_register l env timeout now s)"
| "caller_step l cd (OpEnqueue env timeout rid) s = fst (request_enqueue l cd env timeout rid s)"
| "caller_step l cd (OpTurn c timeout waited rid tx) s = fst (request_turn c timeout waited rid tx s)"
| "caller_step l cd (OpSubscribe rid tx) s = fst (subscribe_answers l rid tx s)"
| "caller_step l cd (OpUnsubscribe rid) s = unsubscribe_answers rid s"
| "caller_step l cd OpHandler s = set_handler s"
| "caller_step l cd OpShutdown s = session_shutdown s"

inductive session_step :: "session_limits \<Rightarrow> codec \<Rightarrow> engine_pc \<times> session \<Rightarrow> engine_pc \<times> session \<Rightarrow> bool"
  for l :: session_limits and cd :: codec where
  engine: "engine_step l cd e pc s = Some (pc', s') \<Longrightarrow> session_step l cd (pc, s) (pc', s')"
| caller: "session_step l cd (pc, s) (pc, caller_step l cd op s)"

inductive session_run :: "session_limits \<Rightarrow> codec \<Rightarrow> engine_pc \<times> session \<Rightarrow> engine_pc \<times> session \<Rightarrow> bool"
  for l :: session_limits and cd :: codec where
  start: "session_run l cd x x"
| more: "session_run l cd x y \<Longrightarrow> session_step l cd y z \<Longrightarrow> session_run l cd x z"
inductive_cases session_stepE: "session_step l cd (pc, s) y"

subsection \<open>Bounds\<close>

definition bounded :: "session_limits \<Rightarrow> session \<Rightarrow> bool" where
  "bounded l s \<longleftrightarrow>
     length (ss_commands s) \<le> sl_commands l \<and> length (ss_control_q s) \<le> sl_control_queue l \<and>
     length (ss_data_q s) \<le> sl_data_queue l \<and> length (ss_pending s) \<le> sl_max_pending l \<and>
     length (ss_replies s) \<le> sl_max_pending l \<and> length (ss_multi s) \<le> sl_max_pending l"

lemma length_hm_insert_le: "length m < n \<Longrightarrow> length (hm_insert k v m) \<le> n"
  by simp

lemma length_hm_remove_le: "length m \<le> n \<Longrightarrow> length (hm_remove k m) \<le> n"
  by (rule le_trans [OF hm_length_remove_le])

lemma length_hm_retain_le: "length m \<le> n \<Longrightarrow> length (hm_retain P m) \<le> n"
  unfolding hm_retain_def by (rule le_trans [OF length_filter_le])

lemmas bound_intros = length_hm_insert_le length_hm_remove_le length_hm_retain_le

lemma bounded_send_cmd: "bounded l s \<Longrightarrow> bounded l (fst (send_cmd l c r s))"
  by (simp add: send_cmd_def bounded_def)

lemma send_cmd_keeps:
  "ss_replies (fst (send_cmd l c r s)) = ss_replies s" "ss_pending (fst (send_cmd l c r s)) = ss_pending s"
  "ss_answers (fst (send_cmd l c r s)) = ss_answers s" "ss_channels (fst (send_cmd l c r s)) = ss_channels s"
  "ss_state (fst (send_cmd l c r s)) = ss_state s" "ss_wire (fst (send_cmd l c r s)) = ss_wire s"
  "ss_handled (fst (send_cmd l c r s)) = ss_handled s" "ss_io (fst (send_cmd l c r s)) = ss_io s"
  "ss_state s = Detached \<Longrightarrow> send_cmd l c r s = (s, Inl ''session detached'')"
  by (simp_all add: send_cmd_def)

lemma bounded_enqueue: "bounded l s \<Longrightarrow> bounded l (fst (request_enqueue l cd env timeout rid s))"
  using bounded_send_cmd [of l s "CmdRequest rid (projr (encode_frame cd env DEFAULT_MAX_FRAME)) timeout" "''resource-exhausted''"]
  by (auto simp: request_enqueue_def bounded_def bound_intros split: sum.split prod.split)

lemma bounded_caller: "bounded l s \<Longrightarrow> bounded l (caller_step l cd op s)"
proof (cases op)
  case (OpControl env)
  then show "bounded l s \<Longrightarrow> ?thesis"
    using bounded_send_cmd [of l s "CmdControl (projr (encode_frame cd env DEFAULT_MAX_FRAME))" "''resource-exhausted''"]
    by (auto simp: send_control_def bounded_def split: sum.split prod.split)
next
  case (OpData env)
  then show "bounded l s \<Longrightarrow> ?thesis"
    using bounded_send_cmd [of l s "CmdData (projr (encode_frame cd env DEFAULT_MAX_FRAME))" "''resource-exhausted''"]
    by (auto simp: send_data_def bounded_def split: sum.split prod.split)
next
  case (OpRegister env timeout now)
  then show "bounded l s \<Longrightarrow> ?thesis"
    by (auto simp: request_register_def bounded_def Let_def bound_intros split: option.split)
next
  case (OpEnqueue env timeout rid)
  then show "bounded l s \<Longrightarrow> ?thesis" by (simp add: bounded_enqueue)
next
  case (OpTurn c timeout waited rid tx)
  then show "bounded l s \<Longrightarrow> ?thesis"
    by (auto simp: request_turn_def bounded_def Let_def bound_intros split: option.split)
next
  case (OpSubscribe rid tx)
  then show "bounded l s \<Longrightarrow> ?thesis"
    by (auto simp: subscribe_answers_def bounded_def bound_intros)
qed (auto simp: bounded_def unsubscribe_answers_def set_handler_def session_shutdown_def bound_intros)

lemma bounded_detach: "bounded l s \<Longrightarrow> bounded l (detach r (s\<lparr>ss_io := io\<rparr>))" "bounded l s \<Longrightarrow> bounded l (detach r s)"
  by (simp_all add: detach_def fail_all_def bounded_def)

lemma bounded_drain: "bounded l s \<Longrightarrow> bounded l (drain_command l now c s)"
  by (cases c) (auto simp: bounded_def Let_def send_reply_def bound_intros split: option.split)

lemma bounded_expire: "bounded l s \<Longrightarrow> bounded l (expire_pending now s)"
  by (simp add: expire_pending_def bounded_def Let_def bound_intros)

lemma bounded_dispatch: "bounded l s \<Longrightarrow> bounded l (session_dispatch now env s)"
  by (auto simp: session_dispatch_def handle_inbound_def note_inbound_def send_reply_def bounded_def Let_def bound_intros
      split: option.split sum.split)

lemma bounded_flush:
  assumes "flush_one env now s = Some (s', r)" "bounded l s"
  shows "bounded l s'"
  using assms unfolding flush_one_def Let_def bounded_def by (auto split: list.splits option.splits if_splits)

lemma bounded_heartbeat: "bounded l s \<Longrightarrow> bounded l (heartbeat_due l cd now token s)"
  by (auto simp: heartbeat_due_def bounded_def Let_def split: sum.split)

lemma bounded_close: "bounded l s \<Longrightarrow> bounded l (close_session l cd token sent s)"
  by (simp add: close_session_def Let_def detach_def fail_all_def bounded_def split: sum.split)

lemma bounded_engine:
  assumes "engine_step l cd e pc s = Some (pc', s')" "bounded l s"
  shows "bounded l s'"
  using assms
proof (induction l cd e pc s rule: engine_step.induct)
  case (2 l cd e s)
  show ?case
  proof (cases "ss_commands s")
    case Nil
    then show ?thesis using 2 by simp
  next
    case (Cons c cs)
    then have "bounded l (s\<lparr>ss_commands := cs\<rparr>)" using 2 by (simp add: bounded_def)
    then show ?thesis using 2 Cons bounded_drain by auto
  qed
next
  case (5 l cd e s)
  then show ?case by (auto simp: check_timers_def Let_def set_state_def bounded_detach split: if_splits) (simp_all add: bounded_def)
next
  case (7 l cd e s)
  then show ?case by (auto simp: bounded_detach split: option.splits sum.splits) (simp_all add: bounded_def)
next
  case (10 l cd e s)
  then consider "s' = s" | s1 r where "flush_one (ee_flush e) (ee_now e) s = Some (s1, r)" "s' = s1 \<or> s' = detach ''frame deadline exceeded'' s1"
    by (auto split: option.splits sum.splits if_splits)
  then show ?case using 10(2) bounded_flush bounded_detach(2) by cases blast+
qed (auto simp: bounded_close bounded_expire bounded_heartbeat bounded_dispatch bounded_detach split: if_splits)

lemma bounded_step: "session_step l cd x y \<Longrightarrow> bounded l (snd x) \<Longrightarrow> bounded l (snd y)"
  by (induction rule: session_step.induct) (auto dest: bounded_engine bounded_caller)
text \<open>A predicate that every step keeps holds along every run.\<close>

locale session_invariant =
  fixes l :: session_limits and cd :: codec and I :: "engine_pc \<times> session \<Rightarrow> bool"
  assumes step: "session_step l cd x y \<Longrightarrow> I x \<Longrightarrow> I y"
begin

lemma along_run: "session_run l cd x y \<Longrightarrow> I x \<Longrightarrow> I y"
  by (induction rule: session_run.induct) (auto dest: step)

end

interpretation bounds: session_invariant l cd "\<lambda>x. bounded l (snd x)" for l cd
  by unfold_locales (rule bounded_step)

lemma bounded_spawn [simp]: "bounded l (spawn io sid peer now)"
  by (simp add: bounded_def spawn_def)

subsection \<open>Reply channels\<close>

text \<open>
  The ends of reply channels: in the slots of the callers, in the slots of the engine, and
  used for an answer. A step moves an end or drops it; only a registration adds one, and it is new.
\<close>

definition slots :: "(string, nat \<times> nat) hmap \<Rightarrow> nat multiset" where
  "slots m = mset (map (fst \<circ> snd) m)"

definition ends :: "session \<Rightarrow> nat multiset" where
  "ends s = slots (ss_replies s) + slots (ss_pending s) + mset (map fst (ss_answers s))"

lemma slots_Nil [simp]: "slots [] = {#}"
  by (simp add: slots_def)

lemma slots_Cons [simp]: "slots (p # m) = add_mset (fst (snd p)) (slots m)"
  by (simp add: slots_def)

lemma slots_filter: "slots (filter P m) + slots (filter (\<lambda>x. \<not> P x) m) = slots m"
  by (induction m) auto

lemma slots_retain_le: "slots (hm_retain P m) \<subseteq># slots m"
  using slots_filter [of "\<lambda>p. P (fst p) (snd p)" m] by (metis hm_retain_def mset_subset_eq_add_left)

lemma slots_remove_le: "slots (hm_remove k m) \<subseteq># slots m"
  using slots_filter [of "\<lambda>p. fst p \<noteq> k" m] by (metis hm_remove_def mset_subset_eq_add_left)

lemma slots_remove_get:
  assumes "hm_get m k = Some (tx, d)"
  shows "add_mset tx (slots (hm_remove k m)) \<subseteq># slots m"
  using assms
proof (induction m)
  case (Cons p m)
  show ?case
  proof (cases "fst p = k")
    case True
    then show ?thesis using Cons.prems slots_remove_le [of k m] by (auto simp: hm_remove_Cons)
  next
    case False
    then have "add_mset (fst (snd p)) (add_mset tx (slots (hm_remove k m))) \<subseteq># add_mset (fst (snd p)) (slots m)"
      using Cons by (simp only: mset_subset_eq_add_mset_cancel) simp
    then show ?thesis using False by (simp add: hm_remove_Cons add_mset_commute)
  qed
qed simp

lemma slots_insert: "slots (hm_insert k (tx, d) m) \<subseteq># add_mset tx (slots m)"
proof (induction m)
  case (Cons p m)
  have "slots (hm_insert k (tx, d) (p # m)) = (if fst p = k then add_mset tx (slots m) else add_mset (fst (snd p)) (slots (hm_insert k (tx, d) m)))"
    by (cases p) (simp add: hm_insert_def)
  then show ?case using Cons.IH by (auto simp: add_mset_commute [of tx] subset_mset.add_increasing)
qed (simp add: hm_insert_def)

lemma slots_answer_all: "mset (map fst (answer_all r m)) = slots m"
  by (simp add: answer_all_def slots_def o_def case_prod_unfold)
lemma ends_move:
  assumes "hm_get m k = Some (tx, d)"
  shows "slots (hm_remove k m) + (add_mset tx A) \<subseteq># slots m + A"
proof -
  have "slots (hm_remove k m) + add_mset tx A = add_mset tx (slots (hm_remove k m)) + A" by simp
  then show ?thesis using slots_remove_get [OF assms] by (simp only: subset_mset.add_right_mono)
qed

lemma ends_drain: "ends (drain_command l now c s) \<subseteq># ends s"
proof (cases c)
  case (CmdRequest rid frame timeout)
  show ?thesis
  proof (cases "hm_get (ss_replies s) rid")
    case None
    then show ?thesis using CmdRequest slots_remove_le [of rid "ss_replies s"] by (simp add: ends_def)
  next
    case (Some p)
    obtain tx d where p: "p = (tx, d)" by (cases p)
    have a: "slots (hm_remove rid (ss_replies s)) + (add_mset tx (slots (ss_pending s) + mset (map fst (ss_answers s)))) \<subseteq># ends s"
      using ends_move [of "ss_replies s" rid tx d "slots (ss_pending s) + mset (map fst (ss_answers s))"] Some p
      by (simp add: ends_def add.assoc)
    have i: "slots (hm_remove rid (ss_replies s)) + slots (hm_insert rid (tx, now + timeout) (ss_pending s)) + mset (map fst (ss_answers s)) \<subseteq>#
        slots (hm_remove rid (ss_replies s)) + (add_mset tx (slots (ss_pending s) + mset (map fst (ss_answers s))))"
      using slots_insert [of rid tx "now + timeout" "ss_pending s"] by (simp add: add.assoc subset_mset.add_mono)
    show ?thesis
      using CmdRequest Some p a subset_mset.trans [OF i a] by (auto simp: ends_def send_reply_def Let_def add.assoc)
  qed
qed (auto simp: ends_def)

lemma ends_expire: "ends (expire_pending now s) \<subseteq># ends s"
proof -
  have "slots (hm_retain (\<lambda>rid (tx, deadline). now < deadline) (ss_pending s)) + slots (filter (\<lambda>(rid, tx, deadline). deadline \<le> now) (ss_pending s))
      = slots (ss_pending s)"
    using slots_filter [of "\<lambda>(rid, tx, deadline). now < deadline" "ss_pending s"]
    by (simp add: hm_retain_def case_prod_unfold not_less)
  then have "ends (expire_pending now s) = slots (hm_retain (\<lambda>rid (tx, deadline). now < deadline) (ss_replies s)) +
      slots (ss_pending s) + mset (map fst (ss_answers s))"
    by (simp add: ends_def expire_pending_def Let_def slots_answer_all [unfolded mset_map] ac_simps)
  then show ?thesis using slots_retain_le by (simp add: ends_def)
qed

lemma ends_dispatch: "ends (session_dispatch now env s) \<subseteq># ends s"
proof -
  have "slots (hm_remove rid (ss_pending s)) + (add_mset tx (mset (map fst (ss_answers s)))) \<subseteq># slots (ss_pending s) + mset (map fst (ss_answers s))"
    if "hm_get (ss_pending s) rid = Some (tx, d)" for rid tx d
    using ends_move [OF that] .
  then show ?thesis
    by (auto simp: ends_def session_dispatch_def handle_inbound_def note_inbound_def send_reply_def Let_def add.assoc
        split: option.split sum.split)
qed

lemma ends_detach: "ends (detach r s) = ends s"
  by (simp add: ends_def detach_def fail_all_def slots_answer_all [unfolded mset_map] ac_simps)

lemma ends_flush: "flush_one env now s = Some (s', r) \<Longrightarrow> ends s' = ends s"
  by (auto simp: flush_one_def ends_def Let_def split: list.splits option.splits if_splits)

lemma ends_heartbeat: "ends (heartbeat_due l cd now token s) = ends s"
  by (auto simp: heartbeat_due_def ends_def Let_def split: sum.split)

lemma ends_close: "ends (close_session l cd token sent s) = ends s"
  by (simp add: close_session_def Let_def ends_detach split: sum.split) (simp add: ends_def)

lemma ends_upd [simp]: "ends (s\<lparr>ss_io := io\<rparr>) = ends s" "ends (s\<lparr>ss_commands := cs\<rparr>) = ends s" "ends (set_state st s) = ends s"
  by (simp_all add: ends_def set_state_def)

lemma ends_engine:
  assumes "engine_step l cd e pc s = Some (pc', s')"
  shows "ends s' \<subseteq># ends s"
  using assms
proof (induction l cd e pc s rule: engine_step.induct)
  case (2 l cd e s)
  then show ?case using ends_drain [of l "ee_now e" _ "s\<lparr>ss_commands := _\<rparr>"] by (auto split: list.splits)
next
  case (5 l cd e s)
  then show ?case by (auto simp: check_timers_def Let_def ends_detach split: if_splits)
next
  case (7 l cd e s)
  then show ?case by (auto simp: ends_detach split: option.splits sum.splits)
next
  case (10 l cd e s)
  then consider "s' = s" | s1 r where "flush_one (ee_flush e) (ee_now e) s = Some (s1, r)" "s' = s1 \<or> s' = detach ''frame deadline exceeded'' s1"
    by (auto split: option.splits sum.splits if_splits)
  then show ?case
  proof cases
    case 2
    then show ?thesis using ends_flush [OF 2(1)] ends_detach by auto
  qed simp
qed (auto simp: ends_close ends_expire ends_heartbeat ends_dispatch ends_detach split: if_splits)

lemma channels_engine: "engine_step l cd e pc s = Some (pc', s') \<Longrightarrow> ss_channels s' = ss_channels s"
proof (induction l cd e pc s rule: engine_step.induct)
  case (2 l cd e s)
  have "ss_channels (drain_command l now c s) = ss_channels s" for now c s
    by (cases c) (auto simp: send_reply_def Let_def split: option.split)
  then show ?case using 2 by (auto split: list.splits)
next
  case (10 l cd e s)
  have "flush_one env now s = Some (s1, r) \<Longrightarrow> ss_channels s1 = ss_channels s" for env now s1 r
    by (auto simp: flush_one_def Let_def split: list.splits option.splits if_splits)
  then show ?case using 10 by (auto simp: detach_def fail_all_def split: option.splits sum.splits if_splits)
qed (auto simp: close_session_def expire_pending_def heartbeat_due_def check_timers_def set_state_def session_dispatch_def
      handle_inbound_def note_inbound_def send_reply_def detach_def fail_all_def Let_def
      split: option.splits sum.splits if_splits)

text \<open>What a caller does: an end it holds may be dropped, and a registration makes a new one.\<close>

lemma ends_caller:
  "ends (caller_step l cd op s) \<subseteq># ends s \<and> ss_channels (caller_step l cd op s) = ss_channels s \<or>
   ends (caller_step l cd op s) \<subseteq># add_mset (ss_channels s) (ends s) \<and> ss_channels (caller_step l cd op s) = Suc (ss_channels s)"
proof (cases op)
  case (OpRegister env timeout now)
  have "slots (hm_insert rid (tx, now + timeout) (ss_replies s)) + slots (ss_pending s) + mset (map fst (ss_answers s)) \<subseteq>#
      add_mset tx (ends s)" for rid tx
    using slots_insert [of rid tx "now + timeout" "ss_replies s"] unfolding ends_def
    by (metis add_mset_add_single subset_mset.add_right_mono union_mset_add_mset_left)
  then show ?thesis using OpRegister
    by (auto simp: request_register_def ends_def Let_def split: option.split)
next
  case (OpEnqueue env timeout rid)
  then show ?thesis using slots_remove_le [of rid "ss_replies s"]
    by (auto simp: request_enqueue_def send_cmd_def ends_def split: sum.split)
next
  case (OpTurn c timeout waited rid tx)
  then show ?thesis using slots_remove_le [of rid "ss_replies s"]
    by (auto simp: request_turn_def ends_def Let_def split: option.split)
qed (auto simp: send_control_def send_data_def send_cmd_def subscribe_answers_def unsubscribe_answers_def set_handler_def
      session_shutdown_def ends_def split: sum.split)

definition channels_ok :: "session \<Rightarrow> bool" where
  "channels_ok s \<longleftrightarrow> (\<forall>tx. count (ends s) tx \<le> (if tx < ss_channels s then 1 else 0))"

lemma channels_ok_le:
  "channels_ok s \<Longrightarrow> ends s' \<subseteq># ends s \<Longrightarrow> ss_channels s' = ss_channels s \<Longrightarrow> channels_ok s'"
  unfolding channels_ok_def by (metis le_trans mset_subset_eq_count)

lemma channels_ok_new:
  assumes "channels_ok s" "ends s' \<subseteq># add_mset (ss_channels s) (ends s)" "ss_channels s' = Suc (ss_channels s)"
  shows "channels_ok s'"
  unfolding channels_ok_def
proof
  fix tx
  have "count (ends s') tx \<le> count (add_mset (ss_channels s) (ends s)) tx" using assms(2) by (rule mset_subset_eq_count)
  moreover have "count (ends s) tx \<le> (if tx < ss_channels s then 1 else 0)" using assms(1) by (simp add: channels_ok_def)
  ultimately show "count (ends s') tx \<le> (if tx < ss_channels s' then 1 else 0)" using assms(3) by (auto split: if_splits)
qed

lemma channels_ok_step: "session_step l cd x y \<Longrightarrow> channels_ok (snd x) \<Longrightarrow> channels_ok (snd y)"
proof (induction rule: session_step.induct)
  case (engine e pc s pc' s')
  then show ?case using channels_ok_le [OF _ ends_engine channels_engine] by simp
next
  case (caller pc s op)
  then have "channels_ok s" by simp
  then have "channels_ok (caller_step l cd op s)" using ends_caller [of l cd op s] channels_ok_le channels_ok_new by blast
  then show ?case by simp
qed

interpretation channels: session_invariant l cd "\<lambda>x. channels_ok (snd x)" for l cd
  by unfold_locales (rule channels_ok_step)

lemma channels_ok_spawn [simp]: "channels_ok (spawn io sid peer now)"
  by (simp add: channels_ok_def ends_def spawn_def)

end
