(* ===== verification/Mx_Waits.thy ===== *)
theory Mx_Waits
  imports Mx_Session "HOL-Library.Code_Target_Nat"
begin

text \<open>
  What a remote session promises its callers, over every interleaving of callers and engine: an
  answer reaches the request it belongs to and at most once, a detached session stays
  detached and leaves no waiter behind, and the engine never gets stuck in a step.
\<close>

declare map_of_eq_Some_iff [simp del] Some_eq_map_of_iff [simp del]

subsection \<open>Answers belong to their requests\<close>

definition owners :: "session \<Rightarrow> (string \<times> nat) set" where
  "owners s = (\<lambda>(rid, tx, deadline). (rid, tx)) ` (set (ss_replies s) \<union> set (ss_pending s))"

text \<open>From \<open>s\<close> to \<open>s'\<close> no slot is new but that of the next channel, and an answer was sent to its owner.\<close>

definition follows :: "session \<Rightarrow> session \<Rightarrow> bool" where
  "follows s s' \<longleftrightarrow> ss_channels s \<le> ss_channels s' \<and> (\<forall>(rid, tx) \<in> owners s'. (rid, tx) \<in> owners s \<or> ss_channels s \<le> tx) \<and>
     (\<forall>tx v. (tx, Inr v) \<in> set (ss_answers s') \<longrightarrow>
        (tx, Inr v) \<in> set (ss_answers s) \<or> (\<exists>rid. (rid, tx) \<in> owners s \<and> get_str v ''request_id'' = Some rid))"

lemma set_hm_insert: "set (hm_insert k v m) \<subseteq> insert (k, v) (set m)"
  unfolding hm_insert_def by (induction m) auto

lemma owners_mem: "(r, tx) \<in> owners s \<longleftrightarrow> (\<exists>d. (r, tx, d) \<in> set (ss_replies s) \<or> (r, tx, d) \<in> set (ss_pending s))"
  unfolding owners_def by force

lemma owners_mono:
  "set (ss_replies s') \<union> set (ss_pending s') \<subseteq> set (ss_replies s) \<union> set (ss_pending s) \<Longrightarrow> owners s' \<subseteq> owners s"
  unfolding owners_def by (rule image_mono)

lemma followsI:
  assumes "owners s' \<subseteq> owners s" "ss_channels s' = ss_channels s"
    "\<And>tx v. (tx, Inr v) \<in> set (ss_answers s') \<Longrightarrow> (tx, Inr v) \<in> set (ss_answers s) \<or> (\<exists>rid. (rid, tx) \<in> owners s \<and> get_str v ''request_id'' = Some rid)"
  shows "follows s s'"
  using assms unfolding follows_def by auto

lemma follows_same:
  assumes "set (ss_replies s') \<subseteq> set (ss_replies s)" "set (ss_pending s') \<subseteq> set (ss_pending s)" "ss_channels s' = ss_channels s"
    "\<And>tx v. (tx, Inr v) \<in> set (ss_answers s') \<Longrightarrow> (tx, Inr v) \<in> set (ss_answers s)"
  shows "follows s s'"
  using assms by (intro followsI owners_mono) auto

lemma set_hm_remove: "set (hm_remove k m) \<subseteq> set m"
  by (auto simp: hm_remove_def)

lemma set_hm_retain: "set (hm_retain P m) \<subseteq> set m"
  by (auto simp: hm_retain_def)

lemma answer_all_Inl: "(tx, Inr v) \<notin> set (answer_all r m)"
  by (auto simp: answer_all_def)

lemma owners_get: "hm_get (ss_replies s) rid = Some (tx, d) \<or> hm_get (ss_pending s) rid = Some (tx, d) \<Longrightarrow> (rid, tx) \<in> owners s"
  unfolding owners_def by (force dest: map_of_SomeD)

lemma owners_pending: "hm_get (ss_pending s) rid = Some (tx, d) \<Longrightarrow> (rid, tx) \<in> owners s"
  using owners_get by blast

lemma follows_drain: "follows s (drain_command l now c s)"
proof (cases c)
  case (CmdRequest rid frame timeout)
  show ?thesis
  proof (cases "hm_get (ss_replies s) rid")
    case None
    then show ?thesis using CmdRequest by (intro follows_same) (auto simp: Let_def hm_remove_def)
  next
    case (Some p)
    obtain tx d where p: "p = (tx, d)" by (cases p)
    let ?s = "drain_command l now c s"
    have o: "(rid, tx) \<in> owners s" using owners_get Some p by blast
    have sub: "set (ss_pending ?s) \<subseteq> insert (rid, tx, now + timeout) (set (ss_pending s))" "set (ss_replies ?s) \<subseteq> set (ss_replies s)"
      using CmdRequest Some p set_hm_insert [of rid "(tx, now + timeout)" "ss_pending s"] set_hm_remove [of rid "ss_replies s"]
      by (auto simp: Let_def send_reply_def)
    have "(r, t) \<in> owners s" if m: "(r, t) \<in> owners ?s" for r t
    proof -
      obtain d' where "(r, t, d') \<in> set (ss_replies ?s) \<or> (r, t, d') \<in> set (ss_pending ?s)" using m unfolding owners_mem by blast
      then have "(r, t, d') \<in> set (ss_replies s) \<or> (r, t, d') \<in> set (ss_pending s) \<or> r = rid \<and> t = tx" using sub by blast
      then show ?thesis using o unfolding owners_mem by blast
    qed
    then have "owners ?s \<subseteq> owners s" by (rule subrelI)
    moreover have "ss_channels ?s = ss_channels s" using CmdRequest Some p by (simp add: Let_def send_reply_def)
    moreover have "(tx', Inr v) \<in> set (ss_answers ?s) \<Longrightarrow> (tx', Inr v) \<in> set (ss_answers s)" for tx' v
      using CmdRequest Some p by (auto simp: Let_def send_reply_def split: if_splits)
    ultimately show ?thesis by (intro followsI) auto
  qed
qed (auto intro!: follows_same)

lemma follows_expire: "follows s (expire_pending now s)"
  by (intro follows_same) (auto simp: expire_pending_def Let_def answer_all_Inl hm_retain_def)

lemma follows_dispatch: "follows s (session_dispatch now env s)"
proof -
  let ?s = "session_dispatch now env s"
  have "set (ss_replies ?s) \<subseteq> set (ss_replies s)" "set (ss_pending ?s) \<subseteq> set (ss_pending s)" "ss_channels ?s = ss_channels s"
    using set_hm_remove [of _ "ss_pending s"]
    by (auto simp: session_dispatch_def handle_inbound_def note_inbound_def send_reply_def Let_def split: option.splits sum.splits)
  moreover have "(tx, Inr v) \<in> set (ss_answers ?s) \<Longrightarrow>
      (tx, Inr v) \<in> set (ss_answers s) \<or> (\<exists>rid. (rid, tx) \<in> owners s \<and> get_str v ''request_id'' = Some rid)" for tx v
    by (auto simp: session_dispatch_def handle_inbound_def note_inbound_def send_reply_def Let_def
        split: option.splits sum.splits if_splits dest!: owners_pending)
  ultimately show ?thesis by (intro followsI owners_mono) auto
qed

lemma follows_refl [simp]: "follows s s"
  by (simp add: follows_def case_prod_unfold)

lemma follows_detach: "follows s s1 \<Longrightarrow> follows s (detach r s1)"
  by (auto simp: follows_def detach_def fail_all_def owners_def answer_all_Inl)

lemma follows_flush: "flush_one env now s = Some (s', r) \<Longrightarrow> follows s s'"
  by (rule follows_same) (auto simp: flush_one_def Let_def split: list.splits option.splits if_splits)

lemma follows_io: "follows s (s\<lparr>ss_io := io\<rparr>)" "follows (s\<lparr>ss_commands := cs\<rparr>) s' \<Longrightarrow> follows s s'"
  by (simp_all add: follows_def owners_def case_prod_unfold)

lemma follows_heartbeat: "follows s (heartbeat_due l cd now token s)"
proof -
  let ?s = "heartbeat_due l cd now token s"
  have "ss_replies ?s = ss_replies s" "ss_pending ?s = ss_pending s" "ss_channels ?s = ss_channels s" "ss_answers ?s = ss_answers s"
    by (simp_all add: heartbeat_due_def Let_def split: sum.split)
  then show ?thesis by (intro follows_same) simp_all
qed

lemma follows_timers: "follows s (fst (check_timers l now s))"
  by (auto simp: check_timers_def Let_def set_state_def follows_detach intro: follows_same)

lemma follows_close: "follows s (close_session l cd token sent s)"
  unfolding close_session_def Let_def by (rule follows_detach, rule follows_same) (auto split: sum.splits if_splits)

lemma follows_engine:
  assumes "engine_step l cd e pc s = Some (pc', s')"
  shows "follows s s'"
  using assms
proof (induction l cd e pc s rule: engine_step.induct)
  case (2 l cd e s)
  then show ?case using follows_io(2) [OF follows_drain] by (auto split: list.splits)
next
  case (5 l cd e s)
  then show ?case using follows_timers [of s l "ee_now e"] by (auto split: prod.splits)
next
  case (7 l cd e s)
  then show ?case using follows_io(1) follows_detach by (auto split: option.splits sum.splits)
next
  case (10 l cd e s)
  then consider "s' = s" | s1 r where "flush_one (ee_flush e) (ee_now e) s = Some (s1, r)" "s' = s1 \<or> s' = detach ''frame deadline exceeded'' s1"
    by (auto split: option.splits sum.splits if_splits)
  then show ?case
  proof cases
    case 2
    then show ?thesis using follows_flush [OF 2(1)] follows_detach by blast
  qed simp
qed (auto simp: follows_close follows_expire follows_heartbeat follows_dispatch follows_detach split: if_splits)

lemma follows_register: "follows s (fst (request_register l env timeout now s))"
proof -
  have "(r, tx) \<in> owners s \<or> ss_channels s \<le> tx"
    if "(r, tx) \<in> owners (s\<lparr>ss_channels := Suc (ss_channels s), ss_replies := hm_insert rid (ss_channels s, d) (ss_replies s)\<rparr>)" for r tx rid d
    using that set_hm_insert [of rid "(ss_channels s, d)" "ss_replies s"] by (auto simp: owners_mem)
  moreover have "owners (s\<lparr>ss_channels := n\<rparr>) = owners s" for n
    by (simp add: owners_def)
  ultimately show ?thesis
    by (auto simp: request_register_def follows_def Let_def split: option.splits)
qed

lemma follows_caller: "follows s (caller_step l cd op s)"
proof (cases op)
  case (OpRegister env timeout now)
  then show ?thesis by (simp add: follows_register)
next
  case (OpEnqueue env timeout rid)
  then show ?thesis using set_hm_remove [of rid "ss_replies s"]
    by (intro follows_same) (auto simp: request_enqueue_def send_cmd_def split: sum.splits if_splits)
next
  case (OpTurn c timeout waited rid tx)
  then show ?thesis using set_hm_remove [of rid "ss_replies s"]
    by (intro follows_same) (auto simp: request_turn_def Let_def split: option.splits if_splits)
qed (auto intro!: follows_same simp: send_control_def send_data_def send_cmd_def subscribe_answers_def unsubscribe_answers_def
      set_handler_def session_shutdown_def split: sum.splits if_splits)

lemma follows_step: "session_step l cd x y \<Longrightarrow> follows (snd x) (snd y)"
  by (induction rule: session_step.induct) (auto simp: follows_caller intro: follows_engine)

text \<open>A channel \<open>tx\<close> registered for \<open>rid\<close> is never given to another request, and what it answers carries \<open>rid\<close>.\<close>

definition bound_to :: "string \<Rightarrow> nat \<Rightarrow> session \<Rightarrow> bool" where
  "bound_to rid tx s \<longleftrightarrow> tx < ss_channels s \<and> (\<forall>r. (r, tx) \<in> owners s \<longrightarrow> r = rid) \<and>
     (\<forall>v. (tx, Inr v) \<in> set (ss_answers s) \<longrightarrow> get_str v ''request_id'' = Some rid)"

lemma bound_to_follows:
  assumes f: "follows s s'" and b: "bound_to rid tx s"
  shows "bound_to rid tx s'"
proof -
  have c: "tx < ss_channels s" "ss_channels s \<le> ss_channels s'" using f b by (auto simp: follows_def bound_to_def)
  have "r = rid" if "(r, tx) \<in> owners s'" for r
  proof -
    have "(r, tx) \<in> owners s" using f that c(1) unfolding follows_def by fastforce
    then show ?thesis using b by (simp add: bound_to_def)
  qed
  moreover have "get_str v ''request_id'' = Some rid" if v: "(tx, Inr v) \<in> set (ss_answers s')" for v
  proof -
    have "(tx, Inr v) \<in> set (ss_answers s) \<or> (\<exists>r. (r, tx) \<in> owners s \<and> get_str v ''request_id'' = Some r)"
      using f v unfolding follows_def by blast
    then show ?thesis using b unfolding bound_to_def by blast
  qed
  ultimately show ?thesis using c by (simp add: bound_to_def)
qed

interpretation binding: session_invariant l cd "\<lambda>x. bound_to rid tx (snd x)" for l cd rid tx
  by unfold_locales (blast intro: bound_to_follows follows_step)
lemma count_answers: "count (mset (map fst as)) tx = length (filter (\<lambda>a. fst a = tx) as)"
  by (induction as) auto

lemma run_trans: "session_run l cd y z \<Longrightarrow> session_run l cd x y \<Longrightarrow> session_run l cd x z"
  by (induction rule: session_run.induct) (auto intro: session_run.intros)

lemma bound_to_register:
  assumes r: "request_register l env timeout now s = (s1, Inr (rid, tx))" and ok: "channels_ok s"
  shows "bound_to rid tx s1"
proof -
  have s1: "tx = ss_channels s" "s1 = s\<lparr>ss_channels := Suc tx, ss_replies := hm_insert rid (tx, now + timeout) (ss_replies s)\<rparr>"
    using r by (auto simp: request_register_def Let_def split: option.splits if_splits)
  have "count (ends s) tx \<le> (if tx < ss_channels s then 1 else 0)" using ok unfolding channels_ok_def by blast
  then have z: "tx \<notin># ends s" using s1(1) by (simp add: not_in_iff)
  have "\<not> (\<exists>r. (r, tx) \<in> owners s)"
  proof
    assume "\<exists>r. (r, tx) \<in> owners s"
    then obtain r d where "(r, tx, d) \<in> set (ss_replies s) \<or> (r, tx, d) \<in> set (ss_pending s)" unfolding owners_mem by blast
    then have "tx \<in> fst ` snd ` set (ss_replies s) \<or> tx \<in> fst ` snd ` set (ss_pending s)" by force
    then show False using z by (auto simp: ends_def slots_def image_comp)
  qed
  moreover have "(tx, x) \<notin> set (ss_answers s)" for x
    using z by (force simp: ends_def)
  moreover have "(r, tx) \<in> owners s1 \<Longrightarrow> (r, tx) \<in> owners s \<or> r = rid" for r
    using set_hm_insert [of rid "(tx, now + timeout)" "ss_replies s"] unfolding owners_mem s1(2) by auto
  ultimately show ?thesis using s1 by (auto simp: bound_to_def)
qed

text \<open>C13. A request on a session gets its own answer, and at most one: for a reply channel that
  \<open>request\<close> registers under a request identity, whatever callers and the engine do then, in whatever
  order, at most one message is ever sent on that channel, and when it is a document of the
  peer it carries that request identity.\<close>

theorem request_answered_once:
  assumes "session_run l cd (AtTop, spawn io sid peer t0) (pc, s)"
    "request_register l env timeout now s = (s1, Inr (rid, tx))"
    "session_run l cd (pc, s1) (pc', s')"
  shows "length (filter (\<lambda>a. fst a = tx) (ss_answers s')) \<le> 1 \<and>
     (\<forall>v. (tx, Inr v) \<in> set (ss_answers s') \<longrightarrow> get_str v ''request_id'' = Some rid)"
proof -
  have s1: "s1 = caller_step l cd (OpRegister env timeout now) s" using assms(2) by simp
  have "session_step l cd (pc, s) (pc, s1)" unfolding s1 by (rule session_step.caller)
  then have r: "session_run l cd (AtTop, spawn io sid peer t0) (pc, s1)" using assms(1) by (rule session_run.more [rotated])
  have "channels_ok s'"
    using channels.along_run [OF run_trans [OF assms(3) r]] by simp
  then have "count (ends s') tx \<le> (if tx < ss_channels s' then 1 else 0)" unfolding channels_ok_def by blast
  then have "count (ends s') tx \<le> 1" by (simp split: if_splits)
  then have "length (filter (\<lambda>a. fst a = tx) (ss_answers s')) \<le> 1"
    unfolding count_answers [symmetric] ends_def by simp
  moreover have "bound_to rid tx s'"
    using binding.along_run [OF assms(3), of rid tx] bound_to_register [OF assms(2)] channels.along_run [OF assms(1)] by simp
  ultimately show ?thesis by (simp add: bound_to_def)
qed

subsection \<open>Detachment\<close>

text \<open>A session is detached exactly when its engine has stopped.\<close>

definition halted :: "engine_pc \<times> session \<Rightarrow> bool" where
  "halted x \<longleftrightarrow> (ss_state (snd x) = Detached \<longleftrightarrow> fst x = Stopped)"

lemma detach_state [simp]: "ss_state (detach r s) = Detached" "ss_replies (detach r s) = []" "ss_pending (detach r s) = []"
  "io_poisoned (ss_io (detach r s))" "ss_wire (detach r s) = ss_wire s" "ss_handled (detach r s) = ss_handled s"
  by (simp_all add: detach_def fail_all_def poison_def)

lemma flush_state: "flush_one env now s = Some (s', r) \<Longrightarrow> ss_state s' = ss_state s"
  by (auto simp: flush_one_def Let_def split: list.splits option.splits if_splits)

lemma drain_state [simp]: "ss_state (drain_command l now c s) = ss_state s"
  by (cases c) (auto simp: send_reply_def Let_def split: option.split)

lemma quiet_state [simp]: "ss_state (expire_pending now s) = ss_state s" "ss_state (heartbeat_due l cd now token s) = ss_state s"
    "ss_state (session_dispatch now env s) = Detached \<longleftrightarrow> ss_state s = Detached" "ss_state (close_session l cd token sent s) = Detached"
  by (auto simp: expire_pending_def heartbeat_due_def session_dispatch_def handle_inbound_def note_inbound_def send_reply_def
      close_session_def Let_def split: option.split sum.split)

lemma caller_state [simp]: "ss_state (caller_step l cd op s) = ss_state s"
  by (cases op) (auto simp: send_control_def send_data_def request_register_def request_enqueue_def request_turn_def send_cmd_def
      subscribe_answers_def unsubscribe_answers_def set_handler_def session_shutdown_def Let_def
      split: option.split sum.split)

lemma halted_engine:
  assumes "engine_step l cd e pc s = Some (pc', s')" "halted (pc, s)"
  shows "halted (pc', s')"
  using assms
proof (induction l cd e pc s rule: engine_step.induct)
  case (2 l cd e s)
  then show ?case by (auto simp: halted_def split: list.splits)
next
  case (5 l cd e s)
  then show ?case by (auto simp: halted_def check_timers_def set_state_def Let_def split: if_splits)
next
  case (7 l cd e s)
  then show ?case by (auto simp: halted_def split: option.splits sum.splits)
next
  case (10 l cd e s)
  then show ?case by (auto simp: halted_def dest: flush_state split: option.splits sum.splits if_splits)
qed (auto simp: halted_def split: if_splits)

lemma halted_step: "session_step l cd x y \<Longrightarrow> halted x \<Longrightarrow> halted y"
  by (induction rule: session_step.induct) (auto dest: halted_engine simp: halted_def)

interpretation halting: session_invariant l cd halted for l cd
  by unfold_locales (rule halted_step)

lemma halted_spawn [simp]: "halted (AtTop, spawn io sid peer now)"
  by (simp add: halted_def spawn_def)

text \<open>What a detached session still does: nothing a peer or a waiter could see.\<close>

definition silent_since :: "session \<Rightarrow> engine_pc \<times> session \<Rightarrow> bool" where
  "silent_since s0 x \<longleftrightarrow> fst x = Stopped \<and> ss_state (snd x) = Detached \<and> ss_wire (snd x) = ss_wire s0 \<and>
     ss_answers (snd x) = ss_answers s0 \<and> ss_handled (snd x) = ss_handled s0 \<and> ss_commands (snd x) = ss_commands s0 \<and>
     ss_pending (snd x) = ss_pending s0"

lemma silent_caller:
  assumes "ss_state s = Detached"
  shows "ss_wire (caller_step l cd op s) = ss_wire s" "ss_answers (caller_step l cd op s) = ss_answers s"
    "ss_handled (caller_step l cd op s) = ss_handled s" "ss_commands (caller_step l cd op s) = ss_commands s"
    "ss_pending (caller_step l cd op s) = ss_pending s"
  using assms by (cases op; auto simp: send_control_def send_data_def request_register_def request_enqueue_def request_turn_def send_cmd_def
      subscribe_answers_def unsubscribe_answers_def set_handler_def session_shutdown_def Let_def
      split: option.split sum.split)+

lemma silent_step: "session_step l cd x y \<Longrightarrow> silent_since s0 x \<Longrightarrow> silent_since s0 y"
proof (induction rule: session_step.induct)
  case (engine e pc s pc' s')
  then show ?case by (auto simp: silent_since_def)
next
  case (caller pc s op)
  then show ?case by (simp add: silent_since_def silent_caller)
qed

interpretation silence: session_invariant l cd "silent_since s0" for l cd s0
  by unfold_locales (rule silent_step)
lemma stop_answers:
  assumes "engine_step l cd e pc s = Some (Stopped, s')" "pc \<noteq> Stopped"
  shows "ends s' = ends s" "ss_replies s' = []" "ss_pending s' = []"
proof -
  have "ends s' = ends s \<and> ss_replies s' = [] \<and> ss_pending s' = []"
    using assms
  proof (induction l cd e pc s rule: engine_step.induct)
    case (1 l cd e s)
    then show ?case using ends_close [of l cd "ee_token e" "ee_notice_sent e" s] by (auto simp: close_session_def Let_def split: if_splits)
  next
    case (5 l cd e s)
    then show ?case by (auto simp: check_timers_def Let_def ends_detach split: if_splits)
  next
    case (10 l cd e s)
    then obtain s1 r where "flush_one (ee_flush e) (ee_now e) s = Some (s1, r)" "s' = detach ''frame deadline exceeded'' s1"
      by (auto split: option.splits sum.splits if_splits)
    then show ?case using ends_flush [of "ee_flush e" "ee_now e" s s1 r] by (simp add: ends_detach)
  qed (auto simp: ends_detach split: if_splits list.splits option.splits sum.splits)
  then show "ends s' = ends s" "ss_replies s' = []" "ss_pending s' = []" by simp_all
qed

lemma senders_ends: "tx \<in> set (senders s) \<Longrightarrow> tx \<in># ends s"
  by (auto simp: senders_def ends_def slots_def image_comp)

text \<open>C14. Detachment is final and leaves nobody waiting: the step in which the engine stops answers
  every waiter that has a slot at that moment, and from then on, whatever the callers do, the session
  is detached, admits nothing, puts no frame on the wire, sends no answer, hands nothing to
  the handler and accepts no control message.\<close>

theorem detached_session_final:
  assumes "session_run l cd (AtTop, spawn io sid peer t0) (pc, s)" "pc \<noteq> Stopped"
    "engine_step l cd e pc s = Some (Stopped, s')" "session_run l cd (Stopped, s') (pc', s'')"
  shows "pc' = Stopped \<and> ss_state s'' = Detached \<and> \<not> admissible s'' \<and>
     (\<forall>tx \<in> set (senders s). \<exists>r. (tx, r) \<in> set (ss_answers s'')) \<and>
     ss_wire s'' = ss_wire s' \<and> ss_answers s'' = ss_answers s' \<and> ss_handled s'' = ss_handled s' \<and>
     (\<forall>env. \<exists>err. send_control l cd env s'' = (s'', Inl err))"
proof -
  have h: "halted (Stopped, s')"
    using halted_engine [OF assms(3)] halting.along_run [OF assms(1)] by simp
  then have "silent_since s' (Stopped, s')" by (simp add: silent_since_def halted_def)
  then have q: "silent_since s' (pc', s'')" using silence.along_run [OF assms(4)] by blast
  have "\<exists>r. (tx, r) \<in> set (ss_answers s'')" if "tx \<in> set (senders s)" for tx
  proof -
    have "tx \<in># ends s'" using senders_ends [OF that] stop_answers [OF assms(3,2)] by simp
    then have "tx \<in> fst ` set (ss_answers s')" using stop_answers [OF assms(3,2)] by (simp add: ends_def)
    then show ?thesis using q by (auto simp: silent_since_def)
  qed
  moreover have "\<exists>err. send_control l cd env s'' = (s'', Inl err)" for env
    using q by (simp add: send_control_def silent_since_def send_cmd_keeps(9) split: sum.split)
  ultimately show ?thesis using q by (simp add: silent_since_def admissible_def)
qed

subsection \<open>Progress\<close>

lemma flush_rounds_returns:
  "deadline \<le> fe_clock env (n + k) \<Longrightarrow> \<exists>sent. flush_rounds env deadline len n fed = Some sent"
proof (induction k arbitrary: n fed)
  case 0
  then show ?case by (subst flush_rounds.simps) auto
next
  case (Suc k)
  have "\<exists>sent. flush_rounds env deadline len (n + 1) fed' = Some sent" for fed'
    using Suc.IH [of "n + 1" fed'] Suc.prems by simp
  then show ?case by (subst flush_rounds.simps) (auto split: option.split)
qed

lemma flush_one_returns:
  assumes "\<forall>f \<in> set (ss_control_q s) \<union> set (ss_data_q s). \<exists>n. qf_deadline f \<le> fe_clock env n"
  shows "\<exists>x. flush_one env now s = Some x"
proof -
  have r: "\<exists>sent. flush_rounds env (qf_deadline f) len 0 0 = Some sent"
    if f: "f \<in> set (ss_control_q s) \<union> set (ss_data_q s)" for f len
  proof -
    obtain n where "qf_deadline f \<le> fe_clock env n" using assms f by blast
    then show ?thesis using flush_rounds_returns [of "qf_deadline f" env 0 n len 0] by simp
  qed
  show ?thesis
  proof (cases "ss_control_q s")
    case (Cons f q)
    then obtain sent where "flush_rounds env (qf_deadline f) (length (qf_bytes f)) 0 0 = Some sent" using r [of f] by auto
    then show ?thesis using Cons by (simp add: flush_one_def)
  next
    case Nil
    show ?thesis
    proof (cases "ss_data_q s")
      case (Cons f q)
      then obtain sent where "flush_rounds env (qf_deadline f) (length (qf_bytes f)) 0 0 = Some sent" using r [of f] by auto
      then show ?thesis using Nil Cons by (simp add: flush_one_def)
    qed (simp add: flush_one_def Nil)
  qed
qed

definition reader_ok :: "session_limits \<Rightarrow> engine_pc \<times> session \<Rightarrow> bool" where
  "reader_ok l x \<longleftrightarrow> fst x = Stopped \<or> between (sl_max_frame l) (io_assembler (ss_io (snd x)))"

lemma quiet_assembler [simp]: "ss_io (expire_pending now s) = ss_io s" "ss_io (heartbeat_due l cd now token s) = ss_io s"
    "io_assembler (ss_io (session_dispatch now env s)) = io_assembler (ss_io s)"
  by (auto simp: expire_pending_def heartbeat_due_def session_dispatch_def handle_inbound_def note_inbound_def send_reply_def Let_def
      split: option.split sum.split)

lemma reader_engine:
  assumes "engine_step l cd e pc s = Some (pc', s')" "reader_ok l (pc, s)"
  shows "reader_ok l (pc', s')"
  using assms
proof (induction l cd e pc s rule: engine_step.induct)
  case (2 l cd e s)
  have "ss_io (drain_command l now c s) = ss_io s" for now c s
    by (cases c) (auto simp: send_reply_def Let_def split: option.split)
  then show ?case using 2 by (auto simp: reader_ok_def split: list.splits)
next
  case (5 l cd e s)
  then show ?case by (auto simp: reader_ok_def check_timers_def set_state_def Let_def split: if_splits)
next
  case (7 l cd e s)
  then have "between (sl_max_frame l) (io_assembler (ss_io s))" by (simp add: reader_ok_def)
  then obtain io r where "pump_reads (decode_frame (ee_utf8 e) (cd_parse cd)) (sl_max_frame l) (ee_read e) (ss_io s) = Some (io, r)"
    "\<forall>vs. r = Inr vs \<longrightarrow> between (sl_max_frame l) (io_assembler io)"
    using pump_reads_total [of "sl_max_frame l" "ss_io s" "decode_frame (ee_utf8 e) (cd_parse cd)" "ee_read e"] by blast
  then show ?case using 7 by (cases r) (auto simp: reader_ok_def)
next
  case (10 l cd e s)
  have "flush_one env now s = Some (s1, r) \<Longrightarrow> io_assembler (ss_io s1) = io_assembler (ss_io s)" for env now s1 r
    by (auto simp: flush_one_def poison_def Let_def split: list.splits option.splits if_splits)
  then show ?case using 10 by (auto simp: reader_ok_def split: option.splits sum.splits if_splits)
qed (auto simp: reader_ok_def split: if_splits)

lemma reader_step: "session_step l cd x y \<Longrightarrow> reader_ok l x \<Longrightarrow> reader_ok l y"
proof (induction rule: session_step.induct)
  case (caller pc s op)
  have "ss_io (caller_step l cd op s) = ss_io s"
    by (cases op) (auto simp: send_control_def send_data_def request_register_def request_enqueue_def request_turn_def send_cmd_def
      subscribe_answers_def unsubscribe_answers_def set_handler_def session_shutdown_def Let_def
      split: option.split sum.split)
  then show ?case using caller by (simp add: reader_ok_def)
qed (blast intro: reader_engine)

interpretation reading: session_invariant l cd "reader_ok l" for l cd
  by unfold_locales (rule reader_step)

text \<open>C16. The engine of a session is never stuck: in every state that a session reaches, and whatever bytes the
  peer sends, the next step of the engine returns, provided that the clock passes the
  deadline of each queued frame in the course of the rounds of a write. In particular the loops that
  cut the stream into frames end on every input.\<close>

theorem engine_step_returns:
  assumes "session_run l cd (AtTop, spawn tls_io_new sid peer t0) (pc, s)"
    "\<forall>f \<in> set (ss_control_q s) \<union> set (ss_data_q s). \<exists>n. qf_deadline f \<le> fe_clock (ee_flush e) n"
  shows "\<exists>pc' s'. engine_step l cd e pc s = Some (pc', s')"
proof -
  have "reader_ok l (AtTop, spawn tls_io_new sid peer t0)" by (simp add: reader_ok_def spawn_def tls_io_new_def)
  then have r: "reader_ok l (pc, s)" using reading.along_run [OF assms(1)] by blast
  show ?thesis
  proof (cases pc)
    case Reading
    then have "between (sl_max_frame l) (io_assembler (ss_io s))" using r by (simp add: reader_ok_def)
    then obtain io x where "pump_reads (decode_frame (ee_utf8 e) (cd_parse cd)) (sl_max_frame l) (ee_read e) (ss_io s) = Some (io, x)"
      using pump_reads_total by blast
    then show ?thesis using Reading by (cases x) simp_all
  next
    case (Dispatching vs)
    then show ?thesis by (cases vs) simp_all
  next
    case Flushing
    obtain s1 x where "flush_one (ee_flush e) (ee_now e) s = Some (s1, x)" using flush_one_returns [OF assms(2)] by fast
    then show ?thesis using Flushing by (cases x) simp_all
  qed (simp_all split: list.split prod.split)
qed

text \<open>The memory a peer or a caller can make a session hold is bounded: along every run the command
  channel, the control and the data queue, the slots of waiting requests on both sides and the
  subscriptions stay within the limits the session was opened with.\<close>

theorem session_resources_bounded:
  assumes "session_run l cd (AtTop, spawn io sid peer t0) (pc, s)"
  shows "length (ss_commands s) \<le> sl_commands l \<and> length (ss_control_q s) \<le> sl_control_queue l \<and>
     length (ss_data_q s) \<le> sl_data_queue l \<and> length (ss_pending s) \<le> sl_max_pending l \<and>
     length (ss_replies s) \<le> sl_max_pending l \<and> length (ss_multi s) \<le> sl_max_pending l"
proof -
  have "bounded l s" using bounds.along_run [OF assms] by simp
  then show ?thesis by (simp add: bounded_def)
qed
subsection \<open>A late answer\<close>

text \<open>Runs given by the steps of the engine and of the callers.\<close>

fun session_exec ::
  "session_limits \<Rightarrow> codec \<Rightarrow> (engine_env + caller_op) list \<Rightarrow> engine_pc \<times> session \<Rightarrow> (engine_pc \<times> session) option" where
  "session_exec l cd [] x = Some x"
| "session_exec l cd (Inl e # xs) (pc, s) = (case engine_step l cd e pc s of None \<Rightarrow> None | Some y \<Rightarrow> session_exec l cd xs y)"
| "session_exec l cd (Inr op # xs) (pc, s) = session_exec l cd xs (pc, caller_step l cd op s)"

lemma exec_run: "session_exec l cd xs x = Some y \<Longrightarrow> session_run l cd x y"
proof (induction l cd xs x rule: session_exec.induct)
  case (2 l cd e xs pc s)
  then obtain z where z: "engine_step l cd e pc s = Some z" "session_exec l cd xs z = Some y" by (auto split: option.splits)
  then have "session_step l cd (pc, s) z" by (cases z) (auto intro: session_step.engine)
  then have "session_run l cd (pc, s) z" by (rule session_run.more [OF session_run.start])
  then show ?case using run_trans [OF 2(1) [OF z]] by blast
next
  case (3 l cd op xs pc s)
  have "session_step l cd (pc, s) (pc, caller_step l cd op s)" by (rule session_step.caller)
  then have "session_run l cd (pc, s) (pc, caller_step l cd op s)" by (rule session_run.more [OF session_run.start])
  moreover have "session_run l cd (pc, caller_step l cd op s) y" using 3 by simp
  ultimately show ?case using run_trans by blast
qed (auto intro: session_run.start)

text \<open>A peer whose documents are all the result of the request \<open>r\<close>, and an engine on a connection that works.\<close>

definition late_result :: json where
  "late_result = JObj [(''type'', JStr ''call.result''), (''request_id'', JStr ''r'')]"

definition one_document :: codec where
  "one_document = \<lparr>cd_text = (\<lambda>_. ''{}''), cd_parse = (\<lambda>_. Inr late_result)\<rparr>"

definition working :: "chunk list \<Rightarrow> engine_env" where
  "working cs = \<lparr>ee_now = 0, ee_token = Inr ''0123456789abcdef'', ee_notice_sent = True, ee_poll = True, ee_utf8 = (\<lambda>_. []),
     ee_read = \<lparr>re_complete = TlsOk, re_packets = None, re_chunks = cs\<rparr>,
     ee_flush = \<lparr>fe_clock = (\<lambda>n. n), fe_write = (\<lambda>n k. Inr k), fe_wants_write = (\<lambda>_. False), fe_drive = (\<lambda>_. True)\<rparr>\<rparr>"

definition request_r :: json where
  "request_r = JObj [(''request_id'', JStr ''r'')]"

definition fresh_session :: session where
  "fresh_session = spawn tls_io_new ''s'' ''p'' 0"

text \<open>The request \<open>r\<close> is sent and its caller gives up; a second request \<open>r\<close> is registered and drained.\<close>

definition ask_twice :: "(engine_env + caller_op) list" where
  "ask_twice = (let w = Inl (working []) in
     [Inr (OpRegister request_r 100 0), Inr (OpEnqueue request_r 100 ''r''), w, w, w, w, w, w, w, w, w, w, w,
      Inr (OpTurn True 100 0 ''r'' 0), Inr (OpRegister request_r 100 0), Inr (OpEnqueue request_r 100 ''r''), w, w, w, w, w, w, w])"

lemma encode_one [simp]: "encode_frame one_document v DEFAULT_MAX_FRAME = Inr (on_wire ''{}'')"
  by (simp add: encode_frame_def one_document_def encode_def on_wire_def DEFAULT_MAX_FRAME_def)

lemma flush_working [simp]: "1 < d \<Longrightarrow> flush_rounds (ee_flush (working cs)) d len 0 0 = Some True"
  by (subst flush_rounds.simps) (simp add: working_def feed_writer_def)

lemma pump_idle [simp]: "io_plain io = [] \<Longrightarrow> \<not> io_eof io \<Longrightarrow> pump_reads dec mx (ee_read (working [])) io = Some (io, Inr [])"
  by (simp add: pump_reads_def working_def)

lemma working_simps [simp]: "ee_now (working cs) = 0" "ee_poll (working cs)"
  by (simp_all add: working_def)

lemma limits_simps [simp]: "sl_control_queue session_limits_default = 128" "sl_max_pending session_limits_default = 256" "sl_commands session_limits_default = 256"
  "sl_frame_budget session_limits_default = 5 * 10 ^ 9" "sl_heartbeat_interval session_limits_default = 10 ^ 9"
  "sl_suspect_after session_limits_default = 5 * 10 ^ 9" "sl_detach_after session_limits_default = 15 * 10 ^ 9"
  by (simp_all add: session_limits_default_def)

lemma feed_chunk_one:
  assumes "sendable mx p" "io_assembler io = assembler_new"
  shows "feed_chunk dec mx (on_wire p) out io =
     Some ((io\<lparr>io_malformed := io_malformed io + undecoded dec [p]\<rparr>, out @ decoded dec [p]), Inr ())"
proof -
  have h: "holds mx (io_assembler io) []" using assms by simp
  obtain a where a: "feed mx (on_wire p) (io_assembler io) = Some (a, Inr [])" "as_pending a = Some (length p)" "as_body a = p"
    using feed_frame(2) [OF h assms(1), of "on_wire p" "[]" "[]"] by auto
  have "take_frames dec False out (io\<lparr>io_assembler := a\<rparr>) =
     ((io\<lparr>io_assembler := assembler_new, io_malformed := io_malformed io + undecoded dec [p]\<rparr>, out @ decoded dec [p]), Inr True)"
    using take_frames_one [of "io\<lparr>io_assembler := a\<rparr>" p] a by simp
  then show ?thesis using a(1) assms(2) [symmetric] by (subst feed_chunk.simps) simp
qed

lemma decode_late: "decode_frame (ee_utf8 (working cs)) (cd_parse one_document) ''{}'' = Inr late_result"
proof -
  have "decode_frame (\<lambda>_. []) (\<lambda>_. Inr late_result) ''{}'' = Inr late_result" by code_simp
  then show ?thesis by (simp add: working_def one_document_def)
qed

lemma pump_late [simp]:
  assumes "io_plain io = []" "\<not> io_eof io" "io_assembler io = assembler_new"
  shows "pump_reads (decode_frame (ee_utf8 (working [Data (on_wire ''{}'')])) (cd_parse one_document)) (sl_max_frame session_limits_default)
     (ee_read (working [Data (on_wire ''{}'')])) io = Some (io, Inr [late_result])"
proof -
  let ?dec = "decode_frame (ee_utf8 (working [Data (on_wire ''{}'')])) (cd_parse one_document)"
  have d: "decoded ?dec [''{}''] = [late_result]" "undecoded ?dec [''{}''] = 0"
    using decode_late [of "[Data (on_wire ''{}'')]"] by (simp_all add: decoded_def undecoded_def filter_map_def List.map_filter_def)
  have "sendable (sl_max_frame session_limits_default) ''{}''" by (simp add: sendable_def session_limits_default_def DEFAULT_MAX_FRAME_def)
  then have "feed_chunk ?dec (sl_max_frame session_limits_default) (on_wire ''{}'') [] io = Some ((io, [late_result]), Inr ())"
    using feed_chunk_one [OF _ assms(3), of "sl_max_frame session_limits_default" "''{}''" ?dec "[]"] d by simp
  moreover have "on_wire ''{}'' \<noteq> []" by (simp add: on_wire_def to_be_bytes_def)
  moreover have "re_complete (ee_read (working cs)) = TlsOk" "re_packets (ee_read (working cs)) = None" "re_chunks (ee_read (working cs)) = cs" for cs
    by (simp_all add: working_def)
  ultimately show ?thesis using assms by (simp add: pump_reads_def Let_def)
qed

lemmas session_evals = request_register_def request_enqueue_def request_r_def get_str_def j_get_def
  send_cmd_def fresh_session_def spawn_def Let_def expire_pending_def heartbeat_due_def check_timers_def flush_one_def queued_def
  hm_contains_def hm_insert_def hm_remove_def hm_retain_def answer_all_def request_turn_def tls_io_new_def
  session_dispatch_def note_inbound_def send_reply_def late_result_def


text \<open>The first request alone: it is sent, and the document that arrives is its answer.\<close>

theorem request_answered_once_witness:
  "\<exists>s1 pc s. request_register session_limits_default request_r 100 0 fresh_session = (s1, Inr (''r'', 0)) \<and>
     session_run session_limits_default one_document (AtTop, s1) (pc, s) \<and> ss_answers s = [(0, Inr late_result)] \<and>
     length (filter (\<lambda>a. fst a = 0) (ss_answers s)) \<le> 1 \<and> get_str late_result ''request_id'' = Some ''r''"
proof -
  let ?w = "Inl (working [])"
  obtain s1 where s1: "request_register session_limits_default request_r 100 0 fresh_session = (s1, Inr (''r'', 0))"
    by (simp add: session_evals)
  have "s1 = fst (request_register session_limits_default request_r 100 0 fresh_session)" using s1 by simp
  then obtain pc s where x: "session_exec session_limits_default one_document
      [Inr (OpEnqueue request_r 100 ''r''), ?w, ?w, ?w, ?w, ?w, ?w, ?w, Inl (working [Data (on_wire ''{}'')]), ?w] (AtTop, s1) = Some (pc, s)"
    "ss_answers s = [(0, Inr late_result)]"
    by (simp add: session_evals)
  have r: "session_run session_limits_default one_document (AtTop, spawn tls_io_new ''s'' ''p'' 0) (AtTop, fresh_session)"
    unfolding fresh_session_def by (rule session_run.start)
  show ?thesis using request_answered_once [OF r s1 exec_run [OF x(1)]] s1 exec_run [OF x(1)] x(2)
    by (intro exI [of _ s1] exI [of _ pc] exI [of _ s]) simp
qed

text \<open>A session that is shut down while a request waits.\<close>

theorem detached_session_final_witness:
  "\<exists>s s'. session_run session_limits_default one_document (AtTop, fresh_session) (AtTop, s) \<and> senders s = [0] \<and>
     engine_step session_limits_default one_document (working []) AtTop s = Some (Stopped, s') \<and>
     ss_state s' = Detached \<and> \<not> admissible s' \<and> (\<exists>r. (0, r) \<in> set (ss_answers s'))"
proof -
  obtain s where s: "session_exec session_limits_default one_document [Inr (OpRegister request_r 100 0), Inr OpShutdown] (AtTop, fresh_session)
      = Some (AtTop, s)" "senders s = [0]" "ss_shutdown s"
    by (simp add: session_evals session_shutdown_def senders_def)
  then have r: "session_run session_limits_default one_document (AtTop, spawn tls_io_new ''s'' ''p'' 0) (AtTop, s)"
    using exec_run unfolding fresh_session_def by blast
  obtain s' where s': "engine_step session_limits_default one_document (working []) AtTop s = Some (Stopped, s')" using s(3) by simp
  show ?thesis
    using detached_session_final [OF r _ s' session_run.start] r s(2) s' unfolding fresh_session_def
    by (intro exI [of _ s] exI [of _ s']) simp
qed

text \<open>A write in progress on a session with a queued request.\<close>

theorem engine_step_returns_witness:
  "\<exists>s. session_run session_limits_default one_document (AtTop, fresh_session) (Flushing, s) \<and> length (ss_control_q s) = 1 \<and>
     (\<exists>pc' s'. engine_step session_limits_default one_document (working []) Flushing s = Some (pc', s'))"
proof -
  let ?w = "Inl (working [])"
  obtain s where s: "session_exec session_limits_default one_document
      [Inr (OpRegister request_r 100 0), Inr (OpEnqueue request_r 100 ''r''), ?w, ?w, ?w, ?w, ?w, ?w, ?w, ?w, ?w] (AtTop, fresh_session)
      = Some (Flushing, s)" "ss_control_q s = [\<lparr>qf_bytes = on_wire ''{}'', qf_deadline = 5000000000\<rparr>]" "ss_data_q s = []"
    by (simp add: session_evals)
  have r: "session_run session_limits_default one_document (AtTop, spawn tls_io_new ''s'' ''p'' 0) (Flushing, s)"
    using exec_run [OF s(1)] unfolding fresh_session_def .
  have "\<forall>f \<in> set (ss_control_q s) \<union> set (ss_data_q s). \<exists>n. qf_deadline f \<le> fe_clock (ee_flush (working [])) n"
    using s(2,3) by (auto simp: working_def)
  then show ?thesis using engine_step_returns [OF r, of "working []"] r s(2) unfolding fresh_session_def
    by (intro exI [of _ s]) simp
qed

text \<open>The session that was asked twice.\<close>

theorem session_resources_bounded_witness:
  "\<exists>pc s. session_run session_limits_default one_document (AtTop, fresh_session) (pc, s) \<and> length (ss_pending s) = 1 \<and>
     length (ss_control_q s) \<le> 128"
proof -
  obtain pc s where x: "session_exec session_limits_default one_document ask_twice (AtTop, fresh_session) = Some (pc, s)"
    "length (ss_pending s) = 1"
    by (simp add: ask_twice_def session_evals)
  have r: "session_run session_limits_default one_document (AtTop, spawn tls_io_new ''s'' ''p'' 0) (pc, s)"
    using exec_run [OF x(1)] unfolding fresh_session_def .
  show ?thesis using session_resources_bounded [OF r] x(2) r unfolding fresh_session_def
    by (intro exI [of _ pc] exI [of _ s]) simp
qed

end
