(* ===== verification/Mx_Handshake.thy ===== *)
theory Mx_Handshake
  imports Mx_Waits
begin

text \<open>
  The opening of a remote session (\<open>recv_frame\<close>, \<open>connect\<close> and \<open>accept\<close> of
  matrix-runtime/src/session.rs): one frame each way before the engine is started. The TLS
  handshake, the negotiated protocol and the fingerprint of the peer are answers of the
  TLS library.
\<close>

declare map_of_eq_Some_iff [simp del] Some_eq_map_of_iff [simp del]

subsection \<open>One frame\<close>

text \<open>As \<open>take_frames\<close>, but the documents are kept in the transport and a malformed one ends the connection.\<close>

function stash_frames :: "(string \<Rightarrow> (string, json) result) \<Rightarrow> bool \<Rightarrow> tls_io \<Rightarrow> tls_io \<times> (string, bool) result" where
  "stash_frames dec took io =
     (case take_frame (io_assembler io) of
        (a, Inl e) \<Rightarrow> (poison (io\<lparr>io_assembler := a\<rparr>), Inl e)
      | (a, Inr None) \<Rightarrow> (io\<lparr>io_assembler := a\<rparr>, Inr took)
      | (a, Inr (Some raw)) \<Rightarrow>
          (case dec raw of
             Inr v \<Rightarrow> stash_frames dec True (io\<lparr>io_assembler := a, io_stash := io_stash io @ [v]\<rparr>)
           | Inl e \<Rightarrow> (poison (io\<lparr>io_assembler := a\<rparr>), Inl e)))"
  by pat_completeness auto
termination
  by (relation "measure (\<lambda>(dec, took, io). if has_frame (io_assembler io) then 1 else 0)")
    (auto dest!: take_frame_shrinks [OF sym])

declare stash_frames.simps [simp del]

partial_function (option) stash_chunk ::
  "(string \<Rightarrow> (string, json) result) \<Rightarrow> nat \<Rightarrow> string \<Rightarrow> tls_io \<Rightarrow> (tls_io \<times> (string, unit) result) option" where
  "stash_chunk dec max_frame rest io =
     (case feed max_frame rest (io_assembler io) of
        None \<Rightarrow> None
      | Some (a, Inl _) \<Rightarrow> Some (poison (io\<lparr>io_assembler := a\<rparr>), Inl ''frame too large'')
      | Some (a, Inr rest') \<Rightarrow>
          (case stash_frames dec False (io\<lparr>io_assembler := a\<rparr>) of
             (io1, Inl e) \<Rightarrow> Some (io1, Inl e)
           | (io1, Inr took) \<Rightarrow>
               if rest' = [] then Some (io1, Inr ())
               else if \<not> took then Some (poison io1, Inl ''assembler stall'')
               else stash_chunk dec max_frame rest' io1))"

fun stash_chunks ::
  "(string \<Rightarrow> (string, json) result) \<Rightarrow> nat \<Rightarrow> chunk list \<Rightarrow> tls_io \<Rightarrow> (tls_io \<times> (string, unit) result) option" where
  "stash_chunks dec max_frame [] io = Some (io\<lparr>io_plain := []\<rparr>, Inr ())"
| "stash_chunks dec max_frame (Broken e # cs) io = Some (io\<lparr>io_plain := cs\<rparr>, Inl e)"
| "stash_chunks dec max_frame (Data d # cs) io =
     (if d = [] then Some (io\<lparr>io_plain := cs\<rparr>, Inr ())
      else (case stash_chunk dec max_frame d io of
              None \<Rightarrow> None
            | Some (io1, Inl e) \<Rightarrow> Some (io1\<lparr>io_plain := cs\<rparr>, Inl e)
            | Some (io1, Inr _) \<Rightarrow> stash_chunks dec max_frame cs io1))"

record recv_env =
  rv_clock :: "nat \<Rightarrow> nat"
  rv_read :: "nat \<Rightarrow> read_env"
  rv_poll :: "nat \<Rightarrow> (string, bool) result"

definition recv_round ::
  "(string \<Rightarrow> (string, json) result) \<Rightarrow> nat \<Rightarrow> read_env \<Rightarrow> tls_io \<Rightarrow> (tls_io \<times> (string, unit) result) option" where
  "recv_round dec max_frame env io =
     (case re_complete env of
        TlsError e \<Rightarrow> Some (io, Inl e)
      | round \<Rightarrow>
          (let io1 = (if round = TlsEof then io\<lparr>io_eof := True\<rparr> else io) in
           case re_packets env of
             Some e \<Rightarrow> Some (io1, Inl e)
           | None \<Rightarrow> stash_chunks dec max_frame (io_plain io1 @ re_chunks env) io1))"

partial_function (option) recv_frame ::
  "(string \<Rightarrow> (string, json) result) \<Rightarrow> nat \<Rightarrow> recv_env \<Rightarrow> nat \<Rightarrow> nat \<Rightarrow> tls_io \<Rightarrow> (tls_io \<times> (string, json option) result) option" where
  "recv_frame dec max_frame env deadline n io =
     (case io_stash io of
        v # vs \<Rightarrow> Some (io\<lparr>io_stash := vs\<rparr>, Inr (Some v))
      | [] \<Rightarrow>
          (case take_frame (io_assembler io) of
             (a, Inl e) \<Rightarrow> Some (io\<lparr>io_assembler := a\<rparr>, Inl e)
           | (a, Inr (Some raw)) \<Rightarrow> Some (io\<lparr>io_assembler := a\<rparr>, case dec raw of Inl e \<Rightarrow> Inl e | Inr v \<Rightarrow> Inr (Some v))
           | (a, Inr None) \<Rightarrow>
               if io_eof io then Some (io, Inr None)
               else if deadline \<le> rv_clock env n then Some (io, Inl ''timeout'')
               else (case recv_round dec max_frame (rv_read env n) io of
                       None \<Rightarrow> None
                     | Some (io1, Inl e) \<Rightarrow> Some (io1, Inl e)
                     | Some (io1, Inr _) \<Rightarrow>
                         if has_frame (io_assembler io1) \<or> io_stash io1 \<noteq> [] then recv_frame dec max_frame env deadline (n + 1) io1
                         else if io_eof io1
                         then Some (io1, if assembler_empty (io_assembler io1) then Inr None else Inl ''truncated frame'')
                         else (case rv_poll env n of
                                 Inl e \<Rightarrow> Some (io1, Inl e)
                               | Inr ready \<Rightarrow>
                                   if ready then recv_frame dec max_frame env deadline (n + 1) io1
                                   else Some (io1, Inl ''timeout'')))))"

subsection \<open>Opening\<close>

definition REMOTE_PROFILE :: string where
  "REMOTE_PROFILE = ''matrix.remote/0.1''"

definition hello_body :: "string \<Rightarrow> string \<Rightarrow> nat \<Rightarrow> json" where
  "hello_body domain authority controller_epoch =
     JObj [(''versions'', JArr [JStr REMOTE_PROTOCOL_VERSION]),
           (''features'', JArr (map JStr [''remote-calls/1'', ''remote-streams/1'', ''remote-events/1'', ''remote-ops/1''])),
           (''domain'', JStr domain), (''authority'', JStr authority), (''controller_epoch'', JStr (show_nat controller_epoch))]"

text \<open>\<open>format!("{}:{}", e.code, e.details)\<close>; \<open>text\<close> is the printer of the JSON package.\<close>

definition show_wire_error :: "(json \<Rightarrow> string) \<Rightarrow> wire_error \<Rightarrow> string" where
  "show_wire_error text e = we_code e @ '':'' @ text (we_details e)"

definition wire_ok :: "(json \<Rightarrow> string) \<Rightarrow> (wire_error, 'a) result \<Rightarrow> (string, 'a) result" where
  "wire_ok text r = (case r of Inl e \<Rightarrow> Inl (show_wire_error text e) | Inr x \<Rightarrow> Inr x)"

definition check_hello :: "(json \<Rightarrow> string) \<Rightarrow> json \<Rightarrow> (string, unit) result" where
  "check_hello text hello =
     bind_result (wire_ok text (rm_validate_envelope hello)) (\<lambda>_.
     ensure (get_str hello ''type'' = Some ''session.hello'') ''expected session.hello'')"

text \<open>Indexing a document without the member gives null.\<close>

definition member :: "json \<Rightarrow> string \<Rightarrow> json" where
  "member v k = opt_or (j_get v k) JNull"

definition check_welcome :: "(json \<Rightarrow> string) \<Rightarrow> json \<Rightarrow> (string, json) result" where
  "check_welcome text welcome =
     bind_result (wire_ok text (rm_validate_envelope welcome)) (\<lambda>_.
     bind_result (ensure (get_str welcome ''type'' = Some ''session.welcome'') ''expected session.welcome'') (\<lambda>_.
     Inr (member welcome ''body'')))"

text \<open>What the TLS library and the socket answer while a session opens.\<close>

record dial_env =
  dl_tls :: "(string, unit) result"
  dl_alpn :: "string option"
  dl_peer :: "(string, string) result"
  dl_recv :: recv_env
  dl_recv_deadline :: nat
  dl_send :: "(string, unit) result"
  dl_token :: "nat \<Rightarrow> (string, string) result"
  dl_now :: nat

definition prefix_err :: "string \<Rightarrow> (string, 'a) result \<Rightarrow> (string, 'a) result" where
  "prefix_err p r = (case r of Inl e \<Rightarrow> Inl (p @ e) | Inr x \<Rightarrow> Inr x)"

text \<open>\<open>send_frame\<close>: the encoding, then the write, whose outcome is that of the socket.\<close>

definition send_first :: "codec \<Rightarrow> session_limits \<Rightarrow> dial_env \<Rightarrow> json \<Rightarrow> (string, unit) result" where
  "send_first cd l oe env = bind_result (encode_frame cd env (sl_max_frame l)) (\<lambda>_. dl_send oe)"

definition first_frame ::
  "(string \<Rightarrow> (string, json) result) \<Rightarrow> session_limits \<Rightarrow> string \<Rightarrow> dial_env \<Rightarrow> tls_io \<Rightarrow> (string, tls_io \<times> json) result option" where
  "first_frame dec l what oe io =
     (case recv_frame dec (sl_max_frame l) (dl_recv oe) (dl_recv_deadline oe) 0 io of
        None \<Rightarrow> None
      | Some (io1, Inl e) \<Rightarrow> Some (Inl (what @ e))
      | Some (io1, Inr None) \<Rightarrow> Some (Inl ''eof in handshake'')
      | Some (io1, Inr (Some v)) \<Rightarrow> Some (Inr (io1, v)))"

definition hello_envelope :: "dial_env \<Rightarrow> json \<Rightarrow> json" where
  "hello_envelope oe hello =
     JObj [(''protocol'', JStr REMOTE_PROTOCOL_ID), (''version'', JStr REMOTE_PROTOCOL_VERSION), (''type'', JStr ''session.hello''),
           (''message_id'', JStr (fresh_id (dl_token oe 0) ''m'')), (''body'', hello)]"

definition connect ::
  "codec \<Rightarrow> (string \<Rightarrow> string) \<Rightarrow> session_limits \<Rightarrow> dial_env \<Rightarrow> json \<Rightarrow> (string, session \<times> json) result option" where
  "connect cd utf8 l oe hello =
     (case bind_result (prefix_err ''tls-handshake:'' (dl_tls oe)) (\<lambda>_.
           bind_result (ensure (dl_alpn oe = Some REMOTE_PROFILE) ''unsupported profile'') (\<lambda>_.
           bind_result (wire_ok (cd_text cd) (rm_validate_body ''session.hello'' (member (hello_envelope oe hello) ''body''))) (\<lambda>_.
           prefix_err ''hello-send:'' (send_first cd l oe (hello_envelope oe hello))))) of
        Inl e \<Rightarrow> Some (Inl e)
      | Inr _ \<Rightarrow>
          (case first_frame (decode_frame utf8 (cd_parse cd)) l ''welcome-recv:'' oe tls_io_new of
             None \<Rightarrow> None
           | Some (Inl e) \<Rightarrow> Some (Inl e)
           | Some (Inr (io, welcome)) \<Rightarrow>
               Some (bind_result (check_welcome (cd_text cd) welcome) (\<lambda>body.
                     bind_result (case get_str welcome ''session_id'' of Some i \<Rightarrow> Inr i | None \<Rightarrow> Inl ''welcome without session_id'') (\<lambda>sid.
                     bind_result (dl_peer oe) (\<lambda>peer.
                     Inr (spawn io sid peer (dl_now oe), body)))))))"

definition welcome_envelope :: "dial_env \<Rightarrow> json \<Rightarrow> json" where
  "welcome_envelope oe body =
     session_notice ''session.welcome'' (fresh_id (dl_token oe 1) ''m'') (fresh_id (dl_token oe 0) ''sess'') body"

definition accept ::
  "codec \<Rightarrow> (string \<Rightarrow> string) \<Rightarrow> session_limits \<Rightarrow> (string \<Rightarrow> bool) \<Rightarrow> (json \<Rightarrow> (string, json) result) \<Rightarrow> dial_env \<Rightarrow>
     (string, session \<times> json) result option" where
  "accept cd utf8 l authorize welcome_body oe =
     (case bind_result (prefix_err ''tls-handshake:'' (dl_tls oe)) (\<lambda>_.
           bind_result (ensure (dl_alpn oe = Some REMOTE_PROFILE) ''unsupported profile'') (\<lambda>_.
           bind_result (dl_peer oe) (\<lambda>peer.
           bind_result (ensure (authorize peer) ''permission-denied'') (\<lambda>_. Inr peer)))) of
        Inl e \<Rightarrow> Some (Inl e)
      | Inr peer \<Rightarrow>
          (case first_frame (decode_frame utf8 (cd_parse cd)) l ''hello-recv:'' oe tls_io_new of
             None \<Rightarrow> None
           | Some (Inl e) \<Rightarrow> Some (Inl e)
           | Some (Inr (io, hello)) \<Rightarrow>
               Some (bind_result (check_hello (cd_text cd) hello) (\<lambda>_.
                     bind_result (welcome_body (member hello ''body'')) (\<lambda>body.
                     bind_result (wire_ok (cd_text cd) (rm_validate_envelope (welcome_envelope oe body))) (\<lambda>_.
                     bind_result (prefix_err ''welcome-send:'' (send_first cd l oe (welcome_envelope oe body))) (\<lambda>_.
                     Inr (spawn io (fresh_id (dl_token oe 0) ''sess'') peer (dl_now oe), member hello ''body''))))))))"
subsection \<open>What reading one frame leaves behind\<close>

lemma stash_frames_none: "\<not> has_frame (io_assembler io) \<Longrightarrow> stash_frames dec took io = (io, Inr took)"
  by (subst stash_frames.simps) (auto simp: take_frame_def split: option.split)

lemma stash_frames_one:
  assumes "as_pending (io_assembler io) = Some (length p)" "as_body (io_assembler io) = p" "dec p = Inr v"
  shows "stash_frames dec took io = (io\<lparr>io_assembler := assembler_new, io_stash := io_stash io @ [v]\<rparr>, Inr True)"
proof -
  have "take_frame (io_assembler io) = (assembler_new, Inr (Some p))"
    using assms by (simp add: take_frame_def has_frame_def assembler_new_def)
  moreover have "\<not> has_frame assembler_new" by (simp add: has_frame_def assembler_new_def)
  ultimately show ?thesis using assms(3) by (subst stash_frames.simps) (simp add: stash_frames_none)
qed

lemma stash_chunk_frames:
  assumes "\<forall>p \<in> set ps. sendable mx p \<and> dec p = Inr (doc p)" "io_assembler io = assembler_new"
  shows "stash_chunk dec mx (concat (map on_wire ps)) io = Some (io\<lparr>io_stash := io_stash io @ map doc ps\<rparr>, Inr ())"
  using assms
proof (induction ps arbitrary: io)
  case Nil
  have "\<not> has_frame (io_assembler io)" using Nil by (simp add: has_frame_def assembler_new_def)
  then show ?case by (subst stash_chunk.simps) (simp add: stash_frames_none)
next
  case (Cons p ps)
  let ?r = "concat (map on_wire ps)"
  have h: "holds mx (io_assembler io) []" and p: "sendable mx p" "dec p = Inr (doc p)" using Cons.prems by simp_all
  have s: "[] @ (on_wire p @ ?r) @ [] = on_wire p @ ?r" by simp
  obtain a where a: "feed mx (on_wire p @ ?r) (io_assembler io) = Some (a, Inr ?r)" "as_pending a = Some (length p)" "as_body a = p"
    using feed_frame(2) [OF h p(1) s] by auto
  let ?io = "io\<lparr>io_assembler := assembler_new, io_stash := io_stash io @ [doc p]\<rparr>"
  have t: "stash_frames dec False (io\<lparr>io_assembler := a\<rparr>) = (?io, Inr True)"
    using stash_frames_one [of "io\<lparr>io_assembler := a\<rparr>" p dec "doc p"] a p by simp
  have c: "stash_chunk dec mx (concat (map on_wire (p # ps))) io = (if ?r = [] then Some (?io, Inr ()) else stash_chunk dec mx ?r ?io)"
    using a(1) t by (subst stash_chunk.simps) simp
  have io: "?io = io\<lparr>io_stash := io_stash io @ [doc p]\<rparr>" using Cons.prems(2) by (cases io) simp
  have i: "stash_chunk dec mx ?r ?io = Some (?io\<lparr>io_stash := io_stash ?io @ map doc ps\<rparr>, Inr ())"
    using Cons.IH [of ?io] Cons.prems(1) by simp
  show ?case
  proof (cases "ps = []")
    case True
    then show ?thesis using c io by simp
  next
    case False
    then have "?r \<noteq> []" by (cases ps) (simp_all add: on_wire_def to_be_bytes_def)
    then have "stash_chunk dec mx (concat (map on_wire (p # ps))) io = Some (?io\<lparr>io_stash := io_stash ?io @ map doc ps\<rparr>, Inr ())"
      unfolding c i [symmetric] by (rule if_not_P)
    then show ?thesis unfolding io by simp
  qed
qed

definition one_read :: "string \<Rightarrow> read_env" where
  "one_read d = \<lparr>re_complete = TlsOk, re_packets = None, re_chunks = [Data d]\<rparr>"

lemma recv_frame_coalesced:
  assumes ps: "\<forall>x \<in> set (p # ps). sendable mx x \<and> dec x = Inr (doc x)"
    and env: "rv_read env 0 = one_read (concat (map on_wire (p # ps)))" "rv_clock env 0 < deadline"
  shows "recv_frame dec mx env deadline 0 tls_io_new = Some (tls_io_new\<lparr>io_stash := map doc ps\<rparr>, Inr (Some (doc p)))"
proof -
  let ?d = "concat (map on_wire (p # ps))"
  have d: "?d \<noteq> []" by (simp add: on_wire_def to_be_bytes_def)
  have c: "stash_chunk dec mx ?d tls_io_new = Some (tls_io_new\<lparr>io_stash := map doc (p # ps)\<rparr>, Inr ())"
    using stash_chunk_frames [OF ps, of tls_io_new] by (simp add: tls_io_new_def)
  have "recv_round dec mx (rv_read env 0) tls_io_new = stash_chunks dec mx [Data ?d] tls_io_new"
    unfolding env(1) one_read_def recv_round_def by (simp add: tls_io_new_def Let_def del: stash_chunks.simps)
  also have "\<dots> = Some (tls_io_new\<lparr>io_stash := map doc (p # ps)\<rparr>, Inr ())"
    unfolding stash_chunks.simps if_not_P [OF d] c by (simp add: tls_io_new_def)
  finally have r: "recv_round dec mx (rv_read env 0) tls_io_new = Some (tls_io_new\<lparr>io_stash := map doc (p # ps)\<rparr>, Inr ())" .
  have e: "io_stash tls_io_new = []" "\<not> io_eof tls_io_new" "take_frame (io_assembler tls_io_new) = (assembler_new, Inr None)"
    by (simp_all add: tls_io_new_def take_frame_def assembler_new_def)
  have "recv_frame dec mx env deadline 0 tls_io_new = recv_frame dec mx env deadline (0 + 1) (tls_io_new\<lparr>io_stash := map doc (p # ps)\<rparr>)"
    using e r env(2) by (subst recv_frame.simps) simp
  also have "\<dots> = Some (tls_io_new\<lparr>io_stash := map doc ps\<rparr>, Inr (Some (doc p)))"
    by (subst recv_frame.simps) simp
  finally show ?thesis .
qed

text \<open>The engine never looks at what was read ahead.\<close>

definition stash_is :: "session_limits \<Rightarrow> json list \<Rightarrow> engine_pc \<times> session \<Rightarrow> bool" where
  "stash_is l vs x \<longleftrightarrow> reader_ok l x \<and> io_stash (ss_io (snd x)) = vs"

lemma detach_stash [simp]: "io_stash (ss_io (detach r s)) = io_stash (ss_io s)"
  by (simp add: detach_def fail_all_def poison_def)

lemma stash_engine:
  assumes "engine_step l cd e pc s = Some (pc', s')" "reader_ok l (pc, s)"
  shows "io_stash (ss_io s') = io_stash (ss_io s)"
  using assms
proof (induction l cd e pc s rule: engine_step.induct)
  case (1 l cd e s)
  then show ?case by (auto simp: close_session_def Let_def split: if_splits sum.splits)
next
  case (2 l cd e s)
  have "ss_io (drain_command l now c s) = ss_io s" for now c s
    by (cases c) (auto simp: send_reply_def Let_def split: option.split)
  then show ?case using 2 by (auto split: list.splits)
next
  case (5 l cd e s)
  then show ?case by (auto simp: check_timers_def set_state_def Let_def split: if_splits)
next
  case (7 l cd e s)
  then have "between (sl_max_frame l) (io_assembler (ss_io s))" by (simp add: reader_ok_def)
  then obtain io r where "pump_reads (decode_frame (ee_utf8 e) (cd_parse cd)) (sl_max_frame l) (ee_read e) (ss_io s) = Some (io, r)"
    "io_stash io = io_stash (ss_io s)"
    using pump_reads_total [of "sl_max_frame l" "ss_io s" "decode_frame (ee_utf8 e) (cd_parse cd)" "ee_read e"] by blast
  then show ?case using 7 by (cases r) auto
next
  case (9 l cd e v vs s)
  have "io_stash (ss_io (session_dispatch now env s)) = io_stash (ss_io s)" for now env
    by (auto simp: session_dispatch_def handle_inbound_def note_inbound_def send_reply_def Let_def split: option.split sum.split)
  then show ?case using 9 by auto
next
  case (10 l cd e s)
  have "flush_one env now s = Some (s1, r) \<Longrightarrow> io_stash (ss_io s1) = io_stash (ss_io s)" for env now s1 r
    by (auto simp: flush_one_def poison_def Let_def split: list.splits option.splits if_splits)
  then show ?case using 10 by (auto split: option.splits sum.splits if_splits)
qed (auto split: if_splits)

lemma caller_io: "ss_io (caller_step l cd op s) = ss_io s"
  by (cases op) (auto simp: send_control_def send_data_def request_register_def request_enqueue_def request_turn_def send_cmd_def
    subscribe_answers_def unsubscribe_answers_def set_handler_def session_shutdown_def Let_def
    split: option.split sum.split)

lemma stash_step: "session_step l cd x y \<Longrightarrow> stash_is l vs x \<Longrightarrow> stash_is l vs y"
proof (induction rule: session_step.induct)
  case (engine e pc s pc' s')
  then show ?case using stash_engine [OF engine(1)] reader_engine [OF engine(1)] by (simp add: stash_is_def)
next
  case (caller pc s op)
  then show ?case by (simp add: stash_is_def reader_ok_def caller_io)
qed

interpretation read_ahead: session_invariant l cd "stash_is l vs" for l cd vs
  by unfold_locales (rule stash_step)

text \<open>C27. What a peer sends right behind its first frame can be lost: when the frames of the first document
  and of further documents arrive in one read of the handshake, the first document is answered and
  the others are read ahead; the engine that is then started on this connection leaves
  them where they are, in every run, so that they reach no waiter and no handler.\<close>

theorem read_ahead_never_delivered:
  assumes "\<forall>x \<in> set (p # ps). sendable mx x \<and> dec x = Inr (doc x)"
    "rv_read env 0 = one_read (concat (map on_wire (p # ps)))" "rv_clock env 0 < deadline"
  shows "\<exists>io. recv_frame dec mx env deadline 0 tls_io_new = Some (io, Inr (Some (doc p))) \<and> io_stash io = map doc ps \<and>
     (\<forall>l cd sid peer now pc s. session_run l cd (AtTop, spawn io sid peer now) (pc, s) \<longrightarrow> io_stash (ss_io s) = map doc ps)"
proof -
  let ?io = "tls_io_new\<lparr>io_stash := map doc ps\<rparr>"
  have "io_stash (ss_io s) = map doc ps" if "session_run l cd (AtTop, spawn ?io sid peer now) (pc, s)" for l cd sid peer now pc s
  proof -
    have "stash_is l (map doc ps) (AtTop, spawn ?io sid peer now)" by (simp add: stash_is_def reader_ok_def spawn_def tls_io_new_def)
    then show ?thesis using read_ahead.along_run [OF that] by (simp add: stash_is_def)
  qed
  then show ?thesis using recv_frame_coalesced [OF assms] by (intro exI [of _ ?io]) simp
qed

text \<open>A welcome and a notice of revocation in one read.\<close>

theorem read_ahead_never_delivered_witness:
  "\<exists>io. recv_frame (\<lambda>x. Inr (JStr x)) 8
       \<lparr>rv_clock = (\<lambda>n. n), rv_read = (\<lambda>n. one_read (concat (map on_wire [''w'', ''n'']))), rv_poll = (\<lambda>n. Inr True)\<rparr> 5 0 tls_io_new =
     Some (io, Inr (Some (JStr ''w''))) \<and>
     session_run session_limits_default one_document (AtTop, spawn io ''s'' ''p'' 0) (AtTop, spawn io ''s'' ''p'' 0) \<and>
     io_stash (ss_io (spawn io ''s'' ''p'' 0)) = [JStr ''n'']"
proof -
  let ?env = "\<lparr>rv_clock = (\<lambda>n. n), rv_read = (\<lambda>n. one_read (concat (map on_wire [''w'', ''n'']))), rv_poll = (\<lambda>n. Inr True)\<rparr>"
  have "\<forall>x \<in> set [''w'', ''n'']. sendable 8 x \<and> Inr (JStr x) = (Inr (JStr x) :: (string, json) result)" by (simp add: sendable_def)
  then obtain io where "recv_frame (\<lambda>x. Inr (JStr x)) 8 ?env 5 0 tls_io_new = Some (io, Inr (Some (JStr ''w'')))"
    "\<forall>l cd sid peer now pc s. session_run l cd (AtTop, spawn io sid peer now) (pc, s) \<longrightarrow> io_stash (ss_io s) = map JStr [''n'']"
    using read_ahead_never_delivered [of "''w''" "[''n'']" 8 "\<lambda>x. Inr (JStr x)" JStr ?env 5] by auto
  moreover have "session_run session_limits_default one_document (AtTop, spawn io ''s'' ''p'' 0) (AtTop, spawn io ''s'' ''p'' 0)"
    by (rule session_run.start)
  ultimately have "io_stash (ss_io (spawn io ''s'' ''p'' 0)) = map JStr [''n'']" by blast
  then show ?thesis
    using \<open>recv_frame _ _ _ _ _ _ = _\<close> session_run.start by (intro exI [of _ io]) simp
qed

subsection \<open>Who gets a session\<close>

lemma wire_ok_Inr [simp]: "wire_ok text r = Inr x \<longleftrightarrow> r = Inr x"
  by (simp add: wire_ok_def split: sum.split)

lemma prefix_err_Inr [simp]: "prefix_err p r = Inr x \<longleftrightarrow> r = Inr x"
  by (simp add: prefix_err_def split: sum.split)

lemma validated_body:
  assumes "rm_validate_envelope v = Inr ()" "get_str v ''type'' = Some ty"
  shows "rm_validate_body ty (member v ''body'') = Inr ()"
  using assms by (auto simp: rm_validate_envelope_def member_def split: option.splits)

text \<open>C17. A listener opens a session only for a peer it has authorised: when \<open>accept\<close> answers a
  session, the TLS handshake negotiated the remote profile, the fingerprint of the client certificate
  passed the authorisation and is the principal of the session, the first frame was a valid \<open>session.hello\<close>
  whose body is the one handed on, and the welcome that went out is itself a valid envelope.\<close>

theorem accept_authorised:
  assumes "accept cd utf8 l authorize welcome_body oe = Some (Inr (s, body))"
  shows "dl_tls oe = Inr () \<and> dl_alpn oe = Some REMOTE_PROFILE \<and> dl_peer oe = Inr (ss_peer s) \<and> authorize (ss_peer s) \<and>
     ss_state s = Connected \<and> rm_validate_body ''session.hello'' body = Inr () \<and>
     (\<exists>w. welcome_body body = Inr w \<and> rm_validate_envelope (welcome_envelope oe w) = Inr ())"
proof -
  let ?checks = "bind_result (prefix_err ''tls-handshake:'' (dl_tls oe)) (\<lambda>_.
           bind_result (ensure (dl_alpn oe = Some REMOTE_PROFILE) ''unsupported profile'') (\<lambda>_.
           bind_result (dl_peer oe) (\<lambda>peer.
           bind_result (ensure (authorize peer) ''permission-denied'') (\<lambda>_. Inr peer))))"
  obtain peer where peer: "?checks = Inr peer" using assms by (cases ?checks) (simp_all add: accept_def)
  obtain io hello where hello: "first_frame (decode_frame utf8 (cd_parse cd)) l ''hello-recv:'' oe tls_io_new = Some (Inr (io, hello))"
    using assms unfolding accept_def peer by (auto split: option.splits sum.splits)
  have r: "bind_result (check_hello (cd_text cd) hello) (\<lambda>_.
                     bind_result (welcome_body (member hello ''body'')) (\<lambda>body.
                     bind_result (wire_ok (cd_text cd) (rm_validate_envelope (welcome_envelope oe body))) (\<lambda>_.
                     bind_result (prefix_err ''welcome-send:'' (send_first cd l oe (welcome_envelope oe body))) (\<lambda>_.
                     Inr (spawn io (fresh_id (dl_token oe 0) ''sess'') peer (dl_now oe), member hello ''body''))))) = Inr (s, body)"
    using assms unfolding accept_def peer hello by simp
  then have s: "s = spawn io (fresh_id (dl_token oe 0) ''sess'') peer (dl_now oe)" "body = member hello ''body''"
    and h: "check_hello (cd_text cd) hello = Inr ()"
    and w: "\<exists>w. welcome_body body = Inr w \<and> rm_validate_envelope (welcome_envelope oe w) = Inr ()"
    by auto
  have "rm_validate_body ''session.hello'' body = Inr ()"
    using h validated_body s(2) by (simp add: check_hello_def)
  then show ?thesis using peer w s(1) by (simp add: spawn_def)
qed
text \<open>The welcome of the session server (\<open>remote_session_server.rs\<close>).\<close>

definition server_welcome :: "nat \<Rightarrow> json \<Rightarrow> (string, json) result" where
  "server_welcome executor_epoch hello =
     Inr (JObj [(''version'', JStr ''0.1''),
                (''features'', JArr (map JStr [''remote-calls/1'', ''remote-streams/1'', ''remote-events/1'', ''remote-ops/1''])),
                (''executor_epoch'', JStr (show_nat executor_epoch)), (''limits'', JObj [(''max_frame'', j_nat 1048576)]),
                (''domain'', member hello ''domain'')])"

definition demo_hello :: json where
  "demo_hello = JObj [(''protocol'', JStr REMOTE_PROTOCOL_ID), (''version'', JStr REMOTE_PROTOCOL_VERSION), (''type'', JStr ''session.hello''),
     (''message_id'', JStr ''m-1''), (''body'', hello_body ''lab'' ''ctl'' 1)]"

definition hello_codec :: codec where
  "hello_codec = \<lparr>cd_text = (\<lambda>_. ''{}''), cd_parse = (\<lambda>_. Inr demo_hello)\<rparr>"

definition demo_dial :: dial_env where
  "demo_dial = \<lparr>dl_tls = Inr (), dl_alpn = Some ''matrix.remote/0.1'', dl_peer = Inr ''fp'',
     dl_recv = \<lparr>rv_clock = (\<lambda>n. n), rv_read = (\<lambda>n. one_read (on_wire ''{}'')), rv_poll = (\<lambda>n. Inr True)\<rparr>, dl_recv_deadline = 5,
     dl_send = Inr (), dl_token = (\<lambda>n. Inr ''0123456789abcdef''), dl_now = 0\<rparr>"

lemma demo_hello_ok: "check_hello text demo_hello = Inr ()"
proof -
  have "check_hello (\<lambda>_. []) demo_hello = Inr ()" by code_simp
  then show ?thesis by (simp add: check_hello_def)
qed

lemma demo_welcome_ok: "\<exists>w. server_welcome 1 (member demo_hello ''body'') = Inr w \<and> rm_validate_envelope (welcome_envelope demo_dial w) = Inr ()"
proof -
  have "(case server_welcome 1 (member demo_hello ''body'') of Inr w \<Rightarrow> rm_validate_envelope (session_notice ''session.welcome'' ''m-0123456789ab'' ''sess-0123456789ab'' w) = Inr () | Inl _ \<Rightarrow> False)"
    by code_simp
  then show ?thesis by (auto simp: welcome_envelope_def demo_dial_def fresh_id_def split: sum.splits)
qed

theorem accept_authorised_witness:
  "\<exists>s. accept hello_codec (\<lambda>_. []) session_limits_default (\<lambda>p. p = ''fp'') (server_welcome 1) demo_dial = Some (Inr (s, hello_body ''lab'' ''ctl'' 1)) \<and>
     ss_peer s = ''fp''"
proof -
  let ?dec = "decode_frame (\<lambda>_. []) (cd_parse hello_codec)"
  have "decode_frame (\<lambda>_. []) (\<lambda>_. Inr demo_hello) ''{}'' = Inr demo_hello" by code_simp
  then have d: "?dec ''{}'' = Inr demo_hello" by (simp add: hello_codec_def)
  have ps: "\<forall>x \<in> set [''{}'']. sendable (sl_max_frame session_limits_default) x \<and> ?dec x = Inr demo_hello"
    using d by (simp add: sendable_def session_limits_default_def DEFAULT_MAX_FRAME_def)
  have "recv_frame ?dec (sl_max_frame session_limits_default) (dl_recv demo_dial) (dl_recv_deadline demo_dial) 0 tls_io_new =
      Some (tls_io_new\<lparr>io_stash := []\<rparr>, Inr (Some demo_hello))"
    using recv_frame_coalesced [of "''{}''" "[]" _ ?dec "\<lambda>_. demo_hello", OF ps] by (simp add: demo_dial_def)
  then have f: "first_frame ?dec session_limits_default ''hello-recv:'' demo_dial tls_io_new = Some (Inr (tls_io_new\<lparr>io_stash := []\<rparr>, demo_hello))"
    by (simp add: first_frame_def)
  obtain w where w: "server_welcome 1 (member demo_hello ''body'') = Inr w" "rm_validate_envelope (welcome_envelope demo_dial w) = Inr ()"
    using demo_welcome_ok by blast
  have e: "send_first hello_codec session_limits_default demo_dial v = Inr ()" for v
    by (simp add: send_first_def encode_frame_def hello_codec_def encode_def session_limits_default_def DEFAULT_MAX_FRAME_def demo_dial_def)
  have c: "bind_result (prefix_err ''tls-handshake:'' (dl_tls demo_dial)) (\<lambda>_.
           bind_result (ensure (dl_alpn demo_dial = Some REMOTE_PROFILE) ''unsupported profile'') (\<lambda>_.
           bind_result (dl_peer demo_dial) (\<lambda>peer.
           bind_result (ensure (peer = ''fp'') ''permission-denied'') (\<lambda>_. Inr peer)))) = Inr ''fp''"
    by (simp add: demo_dial_def REMOTE_PROFILE_def)
  obtain s where s: "accept hello_codec (\<lambda>_. []) session_limits_default (\<lambda>p. p = ''fp'') (server_welcome 1) demo_dial =
      Some (Inr (s, hello_body ''lab'' ''ctl'' 1))"
    unfolding accept_def c using f w e demo_hello_ok by (simp add: bind_result_def wire_ok_def prefix_err_def member_def demo_hello_def j_get_def)
  show ?thesis using accept_authorised [OF s] s by simp
qed

end
