(* ===== verification/Mx_Base64.thy ===== *)
theory Mx_Base64
  imports Mx_Frame
begin

text \<open>
  The base64 coding of stream payloads (\<open>b64_encode\<close> and \<open>b64_decode\<close> of
  matrix-runtime/src/route_executor.rs). The encoder shifts 32 bit words, the decoder 8 bit words.
\<close>

unbundle bit_operations_syntax

definition ALPH :: string where
  "ALPH = ''ABCDEFGHIJKLMNOPQRSTUVWXYZabcdefghijklmnopqrstuvwxyz0123456789+/''"

definition b64_digit :: "32 word \<Rightarrow> char" where
  "b64_digit w = ALPH ! unat (w AND 63)"

definition b64_first :: "32 word \<Rightarrow> char" where
  "b64_first b0 = b64_digit (drop_bit 2 b0)"

definition b64_second :: "32 word \<Rightarrow> 32 word \<Rightarrow> char" where
  "b64_second b0 b1 = b64_digit (push_bit 4 b0 OR drop_bit 4 b1)"

definition b64_third :: "32 word \<Rightarrow> 32 word \<Rightarrow> char" where
  "b64_third b1 b2 = b64_digit (push_bit 2 b1 OR drop_bit 6 b2)"

fun b64_encode :: "string \<Rightarrow> string" where
  "b64_encode [] = []"
| "b64_encode [a] = [b64_first (of_char a), b64_second (of_char a) 0, CHR ''='', CHR ''='']"
| "b64_encode [a, b] = [b64_first (of_char a), b64_second (of_char a) (of_char b), b64_third (of_char b) 0, CHR ''='']"
| "b64_encode (a # b # c # rest) =
     [b64_first (of_char a), b64_second (of_char a) (of_char b), b64_third (of_char b) (of_char c), b64_digit (of_char c)] @
     b64_encode rest"

definition b64_val :: "char \<Rightarrow> 8 word option" where
  "b64_val c =
     (let n = (of_char c :: nat) in
      if 65 \<le> n \<and> n \<le> 90 then Some (of_nat (n - 65))
      else if 97 \<le> n \<and> n \<le> 122 then Some (of_nat (n - 97 + 26))
      else if 48 \<le> n \<and> n \<le> 57 then Some (of_nat (n - 48 + 52))
      else if c = CHR ''+'' then Some 62
      else if c = CHR ''/'' then Some 63
      else if c = CHR ''='' then Some 0
      else None)"

definition octet :: "8 word \<Rightarrow> char" where
  "octet w = char_of (unat w)"

definition b64_quad :: "nat \<Rightarrow> 8 word \<Rightarrow> 8 word \<Rightarrow> 8 word \<Rightarrow> 8 word \<Rightarrow> string" where
  "b64_quad pad v0 v1 v2 v3 =
     [octet (push_bit 2 v0 OR drop_bit 4 v1)] @
     (if pad < 2 then [octet (push_bit 4 v1 OR drop_bit 2 v2)] else []) @
     (if pad < 1 then [octet (push_bit 6 v2 OR v3)] else [])"

fun b64_quads :: "string \<Rightarrow> string option" where
  "b64_quads (a # b # c # d # rest) =
     (case (b64_val a, b64_val b, b64_val c, b64_val d) of
        (Some v0, Some v1, Some v2, Some v3) \<Rightarrow>
          (let pad = length (filter (\<lambda>x. x = CHR ''='') [a, b, c, d]) in
           if 0 < pad \<and> rest \<noteq> [] then None
           else if 2 < pad then None
           else (case b64_quads rest of None \<Rightarrow> None | Some out \<Rightarrow> Some (b64_quad pad v0 v1 v2 v3 @ out)))
      | _ \<Rightarrow> None)"
| "b64_quads rest = Some []"

definition b64_decode :: "string \<Rightarrow> string option" where
  "b64_decode s = (if length s mod 4 \<noteq> 0 then None else b64_quads s)"

subsection \<open>Round trip\<close>

lemma ALPH_values: "list_all (\<lambda>i. b64_val (ALPH ! i) = Some (of_nat i) \<and> ALPH ! i \<noteq> CHR ''='') [0..<64]"
  by (simp add: upt_rec ALPH_def b64_val_def)

lemma unat_and_63: "unat (w AND 63 :: 32 word) < 64"
proof -
  have "w AND 63 = take_bit 6 w" by (simp add: take_bit_eq_mask mask_eq_exp_minus_1)
  also have "\<dots> = w mod 64" by (simp add: take_bit_eq_mod)
  finally show ?thesis by (simp add: unat_mod_distrib)
qed

lemma b64_val_digit: "b64_val (b64_digit w) = Some (ucast (w AND 63))" "b64_digit w \<noteq> CHR ''=''"
proof -
  have "b64_val (ALPH ! unat (w AND 63)) = Some (of_nat (unat (w AND 63))) \<and> ALPH ! unat (w AND 63) \<noteq> CHR ''=''"
    using ALPH_values unat_and_63 [of w] by (simp add: list_all_iff)
  then show "b64_val (b64_digit w) = Some (ucast (w AND 63))" "b64_digit w \<noteq> CHR ''=''"
    by (simp_all add: b64_digit_def)
qed

lemma b64_val_pad: "b64_val CHR ''='' = Some 0"
  by (simp add: b64_val_def)

lemma bit_of_char: "bit (of_char c :: 'a::len word) n \<longleftrightarrow> n < LENGTH('a) \<and> n < 8 \<and> bit (of_char c :: nat) n"
proof -
  have "\<not> bit (of_char c :: nat) n" if "8 \<le> n"
  proof -
    have "(of_char c :: nat) < 2 ^ n" using power_increasing [of 8 n "2::nat"] that by (simp add: less_le_trans [OF nat_of_char_less_256])
    then show ?thesis by (simp add: bit_iff_odd)
  qed
  then have "bit (of_nat (of_char c) :: 'a word) n \<longleftrightarrow> n < LENGTH('a) \<and> n < 8 \<and> bit (of_char c :: nat) n"
    by (cases "n < 8") (auto simp: bit_simps not_less)
  then show ?thesis by (simp add: of_nat_of_char)
qed

lemma octet_of_char: "octet (of_char c) = c"
proof -
  have "unat (of_nat (of_char c) :: 8 word) = of_char c" by (simp add: unsigned_of_nat take_bit_eq_mod)
  then show ?thesis by (simp add: octet_def of_nat_of_char)
qed

lemma byte_eqI:
  fixes x y :: "8 word"
  assumes "list_all (\<lambda>n. bit x n = bit y n) [0, 1, 2, 3, 4, 5, 6, 7]"
  shows "x = y"
proof (rule bit_word_eqI)
  fix n assume "n < LENGTH(8)"
  then consider "n = 0" | "n = 1" | "n = 2" | "n = 3" | "n = 4" | "n = 5" | "n = 6" | "n = 7" by fastforce
  then show "bit x n = bit y n" using assms by cases auto
qed

lemma quad_bytes:
  fixes a b c :: char
  defines "A \<equiv> of_char a :: 32 word" and "B \<equiv> of_char b :: 32 word" and "C \<equiv> of_char c :: 32 word"
  shows "push_bit 2 (ucast (drop_bit 2 A AND 63)) OR drop_bit 4 (ucast ((push_bit 4 A OR drop_bit 4 B) AND 63)) = (of_char a :: 8 word)"
    "push_bit 2 (ucast (drop_bit 2 A AND 63)) OR drop_bit 4 (ucast (push_bit 4 A AND 63)) = (of_char a :: 8 word)"
    "push_bit 4 (ucast ((push_bit 4 A OR drop_bit 4 B) AND 63)) OR drop_bit 2 (ucast ((push_bit 2 B OR drop_bit 6 C) AND 63)) = (of_char b :: 8 word)"
    "push_bit 4 (ucast ((push_bit 4 A OR drop_bit 4 B) AND 63)) OR drop_bit 2 (ucast (push_bit 2 B AND 63)) = (of_char b :: 8 word)"
    "push_bit 6 (ucast ((push_bit 2 B OR drop_bit 6 C) AND 63)) OR ucast (C AND 63) = (of_char c :: 8 word)"
  unfolding A_def B_def C_def
  by (rule byte_eqI; simp add: bit_simps bit_of_char; simp add: eval_nat_numeral)+

lemma b64_encode_length: "length (b64_encode s) mod 4 = 0"
  by (induction s rule: b64_encode.induct) auto

lemma b64_roundtrip: "b64_decode (b64_encode s) = Some s"
proof -
  have "b64_quads (b64_encode s) = Some s"
  proof (induction s rule: b64_encode.induct)
    case (2 a)
    then show ?case
      by (simp add: b64_first_def b64_second_def b64_val_digit b64_val_pad b64_quad_def quad_bytes(2) octet_of_char)
  next
    case (3 a b)
    then show ?case
      by (simp add: b64_first_def b64_second_def b64_third_def b64_val_digit b64_val_pad b64_quad_def quad_bytes octet_of_char)
  next
    case (4 a b c rest)
    then show ?case
      by (simp add: b64_first_def b64_second_def b64_third_def b64_val_digit b64_quad_def quad_bytes octet_of_char)
  qed simp
  then show ?thesis by (simp add: b64_decode_def b64_encode_length)
qed

end
