(* ===== verification/Mx_Route.thy ===== *)
theory Mx_Route
  imports Mx_Tenure Mx_Handshake Mx_Base64 "HOL-Library.Option_ord" "HOL-Library.Sublist"
begin

text \<open>
  The executor side of a remote route (matrix-runtime/src/route_executor.rs): one accepted session
  bound to the local service. A call that a peer opens runs on threads of its own, which take the locks
  of the service, the ledger and the route one after the other. A thread is a program counter with its
  local variables, and one step is one lock whose outcome decides how the thread goes on, with the writes and answers that follow
  from it. Frames that arrive are handled in between, and the service and the session go on working; a thread that could not be started is
  one that never takes a step. What is handed to the session is kept in \<open>ro_posted\<close>, the operations
  handed to the kernel in \<open>ro_executed\<close>, the chunks handed to the host in \<open>ro_injected\<close>.
\<close>

declare map_of_eq_Some_iff [simp del] Some_eq_map_of_iff [simp del]

subsection \<open>Lossy UTF-8\<close>

text \<open>\<open>String::from_utf8_lossy\<close>: a sequence that is not well formed, up to the byte that breaks it, becomes U+FFFD.\<close>

definition U_FFFD :: string where
  "U_FFFD = [CHR 0xEF, CHR 0xBF, CHR 0xBD]"

fun utf8_lossy :: "string \<Rightarrow> string" where
  "utf8_lossy [] = []"
| "utf8_lossy (a # s) =
     (if in_range 0x00 0x7F a then a # utf8_lossy s
      else case s of
             [] \<Rightarrow> U_FFFD
           | b # s1 \<Rightarrow>
               if in_range 0xC2 0xDF a
               then (if in_range 0x80 0xBF b then a # b # utf8_lossy s1 else U_FFFD @ utf8_lossy s)
               else if in_range 0xE0 0xEF a
               then (if \<not> in_range (if a = CHR 0xE0 then 0xA0 else 0x80) (if a = CHR 0xED then 0x9F else 0xBF) b
                     then U_FFFD @ utf8_lossy s
                     else case s1 of
                            [] \<Rightarrow> U_FFFD
                          | c # s2 \<Rightarrow> if in_range 0x80 0xBF c then a # b # c # utf8_lossy s2 else U_FFFD @ utf8_lossy s1)
               else if in_range 0xF0 0xF4 a
               then (if \<not> in_range (if a = CHR 0xF0 then 0x90 else 0x80) (if a = CHR 0xF4 then 0x8F else 0xBF) b
                     then U_FFFD @ utf8_lossy s
                     else case s1 of
                            [] \<Rightarrow> U_FFFD
                          | c # s2 \<Rightarrow>
                              if \<not> in_range 0x80 0xBF c then U_FFFD @ utf8_lossy s1
                              else case s2 of
                                     [] \<Rightarrow> U_FFFD
                                   | d # s3 \<Rightarrow> if in_range 0x80 0xBF d then a # b # c # d # utf8_lossy s3 else U_FFFD @ utf8_lossy s2)
               else U_FFFD @ utf8_lossy s)"

subsection \<open>State\<close>

record op_provider =
  op_logical :: string
  op_owner :: instance_ref
  op_fence :: nat

record exec_stream =
  es_next_seq :: nat
  es_received :: nat
  es_granted :: nat
  es_ended :: bool
  es_operation :: string

text \<open>The arguments of \<open>run_leg\<close>.\<close>

record leg =
  lg_rid :: string
  lg_operation :: string
  lg_principal :: string
  lg_logical :: string
  lg_owner :: instance_ref
  lg_fence :: nat
  lg_cap :: string
  lg_input :: json
  lg_timeout :: nat

text \<open>
  Where a thread of \<open>on_call_open\<close> (\<open>Open\<close>) or of \<open>run_leg\<close> (\<open>Leg\<close>) stands. \<open>LegKernel\<close> is the worker of an
  invocation whose budget ran out before the kernel answered. The last arguments are the answer of the kernel, whether
  the call was cancelled, and whether the lease was live.
\<close>

datatype route_pc =
    OpenLegs json
  | OpenReplay string string
  | OpenQuota string string json
  | OpenLease string string json
  | OpenGrant leg
  | OpenProvides leg
  | OpenAdmit leg
  | OpenSpawn leg
  | LegOwner leg
  | LegCancel leg
  | LegInvoke leg
  | LegKernel leg
  | LegSettle leg "json \<times> bool"
  | LegLive leg "json \<times> bool" bool
  | LegFinish leg "json \<times> bool" bool bool
  | LegClose leg "json \<times> bool" bool bool

record route =
  ro_service :: service
  ro_session :: session
  ro_legs :: "string list"
  ro_opening :: "(string, string) hmap"
  ro_cancelled :: "string list"
  ro_subs :: "(string, nat) hmap"
  ro_seqs :: "(string \<times> string, nat) hmap"
  ro_delivered :: nat
  ro_dropped :: nat
  ro_op_provider :: "(string, op_provider) hmap"
  ro_op_order :: "string list"
  ro_streams :: "(string, exec_stream) hmap"
  ro_stream_received :: nat
  ro_stream_dropped :: nat
  ro_threads :: "route_pc list"
  ro_posted :: "json list"
  ro_executed :: "string list"
  ro_injected :: "(instance_ref \<times> string \<times> nat \<times> string) list"

definition MAX_LEGS :: nat where
  "MAX_LEGS = 256"

definition route_new :: "service \<Rightarrow> session \<Rightarrow> route" where
  "route_new srv ses =
     \<lparr>ro_service = srv, ro_session = ses, ro_legs = [], ro_opening = [], ro_cancelled = [], ro_subs = [], ro_seqs = [],
      ro_delivered = 0, ro_dropped = 0, ro_op_provider = [], ro_op_order = [], ro_streams = [], ro_stream_received = 0,
      ro_stream_dropped = 0, ro_threads = [], ro_posted = [], ro_executed = [], ro_injected = []\<rparr>"

definition route_attach :: "route \<Rightarrow> route" where
  "route_attach w = w\<lparr>ro_session := set_handler (ro_session w)\<rparr>"

text \<open>
  The environment of a step: that of the service, the limits of the session, the time a leg has run when it calls the
  kernel and the time the kernel takes, and the order in which the map of contexts is iterated.
\<close>

record renv =
  re_svc :: senv
  re_limits :: session_limits
  re_elapsed :: nat
  re_took :: nat
  re_pick :: nat

abbreviation re_now :: "renv \<Rightarrow> nat" where
  "re_now env \<equiv> se_now (re_svc env)"

abbreviation re_codec :: "renv \<Rightarrow> codec" where
  "re_codec env \<equiv> se_codec (re_svc env)"

abbreviation ro_peer :: "route \<Rightarrow> string" where
  "ro_peer w \<equiv> ss_peer (ro_session w)"

subsection \<open>Answers\<close>

definition rid_of :: "json \<Rightarrow> string" where
  "rid_of doc = opt_or (get_str doc ''request_id'') []"

definition text_of :: "json \<Rightarrow> string \<Rightarrow> string" where
  "text_of v k = opt_or (get_str v k) []"

definition header :: "string \<Rightarrow> string \<Rightarrow> session \<Rightarrow> (string \<times> json) list" where
  "header ty mid ses =
     [(''protocol'', JStr ''matrix.remote''), (''version'', JStr ''0.1''), (''type'', JStr ty), (''message_id'', JStr mid),
      (''session_id'', JStr (ss_session_id ses))]"

definition post :: "renv \<Rightarrow> json \<Rightarrow> route \<Rightarrow> route \<times> bool" where
  "post env doc w =
     (case send_control (re_limits env) (re_codec env) doc (ro_session w) of
        (ses, r) \<Rightarrow> (w\<lparr>ro_session := ses, ro_posted := ro_posted w @ [doc]\<rparr>, \<not> isl r))"

definition route_answer :: "renv \<Rightarrow> string \<Rightarrow> string \<Rightarrow> json \<Rightarrow> route \<Rightarrow> route" where
  "route_answer env ty rid body w =
     (if rid = [] then w
      else fst (post env (JObj (header ty rid (ro_session w) @ [(''request_id'', JStr rid), (''body'', body)])) w))"

definition accepted :: "renv \<Rightarrow> string \<Rightarrow> bool \<Rightarrow> route \<Rightarrow> route" where
  "accepted env rid persisted w =
     route_answer env ''call.accepted'' rid (JObj [(''status'', JStr ''admitted''), (''persisted'', JBool persisted)]) w"

text \<open>The kinds of a terminal: \<open>Inr\<close> a result (\<open>ok\<close> and \<open>ok-replay\<close>), \<open>Inl\<close> a code and a message.\<close>

definition terminal :: "renv \<Rightarrow> string \<Rightarrow> (string \<times> string, json) result \<Rightarrow> route \<Rightarrow> route" where
  "terminal env rid r w =
     route_answer env ''call.result'' rid
       (case r of
          Inr v \<Rightarrow> JObj [(''status'', JStr ''ok''), (''output'', v), (''terminal'', JBool True)]
        | Inl (code, msg) \<Rightarrow>
            JObj [(''status'', JStr ''error''), (''error'', JObj [(''code'', JStr code), (''message'', JStr msg)]), (''terminal'', JBool True)]) w"

definition settle :: "renv \<Rightarrow> string \<Rightarrow> bool \<Rightarrow> (string \<times> string, json) result \<Rightarrow> route \<Rightarrow> route" where
  "settle env rid persisted r w = terminal env rid r (accepted env rid persisted w)"

abbreviation refuse :: "renv \<Rightarrow> string \<Rightarrow> string \<Rightarrow> string \<Rightarrow> route \<Rightarrow> route" where
  "refuse env rid code msg w \<equiv> settle env rid False (Inl (code, msg)) w"

subsection \<open>Opening a call\<close>

text \<open>A step of a thread gives the threads that go on in its place.\<close>

definition open_legs :: "json \<Rightarrow> renv \<Rightarrow> route \<Rightarrow> route \<times> route_pc list" where
  "open_legs doc env w =
     (let rid = rid_of doc; body = opt_or (j_get doc ''body'') JNull; oper = text_of body ''operation_id'' in
      if oper = [] \<or> 128 < length oper then (refuse env rid ''invalid-message'' ''bad operation_id'' w, [])
      else if oper \<in> set (ro_legs w) then (w, [OpenReplay rid oper])
      else (w, [OpenQuota rid oper body]))"

definition open_replay :: "string \<Rightarrow> string \<Rightarrow> renv \<Rightarrow> route \<Rightarrow> route \<times> route_pc list" where
  "open_replay rid oper env w =
     ((case operation (re_codec env) (ro_peer w) oper (sv_store (ro_service w)) of
         Inr done \<Rightarrow>
           if member done ''state'' = JStr ''completed'' then settle env rid True (Inr (member done ''result'')) w
           else refuse env rid ''outcome-unknown'' ''leg in flight; query later'' w
       | Inl _ \<Rightarrow> refuse env rid ''outcome-unknown'' ''leg in flight; query later'' w), [])"

definition open_quota :: "string \<Rightarrow> string \<Rightarrow> json \<Rightarrow> renv \<Rightarrow> route \<Rightarrow> route \<times> route_pc list" where
  "open_quota rid oper body env w =
     (if MAX_LEGS \<le> length (ro_legs w) then (refuse env rid ''resource-exhausted'' ''too many remote legs'' w, [])
      else (w, [OpenLease rid oper body]))"

definition open_lease :: "string \<Rightarrow> string \<Rightarrow> json \<Rightarrow> renv \<Rightarrow> route \<Rightarrow> route \<times> route_pc list" where
  "open_lease rid oper body env w =
     (case lease_snapshot_by_token (re_now env) (ro_peer w) (text_of body ''lease'') (ro_service w) of
        None \<Rightarrow> (refuse env rid ''permission-denied'' ''lease refused'' w, [])
      | Some (logical, owner, fence) \<Rightarrow>
          (w, [OpenGrant \<lparr>lg_rid = rid, lg_operation = oper, lg_principal = ro_peer w, lg_logical = logical, lg_owner = owner,
                 lg_fence = fence, lg_cap = text_of body ''cap'', lg_input = opt_or (j_get body ''input'') JNull,
                 lg_timeout = opt_or (get_u64 body ''timeout_ms'') 0\<rparr>]))"

definition open_grant :: "leg \<Rightarrow> renv \<Rightarrow> route \<Rightarrow> route \<times> route_pc list" where
  "open_grant l env w =
     (if \<not> grant_covers (lg_principal l) (lg_cap l) (ro_service w)
      then (refuse env (lg_rid l) ''permission-denied'' ''capability not granted'' w, [])
      else (w, [OpenProvides l]))"

definition provides :: "leg \<Rightarrow> route \<Rightarrow> bool" where
  "provides l w \<longleftrightarrow>
     (case hm_get (k_definitions (sv_kernel (ro_service w))) (lg_logical l) of Some d \<Rightarrow> lg_cap l \<in> set (sm_caps d) | None \<Rightarrow> False)"

definition open_provides :: "leg \<Rightarrow> renv \<Rightarrow> route \<Rightarrow> route \<times> route_pc list" where
  "open_provides l env w =
     (if \<not> provides l w then (refuse env (lg_rid l) ''permission-denied'' ''capability not provided'' w, [])
      else (w, [OpenAdmit l]))"

text \<open>The ledger holds the wrapper of the service, the wire carries the business value.\<close>

definition replay_done :: "codec \<Rightarrow> json \<Rightarrow> (string \<times> string, json) result" where
  "replay_done cd done =
     (let v = member done ''value'' in
      if j_get done ''ok'' = Some (JBool True) then Inr v
      else Inl (opt_or (get_str v ''code'') ''remote-error'', cd_text cd v))"

definition open_admit :: "leg \<Rightarrow> renv \<Rightarrow> route \<Rightarrow> route \<times> route_pc list" where
  "open_admit l env w =
     (case admit (re_codec env) (se_fault (re_svc env)) (lg_principal l) (lg_operation l)
             (invoke_request (lg_logical l) (lg_cap l) (lg_input l)) (sv_store (ro_service w)) of
        (st, r) \<Rightarrow>
          (let w1 = w\<lparr>ro_service := (ro_service w)\<lparr>sv_store := st\<rparr>\<rparr> in
           case r of
             Inr (AdmCompleted done) \<Rightarrow> (settle env (lg_rid l) True (replay_done (re_codec env) done) w1, [])
           | Inr AdmUnknown \<Rightarrow>
               (settle env (lg_rid l) True (Inl (''outcome-unknown'', ''operation unknown; query later'')) w1, [])
           | Inr AdmNew \<Rightarrow> (w1, [OpenSpawn l])
           | Inl e \<Rightarrow>
               (refuse env (lg_rid l) (if e = ''operation-id-conflict'' then ''operation-id-conflict'' else ''resource-exhausted'')
                  ''admission refused'' w1, [])))"

text \<open>The map of providers and the order of its entries; the loop pops entries until the map is small enough.\<close>

fun evict :: "string list \<Rightarrow> (string, op_provider) hmap \<Rightarrow> string list \<times> (string, op_provider) hmap" where
  "evict [] m = ([], m)"
| "evict (old # order) m = (if MAX_LEGS < length m then evict order (hm_remove old m) else (old # order, m))"

definition remember_provider :: "leg \<Rightarrow> route \<Rightarrow> route" where
  "remember_provider l w =
     (let order = (if hm_contains (ro_op_provider w) (lg_operation l) then ro_op_order w else ro_op_order w @ [lg_operation l]);
          m = hm_insert (lg_operation l) \<lparr>op_logical = lg_logical l, op_owner = lg_owner l, op_fence = lg_fence l\<rparr> (ro_op_provider w)
      in case evict order m of (order1, m1) \<Rightarrow> w\<lparr>ro_op_order := order1, ro_op_provider := m1\<rparr>)"

definition open_spawn :: "leg \<Rightarrow> renv \<Rightarrow> route \<Rightarrow> route \<times> route_pc list" where
  "open_spawn l env w =
     (let w1 = accepted env (lg_rid l) False w;
          w2 = w1\<lparr>ro_opening := hm_insert (lg_rid l) (lg_operation l) (ro_opening w1)\<rparr>
      in (remember_provider l w2, [LegOwner l]))"

subsection \<open>Running a leg\<close>

definition record_result :: "renv \<Rightarrow> leg \<Rightarrow> json \<Rightarrow> bool \<Rightarrow> route \<Rightarrow> route" where
  "record_result env l res unknown w =
     w\<lparr>ro_service := (ro_service w)
        \<lparr>sv_store := fst (finish (re_codec env) (se_fault (re_svc env)) (lg_principal l) (lg_operation l) res unknown (sv_store (ro_service w)))\<rparr>\<rparr>"

definition close_opening :: "leg \<Rightarrow> route \<Rightarrow> route" where
  "close_opening l w = w\<lparr>ro_opening := hm_remove (lg_rid l) (ro_opening w)\<rparr>"

definition failure :: "string \<Rightarrow> json" where
  "failure code = JObj [(''ok'', JBool False), (''value'', JObj [(''code'', JStr code)])]"

definition durable_result :: "bool \<Rightarrow> json \<Rightarrow> json" where
  "durable_result ok v = JObj [(''ok'', JBool ok), (''value'', v), (''durability'', JStr ''durable'')]"

definition leg_owner :: "leg \<Rightarrow> renv \<Rightarrow> route \<Rightarrow> route \<times> route_pc list" where
  "leg_owner l env w =
     (if instance_ref_of (sv_kernel (ro_service w)) (lg_logical l) \<noteq> Some (lg_owner l)
      then (terminal env (lg_rid l) (Inl (''stale-generation'', ''activation superseded''))
              (record_result env l (failure ''stale-generation'') False (close_opening l w)), [])
      else (w, [LegCancel l]))"

definition leg_cancel :: "leg \<Rightarrow> renv \<Rightarrow> route \<Rightarrow> route \<times> route_pc list" where
  "leg_cancel l env w =
     (if lg_operation l \<in> set (ro_cancelled w)
      then (terminal env (lg_rid l) (Inl (''cancelled'', ''cancelled before dispatch''))
              (record_result env l (failure ''cancelled'') True (close_opening l w)), [])
      else (w, [LegInvoke l]))"

text \<open>The budget of a leg in milliseconds, and \<open>invoke_with_budget\<close>: the answer of a worker that came too late is dropped.\<close>

definition leg_budget :: "leg \<Rightarrow> nat" where
  "leg_budget l = min (max (lg_timeout l) 1) 35000"

definition in_budget :: "renv \<Rightarrow> leg \<Rightarrow> bool" where
  "in_budget env l \<longleftrightarrow> re_took env < max (ms (leg_budget l) - re_elapsed env) (ms 1)"

definition executor_timeout :: json where
  "executor_timeout = JObj [(''error'', JStr ''executor timeout''), (''code'', JStr ''deadline-exceeded'')]"

definition leg_kernel :: "leg \<Rightarrow> renv \<Rightarrow> route \<Rightarrow> route \<times> json \<times> bool" where
  "leg_kernel l env w =
     (case invoke_for_ref (se_depth (re_svc env)) (se_window (re_svc env)) (se_forwarder (re_svc env)) (se_debug (re_svc env))
             (lg_owner l) (lg_cap l) (lg_input l) (sv_kernel (ro_service w)) of
        (k, out) \<Rightarrow>
          (w\<lparr>ro_service := (ro_service w)\<lparr>sv_kernel := k\<rparr>, ro_executed := ro_executed w @ [lg_operation l]\<rparr>, out))"

definition leg_invoke :: "leg \<Rightarrow> renv \<Rightarrow> route \<Rightarrow> route \<times> route_pc list" where
  "leg_invoke l env w =
     (if in_budget env l then (case leg_kernel l env w of (w1, out) \<Rightarrow> (w1, [LegSettle l out]))
      else (w, [LegKernel l, LegSettle l (executor_timeout, False)]))"

definition leg_settle :: "leg \<Rightarrow> json \<times> bool \<Rightarrow> renv \<Rightarrow> route \<Rightarrow> route \<times> route_pc list" where
  "leg_settle l out env w = (w, [LegLive l out (lg_operation l \<in> set (ro_cancelled w))])"

definition leg_live :: "leg \<Rightarrow> json \<times> bool \<Rightarrow> bool \<Rightarrow> renv \<Rightarrow> route \<Rightarrow> route \<times> route_pc list" where
  "leg_live l out was_cancelled env w =
     (w, [LegFinish l out was_cancelled
            (lease_live (re_now env) (lg_principal l) (lg_logical l) (lg_fence l) (lg_owner l) (ro_service w))])"

definition leg_unknown :: "json \<times> bool \<Rightarrow> bool \<Rightarrow> bool" where
  "leg_unknown out current \<longleftrightarrow>
     \<not> current \<or> text_of (fst out) ''code'' \<in> {''outcome-unknown'', ''deadline-exhausted'', ''cancelled''}"

definition leg_result :: "json \<times> bool \<Rightarrow> bool \<Rightarrow> bool \<Rightarrow> json" where
  "leg_result out was_cancelled current =
     (if \<not> current then durable_result False (JObj [(''code'', JStr ''outcome-unknown'')])
      else if was_cancelled then durable_result False (JObj [(''code'', JStr ''cancelled'')])
      else durable_result (snd out) (fst out))"

definition leg_finish :: "leg \<Rightarrow> json \<times> bool \<Rightarrow> bool \<Rightarrow> bool \<Rightarrow> renv \<Rightarrow> route \<Rightarrow> route \<times> route_pc list" where
  "leg_finish l out was_cancelled current env w =
     (record_result env l (leg_result out was_cancelled current) (leg_unknown out current \<or> was_cancelled) w,
      [LegClose l out was_cancelled current])"

definition leg_close :: "leg \<Rightarrow> json \<times> bool \<Rightarrow> bool \<Rightarrow> bool \<Rightarrow> renv \<Rightarrow> route \<Rightarrow> route \<times> route_pc list" where
  "leg_close l out was_cancelled current env w =
     (let w1 = (close_opening l w)\<lparr>ro_cancelled := filter (\<lambda>x. x \<noteq> lg_operation l) (ro_cancelled w)\<rparr>;
          w2 = w1\<lparr>ro_legs := (if lg_operation l \<in> set (ro_legs w1) then ro_legs w1 else ro_legs w1 @ [lg_operation l])\<rparr>;
          v = member (leg_result out was_cancelled current) ''value''
      in (if was_cancelled then terminal env (lg_rid l) (Inl (''cancelled'', ''cancelled before persist'')) w1
          else if leg_unknown out current then terminal env (lg_rid l) (Inl (''outcome-unknown'', ''authority lost before persist'')) w1
          else if snd out then terminal env (lg_rid l) (Inr (fst out)) w2
          else terminal env (lg_rid l) (Inl (opt_or (get_str v ''code'') ''remote-error'', cd_text (re_codec env) v)) w2, []))"

fun thread_step :: "route_pc \<Rightarrow> renv \<Rightarrow> route \<Rightarrow> route \<times> route_pc list" where
  "thread_step (OpenLegs doc) = open_legs doc"
| "thread_step (OpenReplay rid oper) = open_replay rid oper"
| "thread_step (OpenQuota rid oper body) = open_quota rid oper body"
| "thread_step (OpenLease rid oper body) = open_lease rid oper body"
| "thread_step (OpenGrant l) = open_grant l"
| "thread_step (OpenProvides l) = open_provides l"
| "thread_step (OpenAdmit l) = open_admit l"
| "thread_step (OpenSpawn l) = open_spawn l"
| "thread_step (LegOwner l) = leg_owner l"
| "thread_step (LegCancel l) = leg_cancel l"
| "thread_step (LegInvoke l) = leg_invoke l"
| "thread_step (LegKernel l) = (\<lambda>env w. (fst (leg_kernel l env w), []))"
| "thread_step (LegSettle l out) = leg_settle l out"
| "thread_step (LegLive l out c) = leg_live l out c"
| "thread_step (LegFinish l out c cur) = leg_finish l out c cur"
| "thread_step (LegClose l out c cur) = leg_close l out c cur"

text \<open>The thread at a position of the list takes a step.\<close>

definition run_thread :: "nat \<Rightarrow> renv \<Rightarrow> route \<Rightarrow> route" where
  "run_thread i env w =
     (case thread_step (ro_threads w ! i) env w of
        (w1, new) \<Rightarrow> w1\<lparr>ro_threads := take i (ro_threads w) @ new @ drop (Suc i) (ro_threads w)\<rparr>)"

subsection \<open>Other frames\<close>

definition on_call_cancel :: "json \<Rightarrow> route \<Rightarrow> route" where
  "on_call_cancel doc w =
     (case get_str (member doc ''body'') ''operation_id'' of
        None \<Rightarrow> w
      | Some oper \<Rightarrow>
          if oper = [] then w
          else w\<lparr>ro_cancelled := (if oper \<in> set (ro_cancelled w) then ro_cancelled w else ro_cancelled w @ [oper])\<rparr>)"

definition on_op_query :: "renv \<Rightarrow> json \<Rightarrow> route \<Rightarrow> route" where
  "on_op_query env doc w =
     route_answer env ''op.result'' (rid_of doc)
       (case operation (re_codec env) (ro_peer w) (text_of (member doc ''body'') ''operation_id'') (sv_store (ro_service w)) of
          Inr done \<Rightarrow> JObj [(''state'', member done ''state''), (''result'', member done ''result'')]
        | Inl _ \<Rightarrow> JObj [(''state'', JStr ''unknown'')]) w"

definition on_lease_renew :: "renv \<Rightarrow> json \<Rightarrow> route \<Rightarrow> route" where
  "on_lease_renew env doc w =
     (let body = member doc ''body''; token = text_of body ''token'';
          fence = opt_or (Option.bind (get_str body ''fence'') parse_u64) U64_MAX;
          seq = opt_or (get_u64 body ''seq'') 0;
          reply = (\<lambda>status t. JObj [(''status'', JStr status), (''token'', t), (''seq'', j_nat seq)])
      in case renew_seq (re_svc env) (ro_peer w) token fence seq (opt_or (get_u64 body ''ttl_ms'') 0) (ro_service w) of
           (srv, r) \<Rightarrow>
             route_answer env ''lease.renewed'' (rid_of doc)
               (case r of
                  Inr v \<Rightarrow> reply ''ok'' (member v ''lease'')
                | Inl e \<Rightarrow> reply (if e = ''stale-generation'' then ''stale'' else ''retired'') (JStr token))
               (w\<lparr>ro_service := srv\<rparr>))"

definition attested :: "codec \<Rightarrow> kernel \<Rightarrow> json list" where
  "attested cd k =
     sort_key (\<lambda>a. get_str a ''logical'')
       (take 256 (map (\<lambda>c. JObj [(''logical'', member c ''logical''), (''instance'', JStr (cd_text cd (member c ''instance''))),
                                (''generation'', JStr (cd_text cd (member c ''generation'')))])
          (filter (\<lambda>c. member c ''state'' = JStr ''Active'') (opt_or (as_array (member (inventory k) ''instances'')) []))))"

text \<open>The operations of the peer's list that the ledger does not have, and the end of their streams.\<close>

definition revoked_ids :: "renv \<Rightarrow> json \<Rightarrow> route \<Rightarrow> string list" where
  "revoked_ids env doc w =
     filter (\<lambda>i. i \<noteq> [] \<and> isl (operation (re_codec env) (ro_peer w) i (sv_store (ro_service w))))
       (map (\<lambda>x. text_of x ''operation_id'') (opt_or (get_array (member doc ''body'') ''operations'') []))"

definition on_inventory :: "renv \<Rightarrow> json \<Rightarrow> route \<Rightarrow> route" where
  "on_inventory env doc w =
     (let ids = revoked_ids env doc w;
          w1 = w\<lparr>ro_streams := hm_map_values (\<lambda>st. if es_operation st \<in> set ids then st\<lparr>es_ended := True\<rparr> else st) (ro_streams w)\<rparr>
      in route_answer env ''inventory.result'' (rid_of doc)
           (JObj [(''revoked'', JArr (map (\<lambda>i. JObj [(''operation_id'', JStr i)]) ids)), (''unknown'', JArr []),
                  (''activations'', JArr (attested (re_codec env) (sv_kernel (ro_service w))))]) w1)"

definition on_subscribe :: "json \<Rightarrow> route \<Rightarrow> route \<times> json" where
  "on_subscribe doc w =
     (let topics = take 128 (filter_map as_str (opt_or (get_array (member doc ''body'') ''topics'') []))
      in (w\<lparr>ro_subs := fold (\<lambda>t m. hm_insert t 1 m) topics []\<rparr>, JObj [(''topics'', JArr (map JStr topics))]))"

definition first_context :: "nat \<Rightarrow> kernel \<Rightarrow> string \<times> string" where
  "first_context pick k =
     (let cs = hm_values (ctx_current_all (k_contexts k)) in
      if cs = [] then (''0'', ''0'')
      else (let c = cs ! (pick mod length cs) in (show_nat (cr_instance c), show_nat (cr_generation c))))"

definition on_local_emit :: "renv \<Rightarrow> string \<Rightarrow> json \<Rightarrow> route \<Rightarrow> route" where
  "on_local_emit env topic payload w =
     (if \<not> hm_contains (ro_subs w) topic then w
      else let key = (''*'', topic); seq = opt_or (hm_get (ro_seqs w) key) 0 + 1;
               w1 = w\<lparr>ro_seqs := hm_insert key seq (ro_seqs w)\<rparr>;
               inst = first_context (re_pick env) (sv_kernel (ro_service w))
           in case post env (JObj (header ''event.deliver'' (''ev-'' @ show_nat seq) (ro_session w) @
                  [(''instance_id'', JStr (fst inst)), (''generation'', JStr (snd inst)),
                   (''body'', JObj [(''topic'', JStr topic), (''payload'', payload), (''seq'', j_nat seq)])])) w1 of
                (w2, sent) \<Rightarrow> if sent then w2\<lparr>ro_delivered := ro_delivered w2 + 1\<rparr> else w2\<lparr>ro_dropped := ro_dropped w2 + 1\<rparr>)"

subsection \<open>Streams\<close>

definition INITIAL_GRANT :: nat where
  "INITIAL_GRANT = 65536"

definition MAX_STREAM_BYTES :: nat where
  "MAX_STREAM_BYTES = 1048576"

definition TOPUP :: nat where
  "TOPUP = 32768"

datatype stream_out = SAccept nat | SOver | SIgnore

definition fresh_stream :: exec_stream where
  "fresh_stream = \<lparr>es_next_seq = 0, es_received = 0, es_granted = INITIAL_GRANT, es_ended = False, es_operation = []\<rparr>"

definition tag_stream :: "string \<Rightarrow> exec_stream \<Rightarrow> exec_stream" where
  "tag_stream oper st = (if es_operation st = [] \<and> oper \<noteq> [] then st\<lparr>es_operation := oper\<rparr> else st)"

definition saturate :: "nat \<Rightarrow> nat" where
  "saturate n = min n U64_MAX"

definition take_chunk :: "nat \<Rightarrow> nat \<Rightarrow> exec_stream \<Rightarrow> exec_stream \<times> stream_out" where
  "take_chunk seq len st =
     (let st1 = st\<lparr>es_next_seq := seq + 1, es_received := es_received st + len\<rparr>;
          topup = (if es_granted st < es_received st1 + TOPUP \<and> es_granted st < MAX_STREAM_BYTES
                   then min TOPUP (MAX_STREAM_BYTES - es_granted st) else 0)
      in (st1\<lparr>es_granted := es_granted st + topup\<rparr>, SAccept topup))"

definition stream_chunk :: "nat \<Rightarrow> nat \<Rightarrow> exec_stream \<Rightarrow> exec_stream \<times> stream_out" where
  "stream_chunk seq len st =
     (if es_ended st then (st, SIgnore)
      else if es_next_seq st = 0 \<and> es_received st = 0 then take_chunk seq len st
      else if seq \<noteq> es_next_seq st then (st, SIgnore)
      else if es_granted st < saturate (es_received st + len) \<or> MAX_STREAM_BYTES < saturate (es_received st + len)
      then (st\<lparr>es_ended := True\<rparr>, SOver)
      else take_chunk seq len st)"

definition inject_chunk :: "renv \<Rightarrow> string \<Rightarrow> string \<Rightarrow> nat \<Rightarrow> string \<Rightarrow> route \<Rightarrow> route" where
  "inject_chunk env oper stream seq chunk w =
     (if oper = [] then w
      else case hm_get (ro_op_provider w) oper of
        None \<Rightarrow> w
      | Some m \<Rightarrow>
          if instance_ref_of (sv_kernel (ro_service w)) (op_logical m) = Some (op_owner m) \<and>
             lease_live (re_now env) (ro_peer w) (op_logical m) (op_fence m) (op_owner m) (ro_service w)
          then w\<lparr>ro_injected := ro_injected w @ [(op_owner m, stream, seq, utf8_lossy chunk)]\<rparr>
          else w)"

definition stream_post :: "renv \<Rightarrow> string \<Rightarrow> string \<Rightarrow> (string \<times> json) list \<Rightarrow> route \<Rightarrow> route" where
  "stream_post env ty mid body w = fst (post env (JObj (header ty mid (ro_session w) @ [(''body'', JObj body)])) w)"

text \<open>What follows the accounting of a chunk.\<close>

definition stream_reply :: "renv \<Rightarrow> string \<Rightarrow> string \<Rightarrow> nat \<Rightarrow> string \<Rightarrow> stream_out \<Rightarrow> route \<Rightarrow> route" where
  "stream_reply env oper stream seq chunk out w =
     (case out of
        SIgnore \<Rightarrow> w\<lparr>ro_stream_dropped := ro_stream_dropped w + 1\<rparr>
      | SOver \<Rightarrow>
          stream_post env ''stream.cancel'' (''sx-'' @ stream) [(''stream_id'', JStr stream), (''status'', JStr ''error'')]
            (w\<lparr>ro_stream_dropped := ro_stream_dropped w + 1\<rparr>)
      | SAccept topup \<Rightarrow>
          (let w1 = w\<lparr>ro_stream_received := ro_stream_received w + length chunk\<rparr>;
               w2 = (if 0 < topup
                     then stream_post env ''stream.credit'' (''sc-'' @ stream @ ''-'' @ show_nat seq)
                            [(''stream_id'', JStr stream), (''credit'', j_nat topup)] w1
                     else w1)
           in inject_chunk env oper stream seq chunk w2))"

definition on_stream_data :: "renv \<Rightarrow> json \<Rightarrow> route \<Rightarrow> route" where
  "on_stream_data env doc w =
     (let body = member doc ''body''; stream = text_of body ''stream_id''; seq = opt_or (get_u64 body ''seq'') U64_MAX;
          oper = text_of body ''operation_id'' in
      if stream = [] \<or> 128 < length stream \<or> seq = U64_MAX then w
      else case b64_decode (text_of body ''bytes'') of
        None \<Rightarrow> w
      | Some chunk \<Rightarrow>
          if \<not> hm_contains (ro_streams w) stream \<and> 128 \<le> length (ro_streams w) then w
          else (case stream_chunk seq (length chunk) (tag_stream oper (opt_or (hm_get (ro_streams w) stream) fresh_stream)) of
                  (st, out) \<Rightarrow>
                    stream_reply env oper stream seq chunk out (w\<lparr>ro_streams := hm_insert stream st (ro_streams w)\<rparr>)))"

definition on_stream_terminal :: "json \<Rightarrow> route \<Rightarrow> route" where
  "on_stream_terminal doc w =
     (let stream = text_of (member doc ''body'') ''stream_id'' in
      if stream = [] then w else w\<lparr>ro_streams := hm_modify stream (\<lambda>st. st\<lparr>es_ended := True\<rparr>) (ro_streams w)\<rparr>)"

definition send_stream_chunk :: "renv \<Rightarrow> string \<Rightarrow> nat \<Rightarrow> string \<Rightarrow> route \<Rightarrow> route" where
  "send_stream_chunk env stream seq payload w =
     (if stream = [] \<or> 128 < length stream then w
      else let body = JObj [(''stream_id'', JStr stream), (''seq'', j_nat seq), (''bytes'', JStr (b64_encode payload)), (''credit'', JInt 0)];
               doc = JObj (header ''stream.data'' (''xd-'' @ stream @ ''-'' @ show_nat seq) (ro_session w) @ [(''body'', body)])
           in if isl (rm_validate_body ''stream.data'' body) then w
              else w\<lparr>ro_session := fst (send_data (re_limits env) (re_codec env) doc (ro_session w)), ro_posted := ro_posted w @ [doc]\<rparr>)"

subsection \<open>The handler\<close>

definition on_message :: "renv \<Rightarrow> json \<Rightarrow> route \<Rightarrow> route" where
  "on_message env doc w =
     (let ty = text_of doc ''type'' in
      if ty = ''call.open'' then w\<lparr>ro_threads := ro_threads w @ [OpenLegs doc]\<rparr>
      else if ty = ''call.cancel'' then on_call_cancel doc w
      else if ty = ''op.query'' then on_op_query env doc w
      else if ty = ''lease.renew'' then on_lease_renew env doc w
      else if ty = ''inventory.reconcile'' then on_inventory env doc w
      else if ty = ''event.subscribe''
      then (case on_subscribe doc w of (w1, body) \<Rightarrow> route_answer env ''event.subscribed'' (rid_of doc) body w1)
      else if ty = ''stream.data'' then on_stream_data env doc w
      else if ty = ''stream.complete'' \<or> ty = ''stream.cancel'' then on_stream_terminal doc w
      else w)"

definition notify_revoked :: "renv \<Rightarrow> string \<Rightarrow> nat \<Rightarrow> route \<Rightarrow> route" where
  "notify_revoked env target fence w =
     stream_post env ''revoke.notice'' (''rev-'' @ show_nat fence) [(''target'', JStr target), (''fence'', JStr (show_nat fence))] w"

definition route_inspect :: "route \<Rightarrow> json" where
  "route_inspect w =
     JObj [(''legs'', j_nat (length (ro_legs w))), (''opening'', j_nat (length (ro_opening w))),
           (''subs'', JArr (map JStr (hm_keys (ro_subs w)))), (''delivered'', j_nat (ro_delivered w)),
           (''dropped'', j_nat (ro_dropped w)), (''streams'', j_nat (length (ro_streams w))),
           (''stream_received'', j_nat (ro_stream_received w)), (''stream_dropped'', j_nat (ro_stream_dropped w))]"

definition served_providers :: "nat \<Rightarrow> route \<Rightarrow> (string \<times> nat) list" where
  "served_providers now w = live_provider_fences now (ro_peer w) (ro_service w)"

subsection \<open>Runs\<close>

text \<open>
  Threads of the route take steps, frames arrive, the service emits events and chunks and withdraws providers; everything else may change
  the service, as long as its ledger only grows, and the session, as long as its peer and its name stay.
\<close>

inductive route_step :: "renv \<Rightarrow> route \<Rightarrow> route \<Rightarrow> bool" where
  Thread: "i < length (ro_threads w) \<Longrightarrow> route_step env w (run_thread i env w)"
| Message: "route_step env w (on_message env doc w)"
| Emit: "route_step env w (on_local_emit env topic payload w)"
| Chunk: "route_step env w (send_stream_chunk env stream seq payload w)"
| Notify: "route_step env w (notify_revoked env target fence w)"
| Outside: "store_le (sv_store (ro_service w)) (sv_store srv) \<Longrightarrow> route_step env w (w\<lparr>ro_service := srv\<rparr>)"
| Engine: "ss_peer ses = ro_peer w \<Longrightarrow> ss_session_id ses = ss_session_id (ro_session w) \<Longrightarrow> route_step env w (w\<lparr>ro_session := ses\<rparr>)"

text \<open>A run with the states it has been in, each with the environment of the step that left it.\<close>

inductive route_run :: "route \<Rightarrow> (renv \<times> route) list \<Rightarrow> route \<Rightarrow> bool" where
  Start: "route_run w [] w"
| Step: "route_run w h v \<Longrightarrow> route_step env v u \<Longrightarrow> route_run w (h @ [(env, v)]) u"

end
