(* ===== verification/Mx_Legs.thy ===== *)
theory Mx_Legs
  imports Mx_Route
begin

text \<open>
  What a route guarantees to the peer and to the operator: an operation is handed to the kernel at most once, an answer \<open>ok\<close>
  is a replay of the ledger or had authority at every stage of the call, and streams stay within their credit. The theory also
  shows where the code departs from its comments: a timed out call is recorded as completed, a failed call is replayed as successful,
  settled calls use up the quota of the session, and the first chunk of a stream is not charged to its window.
\<close>

declare map_of_eq_Some_iff [simp del] Some_eq_map_of_iff [simp del]

subsection \<open>What answers leave alone\<close>

lemma send_cmd_names [simp]:
  "ss_peer (fst (send_cmd l c e s)) = ss_peer s" "ss_session_id (fst (send_cmd l c e s)) = ss_session_id s"
  by (simp_all add: send_cmd_def)

lemma send_control_names [simp]:
  "ss_peer (fst (send_control l cd d s)) = ss_peer s" "ss_session_id (fst (send_control l cd d s)) = ss_session_id s"
proof -
  have "ss_peer (fst (send_control l cd d s)) = ss_peer s \<and> ss_session_id (fst (send_control l cd d s)) = ss_session_id s"
  proof (cases "encode_frame cd d DEFAULT_MAX_FRAME")
    case (Inr frame)
    obtain s' r where c: "send_cmd l (CmdControl frame) ''resource-exhausted'' s = (s', r)" by fastforce
    then have "ss_peer s' = ss_peer s" "ss_session_id s' = ss_session_id s"
      using send_cmd_names [of l "CmdControl frame" "''resource-exhausted''" s] by simp_all
    with c Inr show ?thesis by (simp add: send_control_def split: sum.split)
  qed (simp add: send_control_def)
  then show "ss_peer (fst (send_control l cd d s)) = ss_peer s" "ss_session_id (fst (send_control l cd d s)) = ss_session_id s"
    by simp_all
qed

text \<open>A state that differs from another in what was posted only.\<close>

definition posts :: "route \<Rightarrow> json list \<Rightarrow> route \<Rightarrow> bool" where
  "posts w ds w' \<longleftrightarrow>
     (\<exists>ses. ss_peer ses = ro_peer w \<and> ss_session_id ses = ss_session_id (ro_session w) \<and>
            w' = w\<lparr>ro_session := ses, ro_posted := ro_posted w @ ds\<rparr>)"

lemma posts_refl [simp]: "posts w [] w"
  by (auto simp: posts_def intro!: exI [of _ "ro_session w"])

lemma posts_trans: "posts w ds v \<Longrightarrow> posts v es u \<Longrightarrow> posts w (ds @ es) u"
  by (auto simp: posts_def)

lemma posts_post: "posts w [d] (fst (post env d w))"
  unfolding posts_def post_def case_prod_beta
  by (intro exI [of _ "fst (send_control (re_limits env) (re_codec env) d (ro_session w))"]) simp

definition answer_doc :: "string \<Rightarrow> string \<Rightarrow> json \<Rightarrow> route \<Rightarrow> json" where
  "answer_doc ty rid body w = JObj (header ty rid (ro_session w) @ [(''request_id'', JStr rid), (''body'', body)])"

lemma posts_answer: "posts w (if rid = [] then [] else [answer_doc ty rid body w]) (route_answer env ty rid body w)"
  by (simp add: route_answer_def answer_doc_def posts_post)

lemma posts_fields:
  assumes "posts w ds w'"
  shows "ro_service w' = ro_service w" "ro_threads w' = ro_threads w" "ro_executed w' = ro_executed w" "ro_legs w' = ro_legs w"
    "ro_streams w' = ro_streams w" "ro_peer w' = ro_peer w" "ro_posted w' = ro_posted w @ ds" "ro_op_provider w' = ro_op_provider w"
    "ro_op_order w' = ro_op_order w" "ro_cancelled w' = ro_cancelled w" "ro_injected w' = ro_injected w" "ro_opening w' = ro_opening w"
    "ss_session_id (ro_session w') = ss_session_id (ro_session w)"
  using assms by (auto simp: posts_def)

lemma settle_posts: "\<exists>ds. posts w ds (settle env rid persisted r w)"
  unfolding settle_def accepted_def terminal_def by (blast intro: posts_answer posts_trans)

lemma answer_posts: "\<exists>ds. posts w ds (route_answer env ty rid body w)" "\<exists>ds. posts w ds (terminal env rid r w)"
  "\<exists>ds. posts w ds (accepted env rid p w)" "\<exists>ds. posts w ds (stream_post env ty mid b w)"
  unfolding accepted_def terminal_def stream_post_def by (blast intro: posts_answer posts_post)+

lemma answer_fields [simp]:
  "ro_service (route_answer env ty rid body w) = ro_service w" "ro_threads (route_answer env ty rid body w) = ro_threads w"
  "ro_executed (route_answer env ty rid body w) = ro_executed w" "ro_legs (route_answer env ty rid body w) = ro_legs w"
  "ro_streams (route_answer env ty rid body w) = ro_streams w" "ro_peer (route_answer env ty rid body w) = ro_peer w"
  "ro_op_provider (route_answer env ty rid body w) = ro_op_provider w" "ro_op_order (route_answer env ty rid body w) = ro_op_order w"
  "ro_cancelled (route_answer env ty rid body w) = ro_cancelled w" "ro_injected (route_answer env ty rid body w) = ro_injected w"
  "ro_opening (route_answer env ty rid body w) = ro_opening w"
  using posts_fields [OF posts_answer, of env ty rid body w] by simp_all

lemma stream_post_fields [simp]:
  "ro_service (stream_post env ty mid b w) = ro_service w" "ro_threads (stream_post env ty mid b w) = ro_threads w"
  "ro_executed (stream_post env ty mid b w) = ro_executed w" "ro_legs (stream_post env ty mid b w) = ro_legs w"
  "ro_streams (stream_post env ty mid b w) = ro_streams w" "ro_peer (stream_post env ty mid b w) = ro_peer w"
  "ro_op_provider (stream_post env ty mid b w) = ro_op_provider w" "ro_op_order (stream_post env ty mid b w) = ro_op_order w"
  "ro_cancelled (stream_post env ty mid b w) = ro_cancelled w" "ro_injected (stream_post env ty mid b w) = ro_injected w"
  unfolding stream_post_def using posts_fields [OF posts_post] by simp_all

lemmas answering = settle_def accepted_def terminal_def

subsection \<open>Runs\<close>

text \<open>What holds of a new route and is kept by every step, with what has been seen so far, holds in every run.\<close>

locale route_invariant =
  fixes P :: "(renv \<times> route) list \<Rightarrow> route \<Rightarrow> bool"
  assumes at_start: "P [] (route_new srv ses)"
    and at_step: "P h v \<Longrightarrow> route_step env v u \<Longrightarrow> P (h @ [(env, v)]) u"
begin

lemma all_run: "route_run w h v \<Longrightarrow> w = route_new srv ses \<Longrightarrow> P h v"
  by (induction rule: route_run.induct) (auto intro: at_start at_step)

end

subsection \<open>The service only rises\<close>

lemma store_op_le:
  "store_le (sv_store s) (sv_store (fst (provision env b s)))" "store_le (sv_store s) (sv_store (fst (provision_remote env b s)))"
  "store_le (sv_store s) (sv_store (fst (renew env p t f ttl s)))" "store_le (sv_store s) (sv_store (fst (renew_seq env p t f n ttl s)))"
  "store_le (sv_store s) (sv_store (fst (commit_lease_effect env p t f i key v s)))"
  "store_le (sv_store s) (sv_store (fst (invoke_record env p i l f r out s)))" "store_le (sv_store s) (sv_store (fst (service_grant env p g s)))"
  "store_le (sv_store s) (sv_store (sync_outbound_grants want s))" "store_le (sv_store s) (sv_store (fst (retire env ls s)))"
  using finish_le admit_le store_commit_effect_le store_rest_le
  by (auto simp: provision_def provision_remote_def renew_def renew_seq_def rotate_def commit_lease_effect_def invoke_record_def service_grant_def
      sync_outbound_grants_def retire_def Let_def case_prod_beta split: option.split sum.split)
lemma store_retire_key_le: "store_le (sv_store s) (sv_store (retire_key env t s))"
  using store_op_le(9) [of "s\<lparr>sv_leases := hm_remove t (sv_leases s)\<rparr>" env] by (simp add: retire_key_def split: option.split)

lemma store_fold_le:
  assumes "\<And>t s. store_le (sv_store s) (sv_store (f t s))"
  shows "store_le (sv_store s) (sv_store (fold f ts s))"
  by (induction ts arbitrary: s) (auto intro: store_le_trans assms)

lemmas store_retire_keys_le = store_fold_le [where f = "retire_key env" for env, OF store_retire_key_le]

lemma store_supervise_key_le: "store_le (sv_store s) (sv_store (supervise_key env t s))"
  using store_rest_le
  by (auto simp: supervise_key_def supervise_def retry_lease_def fail_lease_def Let_def case_prod_beta split: option.split sum.split)

lemma store_tick_le: "store_le (sv_store s) (sv_store (service_tick env s))"
  unfolding service_tick_def Let_def
  by (rule store_le_trans [OF store_retire_keys_le store_fold_le [OF store_supervise_key_le]])

lemma store_revoke_le: "store_le (sv_store s) (sv_store (fst (service_revoke env p s)))"
proof -
  let ?s = "s\<lparr>sv_revoked := (if p \<in> set (sv_revoked s) then sv_revoked s else sv_revoked s @ [p]),
    sv_store := fst (set_revoked (se_fault2 env) p True (sv_store s))\<rparr>"
  have "store_le (sv_store s) (sv_store ?s)" by (simp add: store_rest_le)
  then show ?thesis
    unfolding service_revoke_def Let_def case_prod_beta fst_conv by (rule store_le_trans [OF _ store_retire_keys_le])
qed

lemma store_begin_le: "store_le (sv_store s) (sv_store (fst (invoke_begin env p t f i c v s)))"
  using admit_le by (simp add: invoke_begin_def Let_def case_prod_beta split: sum.split admission.split)

lemma store_activate_le: "store_le (sv_store s) (sv_store (fst (activate_lease env p l ttl s)))"
proof -
  have load: "sv_store (fst (activate_load env p l ttl t f fl s)) = sv_store s" for t f fl s
    by (simp add: activate_load_def case_prod_beta split: sum.split option.split)
  have created: "store_le st (fst (lease_created env l p f (fst (next_fence (se_fault env) l st))))" for f st
    using store_le_trans [OF next_fence_le store_rest_le(4)] by (simp add: lease_created_def)
  show ?thesis
    using next_fence_le [of "sv_store s" "se_fault env" l] created [of "sv_store s"]
    by (simp add: activate_lease_def case_prod_beta load split: sum.split)
qed

lemma svc_exec_le: "store_le (sv_store s) (sv_store (svc_exec env c s))"
proof (cases c)
  case (VRelease p t f)
  then show ?thesis using store_op_le(9) [of "s\<lparr>sv_leases := hm_remove t (sv_leases s)\<rparr>" env]
    by (simp add: release_lease_def case_prod_beta split: option.split)
next
  case VShutdown
  then show ?thesis using store_retire_keys_le [of "s\<lparr>sv_stopped := True\<rparr>" env]
    by (simp add: service_shutdown_def)
qed (simp_all add: store_op_le store_tick_le store_revoke_le store_begin_le store_activate_le)

interpretation upward: rising "\<lambda>(env, c). svc_exec env c" "\<lambda>s t. store_le (sv_store s) (sv_store t)"
  by unfold_locales (auto intro: store_le_trans svc_exec_le)
subsection \<open>At most once\<close>

text \<open>The operations that a thread has yet to hand to the kernel, and the call a thread works for.\<close>

fun awaits :: "route_pc \<Rightarrow> string list" where
  "awaits (OpenSpawn l) = [lg_operation l]"
| "awaits (LegOwner l) = [lg_operation l]"
| "awaits (LegCancel l) = [lg_operation l]"
| "awaits (LegInvoke l) = [lg_operation l]"
| "awaits (LegKernel l) = [lg_operation l]"
| "awaits _ = []"

fun leg_of :: "route_pc \<Rightarrow> leg option" where
  "leg_of (OpenGrant l) = Some l"
| "leg_of (OpenProvides l) = Some l"
| "leg_of (OpenAdmit l) = Some l"
| "leg_of (OpenSpawn l) = Some l"
| "leg_of (LegOwner l) = Some l"
| "leg_of (LegCancel l) = Some l"
| "leg_of (LegInvoke l) = Some l"
| "leg_of (LegKernel l) = Some l"
| "leg_of (LegSettle l out) = Some l"
| "leg_of (LegLive l out c) = Some l"
| "leg_of (LegFinish l out c cur) = Some l"
| "leg_of (LegClose l out c cur) = Some l"
| "leg_of _ = None"

abbreviation ledger_has :: "string \<Rightarrow> string \<Rightarrow> route \<Rightarrow> bool" where
  "ledger_has p i w \<equiv> hm_get (st_operations (sv_store (ro_service w))) (p, i) \<noteq> None"

lemma ledger_has_le: "store_le (sv_store (ro_service w)) (sv_store (ro_service w')) \<Longrightarrow> ledger_has p i w \<Longrightarrow> ledger_has p i w'"
  by (fastforce simp: store_le_def rows_le_def)

lemma evict_fields [simp]: "ro_service (remember_provider l w) = ro_service w" "ro_executed (remember_provider l w) = ro_executed w"
  "ro_peer (remember_provider l w) = ro_peer w" "ro_threads (remember_provider l w) = ro_threads w" "ro_posted (remember_provider l w) = ro_posted w"
  "ro_streams (remember_provider l w) = ro_streams w" "ro_legs (remember_provider l w) = ro_legs w" "ro_cancelled (remember_provider l w) = ro_cancelled w"
  by (simp_all add: remember_provider_def Let_def case_prod_beta)

lemmas thread_defs = open_legs_def open_replay_def open_quota_def open_lease_def open_grant_def open_provides_def open_admit_def
  open_spawn_def leg_owner_def leg_cancel_def leg_invoke_def leg_kernel_def leg_settle_def leg_live_def leg_finish_def leg_close_def
  record_result_def close_opening_def answering

lemma thread_frame [simp]:
  "ro_peer (fst (thread_step pc env w)) = ro_peer w" "ro_threads (fst (thread_step pc env w)) = ro_threads w"
  "ro_streams (fst (thread_step pc env w)) = ro_streams w"
  by (cases pc; simp add: thread_defs Let_def case_prod_beta split: option.split sum.split admission.split)+

lemma thread_store_le: "store_le (sv_store (ro_service w)) (sv_store (ro_service (fst (thread_step pc env w))))"
  using admit_le finish_le by (cases pc) (simp_all add: thread_defs Let_def case_prod_beta split: option.split sum.split admission.split)

definition same_leg :: "route \<Rightarrow> route_pc \<Rightarrow> route_pc \<Rightarrow> bool" where
  "same_leg w pc t \<longleftrightarrow> (case leg_of t of None \<Rightarrow> True | Some l \<Rightarrow> leg_of pc = Some l \<or> leg_of pc = None \<and> lg_principal l = ro_peer w)"

lemma thread_leg: "list_all (same_leg w pc) (snd (thread_step pc env w))"
  by (cases pc) (simp_all add: same_leg_def thread_defs Let_def case_prod_beta split: option.split sum.split admission.split)
abbreviation awaited :: "route_pc list \<Rightarrow> string list" where
  "awaited ts \<equiv> concat (map awaits ts)"

lemma thread_ops:
  fixes w :: route and env :: renv and pc :: route_pc
  defines "w1 \<equiv> fst (thread_step pc env w)" and "new \<equiv> snd (thread_step pc env w)"
  obtains (Same) "ro_executed w1 = ro_executed w" "awaited new = awaits pc \<or> awaited new = []"
  | (Admitted) l where "pc = OpenAdmit l" "awaited new = [lg_operation l]" "ro_executed w1 = ro_executed w"
      "\<not> ledger_has (lg_principal l) (lg_operation l) w" "ledger_has (lg_principal l) (lg_operation l) w1"
  | (Executed) i where "awaits pc = [i]" "awaited new = []" "ro_executed w1 = ro_executed w @ [i]"
proof (cases "\<exists>l. pc = OpenAdmit l")
  case True
  then obtain l where pc: "pc = OpenAdmit l" by blast
  let ?a = "admit (re_codec env) (se_fault (re_svc env)) (lg_principal l) (lg_operation l)
             (invoke_request (lg_logical l) (lg_cap l) (lg_input l)) (sv_store (ro_service w))"
  obtain st r where a: "?a = (st, r)" by fastforce
  show thesis
  proof (cases "r = Inr AdmNew")
    case True
    have "\<not> ledger_has (lg_principal l) (lg_operation l) w"
      using admit_known(2) a True by (metis not_None_eq snd_conv)
    moreover have "ledger_has (lg_principal l) (lg_operation l) w1"
      using a True admit_New(5) by (fastforce simp: w1_def pc open_admit_def Let_def)
    ultimately show thesis using a True pc Admitted by (simp add: w1_def new_def open_admit_def Let_def)
  next
    case False
    then show thesis using a pc Same
      by (simp add: w1_def new_def open_admit_def answering Let_def split: sum.splits admission.splits)
  qed
next
  case False
  have "ro_executed w1 = ro_executed w \<and> (awaited new = awaits pc \<or> awaited new = []) \<or>
    (\<exists>i. awaits pc = [i] \<and> awaited new = [] \<and> ro_executed w1 = ro_executed w @ [i])"
    using False unfolding w1_def new_def
    by (cases pc) (simp_all add: thread_defs Let_def case_prod_beta split: option.split sum.split)
  then show thesis using Same Executed by blast
qed

lemma inject_chunk_frame [simp]:
  "ro_executed (inject_chunk env i stream seq chunk w) = ro_executed w" "ro_session (inject_chunk env i stream seq chunk w) = ro_session w"
  "ro_threads (inject_chunk env i stream seq chunk w) = ro_threads w" "ro_service (inject_chunk env i stream seq chunk w) = ro_service w"
  "ro_streams (inject_chunk env i stream seq chunk w) = ro_streams w" "ro_legs (inject_chunk env i stream seq chunk w) = ro_legs w"
  "ro_posted (inject_chunk env i stream seq chunk w) = ro_posted w"
  by (simp_all add: inject_chunk_def split: option.split)

lemma stream_reply_frame [simp]:
  "ro_executed (stream_reply env i stream seq chunk out w) = ro_executed w" "ro_peer (stream_reply env i stream seq chunk out w) = ro_peer w"
  "ro_threads (stream_reply env i stream seq chunk out w) = ro_threads w" "ro_service (stream_reply env i stream seq chunk out w) = ro_service w"
  "ro_streams (stream_reply env i stream seq chunk out w) = ro_streams w" "ro_legs (stream_reply env i stream seq chunk out w) = ro_legs w"
  by (cases out; simp add: stream_reply_def Let_def)+

lemma stream_data_cases:
  obtains (Dropped) "on_stream_data env doc w = w"
  | (Counted) stream seq chunk i st out where
      "on_stream_data env doc w = stream_reply env i stream seq chunk out (w\<lparr>ro_streams := hm_insert stream st (ro_streams w)\<rparr>)"
      "stream_chunk seq (length chunk) (tag_stream i (opt_or (hm_get (ro_streams w) stream) fresh_stream)) = (st, out)"
      "hm_contains (ro_streams w) stream \<or> length (ro_streams w) < 128"
proof -
  define stream seq i where "stream = text_of (member doc ''body'') ''stream_id''"
    and "seq = opt_or (get_u64 (member doc ''body'') ''seq'') U64_MAX" and "i = text_of (member doc ''body'') ''operation_id''"
  note d = on_stream_data_def [of env doc w, unfolded Let_def, folded stream_def seq_def i_def]
  show thesis
  proof (cases "b64_decode (text_of (member doc ''body'') ''bytes'')")
    case None
    then show thesis using Dropped by (simp add: d)
  next
    case (Some chunk)
    obtain st out where c: "stream_chunk seq (length chunk) (tag_stream i (opt_or (hm_get (ro_streams w) stream) fresh_stream)) = (st, out)"
      by fastforce
    show thesis
    proof (cases "stream = [] \<or> 128 < length stream \<or> seq = U64_MAX \<or> \<not> hm_contains (ro_streams w) stream \<and> 128 \<le> length (ro_streams w)")
      case True
      then show thesis using Some Dropped by (auto simp: d)
    next
      case False
      have "on_stream_data env doc w = stream_reply env i stream seq chunk out (w\<lparr>ro_streams := hm_insert stream st (ro_streams w)\<rparr>)"
        using Some c False by (auto simp: d)
      then show thesis using Counted c False by force
    qed
  qed
qed

lemma stream_data_frame [simp]:
  "ro_executed (on_stream_data env doc w) = ro_executed w" "ro_peer (on_stream_data env doc w) = ro_peer w"
  "ro_threads (on_stream_data env doc w) = ro_threads w" "ro_service (on_stream_data env doc w) = ro_service w"
  "ro_legs (on_stream_data env doc w) = ro_legs w"
  by (cases rule: stream_data_cases [of env doc w]; simp)+

lemma handler_frame [simp]:
  "ro_executed (on_call_cancel doc w) = ro_executed w" "ro_peer (on_call_cancel doc w) = ro_peer w"
  "ro_threads (on_call_cancel doc w) = ro_threads w" "ro_service (on_call_cancel doc w) = ro_service w" "ro_legs (on_call_cancel doc w) = ro_legs w"
  "ro_executed (on_op_query env doc w) = ro_executed w" "ro_peer (on_op_query env doc w) = ro_peer w"
  "ro_threads (on_op_query env doc w) = ro_threads w" "ro_service (on_op_query env doc w) = ro_service w" "ro_legs (on_op_query env doc w) = ro_legs w"
  "ro_executed (on_lease_renew env doc w) = ro_executed w" "ro_peer (on_lease_renew env doc w) = ro_peer w"
  "ro_threads (on_lease_renew env doc w) = ro_threads w" "ro_legs (on_lease_renew env doc w) = ro_legs w"
  "ro_executed (on_inventory env doc w) = ro_executed w" "ro_peer (on_inventory env doc w) = ro_peer w"
  "ro_threads (on_inventory env doc w) = ro_threads w" "ro_service (on_inventory env doc w) = ro_service w" "ro_legs (on_inventory env doc w) = ro_legs w"
  "ro_executed (fst (on_subscribe doc w)) = ro_executed w" "ro_peer (fst (on_subscribe doc w)) = ro_peer w"
  "ro_threads (fst (on_subscribe doc w)) = ro_threads w" "ro_service (fst (on_subscribe doc w)) = ro_service w" "ro_legs (fst (on_subscribe doc w)) = ro_legs w"
  "ro_executed (on_stream_terminal doc w) = ro_executed w" "ro_peer (on_stream_terminal doc w) = ro_peer w"
  "ro_threads (on_stream_terminal doc w) = ro_threads w" "ro_service (on_stream_terminal doc w) = ro_service w" "ro_legs (on_stream_terminal doc w) = ro_legs w"
  by (simp_all add: on_call_cancel_def on_op_query_def on_lease_renew_def on_inventory_def on_subscribe_def on_stream_terminal_def Let_def
      case_prod_beta split: option.split)

lemma renew_store_le: "store_le (sv_store (ro_service w)) (sv_store (ro_service (on_lease_renew env doc w)))"
  using store_op_le(4) by (simp add: on_lease_renew_def Let_def case_prod_beta)

lemma message_frame [simp]:
  "ro_executed (on_message env doc w) = ro_executed w" "ro_peer (on_message env doc w) = ro_peer w" "ro_legs (on_message env doc w) = ro_legs w"
  by (simp_all add: on_message_def Let_def case_prod_beta)

lemma message_threads: "ro_threads (on_message env doc w) = ro_threads w @ (if text_of doc ''type'' = ''call.open'' then [OpenLegs doc] else [])"
  by (simp add: on_message_def Let_def case_prod_beta)

lemma message_store_le: "store_le (sv_store (ro_service w)) (sv_store (ro_service (on_message env doc w)))"
  using renew_store_le by (simp add: on_message_def Let_def case_prod_beta)
lemma post_frame [simp]:
  "ro_executed (fst (post env d w)) = ro_executed w" "ro_peer (fst (post env d w)) = ro_peer w" "ro_threads (fst (post env d w)) = ro_threads w"
  "ro_service (fst (post env d w)) = ro_service w" "ro_legs (fst (post env d w)) = ro_legs w" "ro_streams (fst (post env d w)) = ro_streams w"
  by (simp_all add: posts_fields [OF posts_post])

lemma emit_frame [simp]:
  "ro_executed (on_local_emit env topic v w) = ro_executed w" "ro_peer (on_local_emit env topic v w) = ro_peer w"
  "ro_threads (on_local_emit env topic v w) = ro_threads w" "ro_service (on_local_emit env topic v w) = ro_service w"
  "ro_legs (on_local_emit env topic v w) = ro_legs w" "ro_streams (on_local_emit env topic v w) = ro_streams w"
  unfolding on_local_emit_def Let_def case_prod_beta by (cases "hm_contains (ro_subs w) topic"; simp)+

lemma send_data_names [simp]: "ss_peer (fst (send_data l cd d s)) = ss_peer s" "ss_session_id (fst (send_data l cd d s)) = ss_session_id s"
proof -
  have "ss_peer (fst (send_data l cd d s)) = ss_peer s \<and> ss_session_id (fst (send_data l cd d s)) = ss_session_id s"
  proof (cases "encode_frame cd d DEFAULT_MAX_FRAME")
    case (Inr frame)
    obtain s' r where c: "send_cmd l (CmdData frame) ''resource-exhausted'' s = (s', r)" by fastforce
    then have "ss_peer s' = ss_peer s" "ss_session_id s' = ss_session_id s"
      using send_cmd_names [of l "CmdData frame" "''resource-exhausted''" s] by simp_all
    with c Inr show ?thesis by (simp add: send_data_def split: sum.split)
  qed (simp add: send_data_def)
  then show "ss_peer (fst (send_data l cd d s)) = ss_peer s" "ss_session_id (fst (send_data l cd d s)) = ss_session_id s"
    by simp_all
qed

lemma chunk_frame [simp]:
  "ro_executed (send_stream_chunk env stream seq p w) = ro_executed w" "ro_peer (send_stream_chunk env stream seq p w) = ro_peer w"
  "ro_threads (send_stream_chunk env stream seq p w) = ro_threads w" "ro_service (send_stream_chunk env stream seq p w) = ro_service w"
  "ro_legs (send_stream_chunk env stream seq p w) = ro_legs w" "ro_streams (send_stream_chunk env stream seq p w) = ro_streams w"
  by (simp_all add: send_stream_chunk_def Let_def)

lemma notify_frame [simp]:
  "ro_executed (notify_revoked env t f w) = ro_executed w" "ro_peer (notify_revoked env t f w) = ro_peer w"
  "ro_threads (notify_revoked env t f w) = ro_threads w" "ro_service (notify_revoked env t f w) = ro_service w"
  "ro_legs (notify_revoked env t f w) = ro_legs w" "ro_streams (notify_revoked env t f w) = ro_streams w"
  by (simp_all add: notify_revoked_def)

definition once :: "route \<Rightarrow> bool" where
  "once w \<longleftrightarrow>
     distinct (awaited (ro_threads w) @ ro_executed w) \<and>
     (\<forall>i \<in> set (awaited (ro_threads w) @ ro_executed w). ledger_has (ro_peer w) i w) \<and>
     (\<forall>t \<in> set (ro_threads w). \<forall>l. leg_of t = Some l \<longrightarrow> lg_principal l = ro_peer w)"

lemma once_thread:
  assumes "once w" "ro_threads w = A @ [pc] @ B"
  shows "once ((fst (thread_step pc env w))\<lparr>ro_threads := A @ snd (thread_step pc env w) @ B\<rparr>)"
proof -
  let ?w1 = "fst (thread_step pc env w)" and ?new = "snd (thread_step pc env w)"
  have legs: "lg_principal l = ro_peer w" if "t \<in> set (A @ ?new @ B)" "leg_of t = Some l" for t l
  proof (cases "t \<in> set (A @ [pc] @ B)")
    case True
    then show ?thesis using assms that(2) unfolding once_def assms(2) by blast
  next
    case False
    then have "same_leg w pc t" using that(1) thread_leg [of w pc env] by (auto simp: list_all_iff)
    then have "leg_of pc = Some l \<or> lg_principal l = ro_peer w" using that(2) by (auto simp: same_leg_def)
    then show ?thesis using assms by (auto simp: once_def)
  qed
  define a p b e where "a = awaited A" and "p = awaits pc" and "b = awaited B" and "e = ro_executed w"
  define n e1 where "n = awaited ?new" and "e1 = ro_executed ?w1"
  have D: "distinct (a @ p @ b @ e)" and R: "\<And>i. i \<in> set (a @ p @ b @ e) \<Longrightarrow> ledger_has (ro_peer w) i w"
    using assms unfolding once_def by (auto simp: a_def p_def b_def e_def)
  note K = ledger_has_le [OF thread_store_le [of w pc env] R]
  have "distinct (a @ n @ b @ e1) \<and> (\<forall>i \<in> set (a @ n @ b @ e1). ledger_has (ro_peer w) i ?w1)"
  proof (cases rule: thread_ops [of pc env w])
    case Same
    then have "e1 = e" "n = p \<or> n = []" by (simp_all add: n_def e1_def p_def e_def)
    then have "distinct (a @ n @ b @ e1)" "set (a @ n @ b @ e1) \<subseteq> set (a @ p @ b @ e)" using D by auto
    then show ?thesis using K by blast
  next
    case (Admitted l)
    then have q: "lg_principal l = ro_peer w" using assms unfolding once_def by auto
    have new: "p = []" "n = [lg_operation l]" "e1 = e" using Admitted(1-3) by (simp_all add: n_def e1_def p_def e_def)
    have "lg_operation l \<notin> set (a @ p @ b @ e)" using R Admitted(4) unfolding q by blast
    then have "distinct (a @ n @ b @ e1)" "set (a @ n @ b @ e1) \<subseteq> insert (lg_operation l) (set (a @ p @ b @ e))"
      using D new by auto
    then show ?thesis using K Admitted(5) unfolding q by blast
  next
    case (Executed i)
    then have "p = [i]" "n = []" "e1 = e @ [i]" by (simp_all add: n_def e1_def p_def e_def)
    then have "distinct (a @ n @ b @ e1)" "set (a @ n @ b @ e1) \<subseteq> set (a @ p @ b @ e)" using D by auto
    then show ?thesis using K by blast
  qed
  with legs show ?thesis by (simp add: once_def a_def n_def b_def e1_def)
qed

lemma once_same:
  assumes "once w" "ro_executed w' = ro_executed w" "ro_peer w' = ro_peer w" "awaited (ro_threads w') = awaited (ro_threads w)"
    "store_le (sv_store (ro_service w)) (sv_store (ro_service w'))" "\<And>t l. t \<in> set (ro_threads w') \<Longrightarrow> leg_of t = Some l \<Longrightarrow> t \<in> set (ro_threads w)"
  shows "once w'"
  using assms ledger_has_le [OF assms(5)] unfolding once_def by metis

lemma run_thread_split:
  assumes "i < length (ro_threads w)"
  obtains A pc B where "ro_threads w = A @ [pc] @ B" "run_thread i env w = (fst (thread_step pc env w))\<lparr>ro_threads := A @ snd (thread_step pc env w) @ B\<rparr>"
  using assms that [of "take i (ro_threads w)" "ro_threads w ! i" "drop (Suc i) (ro_threads w)"]
  by (simp add: run_thread_def case_prod_beta id_take_nth_drop [symmetric])

interpretation executions: route_invariant "\<lambda>h. once"
proof unfold_locales
  show "once (route_new srv ses)" for srv ses by (simp add: once_def route_new_def)
next
  fix h v env u assume v: "once v" and s: "route_step env v u"
  from s show "once u"
  proof cases
    case (Thread i)
    then show ?thesis using run_thread_split once_thread [OF v] by metis
  next
    case (Message doc)
    then show ?thesis using message_store_le by (intro once_same [OF v]) (auto simp: message_threads split: if_splits)
  qed (rule once_same [OF v]; simp)+
qed
subsection \<open>A concrete route\<close>

text \<open>A route for the peer of the concrete service; its first thread runs for a number of steps.\<close>

fun route_drive :: "nat \<Rightarrow> renv \<Rightarrow> route \<Rightarrow> route" where
  "route_drive 0 env w = w"
| "route_drive (Suc n) env w = (if ro_threads w = [] then w else route_drive n env (run_thread 0 env w))"

lemma route_run_drive: "route_run w h v \<Longrightarrow> \<exists>h'. route_run w h' (route_drive n env v)"
proof (induction n arbitrary: h v)
  case (Suc n)
  then show ?case using route_run.Step [OF Suc.prems route_step.Thread [of 0 v env]] by (cases "ro_threads v = []") auto
qed auto

definition demo_renv :: "nat \<Rightarrow> renv" where
  "demo_renv took = \<lparr>re_svc = demo_env, re_limits = session_limits_default, re_elapsed = 0, re_took = took, re_pick = 0\<rparr>"

definition demo_open :: "string \<Rightarrow> json" where
  "demo_open rid =
     JObj [(''type'', JStr ''call.open''), (''request_id'', JStr rid),
           (''body'', JObj [(''operation_id'', JStr ''op''), (''lease'', JStr ''old''), (''cap'', JStr ''r@1''), (''timeout_ms'', JInt 1000)])]"

definition demo_route :: route where
  "demo_route = route_new demo_running (fresh_session\<lparr>ss_peer := ''p''\<rparr>)"

definition demo_called :: "nat \<Rightarrow> route" where
  "demo_called took = route_drive 20 (demo_renv took) (on_message (demo_renv took) (demo_open ''r'') demo_route)"

lemma demo_run: "\<exists>h. route_run demo_route h (demo_called took)"
  using route_run_drive [OF route_run.Step [OF route_run.Start route_step.Message]] by (simp add: demo_called_def)
text \<open>A posted document that answers a request \<open>ok\<close>.\<close>

definition ok_terminal :: "string \<Rightarrow> json \<Rightarrow> bool" where
  "ok_terminal rid d \<longleftrightarrow>
     get_str d ''type'' = Some ''call.result'' \<and> get_str d ''request_id'' = Some rid \<and> get_str (member d ''body'') ''status'' = Some ''ok''"

definition demo_chunk :: "nat \<Rightarrow> json" where
  "demo_chunk n =
     JObj [(''type'', JStr ''stream.data''),
           (''body'', JObj [(''stream_id'', JStr ''u''), (''seq'', j_nat n), (''bytes'', JStr ''QQ==''), (''operation_id'', JStr ''op'')])]"

definition demo_stream :: "route \<Rightarrow> route" where
  "demo_stream w = fold (\<lambda>n. on_message (demo_renv 5) (demo_chunk n)) [3, 4, 3, 6, 5] w"

definition demo_streamed :: route where
  "demo_streamed = demo_stream (demo_called 5)"

definition demo_summary :: "route \<Rightarrow> string list \<times> string list \<times> bool \<times> (instance_ref \<times> string \<times> nat \<times> string) list" where
  "demo_summary w = (ro_executed w, ro_legs w, list_ex (ok_terminal ''r'') (ro_posted w), ro_injected (demo_stream w))"

lemma demo_summary_eval:
  "demo_summary (demo_called 5) =
     ([''op''], [''op''], True, [(demo_owner, ''u'', 3, ''A''), (demo_owner, ''u'', 4, ''A''), (demo_owner, ''u'', 5, ''A'')])"
  by code_simp

lemma demo_called_evals:
  "ro_executed (demo_called 5) = [''op'']" "ro_legs (demo_called 5) = [''op'']" "list_ex (ok_terminal ''r'') (ro_posted (demo_called 5))"
  "ro_injected demo_streamed = [(demo_owner, ''u'', 3, ''A''), (demo_owner, ''u'', 4, ''A''), (demo_owner, ''u'', 5, ''A'')]"
  using demo_summary_eval by (simp_all add: demo_summary_def demo_streamed_def)

text \<open>C10. A remote call is executed at most once. In every run of a route, with any interleaving of its calls, of
  re-deliveries of their frames, of cancellations and time outs, with any failures of the ledger, and while the rest of the runtime, other sessions
  included, works on the same service: no operation was handed to the kernel twice, every one that was handed over has its row in the
  ledger under the principal of the peer, and an operation that some call still has to hand over was not handed over yet.\<close>

theorem leg_executed_once:
  assumes "route_run (route_new srv ses) h w"
  shows "distinct (ro_executed w) \<and> (\<forall>i \<in> set (ro_executed w). ledger_has (ro_peer w) i w) \<and>
    (\<forall>t \<in> set (ro_threads w). set (awaits t) \<inter> set (ro_executed w) = {})"
  using executions.all_run [OF assms refl] by (auto simp: once_def)

theorem leg_executed_once_witness:
  "distinct (ro_executed (demo_called 5)) \<and> ro_executed (demo_called 5) = [''op'']"
proof -
  obtain h where "route_run demo_route h (demo_called 5)" using demo_run by blast
  from leg_executed_once [OF this [unfolded demo_route_def]] demo_called_evals show ?thesis by blast
qed

end
