(* ===== verification/Mx_Verdicts.thy ===== *)
theory Mx_Verdicts
  imports Mx_Legs
begin

text \<open>
  What the answers of a route are worth. An answer \<open>ok\<close> to a call is a replay of a completed row of the ledger or was given
  after the lease, the grant, the definition, the owner and the lease again were checked in this order, with the call neither cancelled nor refused by the
  ledger. Then the departures of the code from its comments: time outs, replays of failures, the quota of calls, and the window of streams.
\<close>

declare map_of_eq_Some_iff [simp del] Some_eq_map_of_iff [simp del]

subsection \<open>Stages of a call\<close>

text \<open>States of a history that pass a list of tests, in this order.\<close>

definition in_sequence :: "'a list \<Rightarrow> ('a \<Rightarrow> bool) list \<Rightarrow> bool" where
  "in_sequence h Ps \<longleftrightarrow> (\<exists>xs. subseq xs h \<and> list_all2 (\<lambda>P x. P x) Ps xs)"

lemma in_sequence_Nil [simp]: "in_sequence h []"
  by (auto simp: in_sequence_def)

lemma in_sequence_later: "in_sequence h Ps \<Longrightarrow> in_sequence (h @ h') Ps"
  unfolding in_sequence_def by (blast intro: list_emb_append2 subseq_rev_drop_many)

lemma in_sequence_next: "in_sequence h Ps \<Longrightarrow> P x \<Longrightarrow> in_sequence (h @ [x]) (Ps @ [P])"
  unfolding in_sequence_def
proof -
  assume "\<exists>xs. subseq xs h \<and> list_all2 (\<lambda>P x. P x) Ps xs" "P x"
  then obtain xs where "subseq (xs @ [x]) (h @ [x])" "list_all2 (\<lambda>P x. P x) (Ps @ [P]) (xs @ [x])"
    by (auto intro: list_all2_appendI)
  then show "\<exists>xs. subseq xs (h @ [x]) \<and> list_all2 (\<lambda>P x. P x) (Ps @ [P]) xs" by blast
qed

text \<open>The tests a call passes, each a condition on the state in which it was made.\<close>

definition leased :: "leg \<Rightarrow> renv \<times> route \<Rightarrow> bool" where
  "leased l = (\<lambda>(env, w). \<exists>token. lease_snapshot_by_token (re_now env) (lg_principal l) token (ro_service w) =
     Some (lg_logical l, lg_owner l, lg_fence l))"

definition covered :: "leg \<Rightarrow> renv \<times> route \<Rightarrow> bool" where
  "covered l = (\<lambda>(env, w). grant_covers (lg_principal l) (lg_cap l) (ro_service w))"

definition provided :: "leg \<Rightarrow> renv \<times> route \<Rightarrow> bool" where
  "provided l = (\<lambda>(env, w). provides l w)"

definition unseen :: "leg \<Rightarrow> renv \<times> route \<Rightarrow> bool" where
  "unseen l = (\<lambda>(env, w). \<not> ledger_has (lg_principal l) (lg_operation l) w)"

definition current_owner :: "leg \<Rightarrow> renv \<times> route \<Rightarrow> bool" where
  "current_owner l = (\<lambda>(env, w). instance_ref_of (sv_kernel (ro_service w)) (lg_logical l) = Some (lg_owner l))"

definition uncancelled :: "leg \<Rightarrow> renv \<times> route \<Rightarrow> bool" where
  "uncancelled l = (\<lambda>(env, w). lg_operation l \<notin> set (ro_cancelled w))"

definition still_leased :: "leg \<Rightarrow> renv \<times> route \<Rightarrow> bool" where
  "still_leased l = (\<lambda>(env, w). lease_live (re_now env) (lg_principal l) (lg_logical l) (lg_fence l) (lg_owner l) (ro_service w))"

fun stages :: "route_pc \<Rightarrow> (renv \<times> route \<Rightarrow> bool) list" where
  "stages (OpenGrant l) = [leased l]"
| "stages (OpenProvides l) = [leased l, covered l]"
| "stages (OpenAdmit l) = [leased l, covered l, provided l]"
| "stages (OpenSpawn l) = [leased l, covered l, provided l, unseen l]"
| "stages (LegOwner l) = [leased l, covered l, provided l, unseen l]"
| "stages (LegCancel l) = [leased l, covered l, provided l, unseen l, current_owner l]"
| "stages (LegInvoke l) = [leased l, covered l, provided l, unseen l, current_owner l, uncancelled l]"
| "stages (LegKernel l) = []"
| "stages (LegSettle l out) = [leased l, covered l, provided l, unseen l, current_owner l, uncancelled l]"
| "stages (LegLive l out c) =
     [leased l, covered l, provided l, unseen l, current_owner l, uncancelled l] @ (if c then [] else [uncancelled l])"
| "stages (LegFinish l out c cur) =
     [leased l, covered l, provided l, unseen l, current_owner l, uncancelled l] @ 
     (if c then [] else [uncancelled l]) @ (if cur then [still_leased l] else [])"
| "stages (LegClose l out c cur) =
     [leased l, covered l, provided l, unseen l, current_owner l, uncancelled l] @ 
     (if c then [] else [uncancelled l]) @ (if cur then [still_leased l] else [])"
| "stages _ = []"
lemma in_sequence_snoc: "in_sequence h Ps \<Longrightarrow> P x \<Longrightarrow> Qs = Ps @ [P] \<Longrightarrow> in_sequence (h @ [x]) Qs"
  by (simp add: in_sequence_next)

lemma admit_unseen:
  "admit cd flt p i req st = (st1, Inr AdmNew) \<Longrightarrow> hm_get (st_operations st) (p, i) = None"
  using admit_known(2) [of st p i _ cd flt req] by (cases "hm_get (st_operations st) (p, i)") simp_all

lemma thread_passed:
  assumes "in_sequence h (stages pc)" "t \<in> set (snd (thread_step pc env w))"
  shows "in_sequence (h @ [(env, w)]) (stages t)"
proof (cases pc)
  case (OpenLease rid i body)
  then obtain l token where l: "t = OpenGrant l"
    "lease_snapshot_by_token (re_now env) (lg_principal l) token (ro_service w) = Some (lg_logical l, lg_owner l, lg_fence l)"
    using assms(2) by (auto simp: open_lease_def split: option.splits)
  then have "leased l (env, w)" by (auto simp: leased_def)
  then show ?thesis using in_sequence_next [of h "[]" "leased l" "(env, w)"] l(1) by simp
next
  case (OpenGrant l)
  then show ?thesis using assms by (auto simp: open_grant_def covered_def intro!: in_sequence_snoc [of h "stages pc" "covered l"] split: if_splits)
next
  case (OpenProvides l)
  then show ?thesis using assms by (auto simp: open_provides_def provided_def intro!: in_sequence_snoc [of h "stages pc" "provided l"] split: if_splits)
next
  case (OpenAdmit l)
  then show ?thesis using assms
    by (auto simp: open_admit_def unseen_def Let_def dest!: admit_unseen intro!: in_sequence_snoc [of h "stages pc" "unseen l"] split: prod.splits sum.splits admission.splits)
next
  case (LegOwner l)
  then show ?thesis using assms by (auto simp: leg_owner_def current_owner_def intro!: in_sequence_snoc [of h "stages pc" "current_owner l"] split: if_splits)
next
  case (LegCancel l)
  then show ?thesis using assms by (auto simp: leg_cancel_def uncancelled_def intro!: in_sequence_snoc [of h "stages pc" "uncancelled l"] split: if_splits)
next
  case (LegSettle l out)
  show ?thesis
  proof (cases "lg_operation l \<in> set (ro_cancelled w)")
    case True
    then have "t = LegLive l out True" using assms(2) LegSettle by (simp add: leg_settle_def)
    then show ?thesis using in_sequence_later [OF assms(1), of "[(env, w)]"] LegSettle by simp
  next
    case False
    then have "t = LegLive l out False" "uncancelled l (env, w)" using assms(2) LegSettle by (simp_all add: leg_settle_def uncancelled_def)
    then show ?thesis using assms(1) LegSettle by (auto intro!: in_sequence_snoc [of h "stages pc" "uncancelled l"])
  qed
next
  case (LegLive l out c)
  show ?thesis
  proof (cases "lease_live (re_now env) (lg_principal l) (lg_logical l) (lg_fence l) (lg_owner l) (ro_service w)")
    case True
    then have "t = LegFinish l out c True" "still_leased l (env, w)" using assms(2) LegLive by (simp_all add: leg_live_def still_leased_def)
    then show ?thesis using assms(1) LegLive by (auto intro!: in_sequence_snoc [of h "stages pc" "still_leased l"])
  next
    case False
    then have "t = LegFinish l out c False" using assms(2) LegLive by (simp add: leg_live_def)
    then show ?thesis using in_sequence_later [OF assms(1), of "[(env, w)]"] LegLive by simp
  qed
qed (use assms in \<open>auto simp: open_legs_def open_replay_def open_quota_def open_spawn_def leg_invoke_def leg_kernel_def leg_finish_def leg_close_def Let_def
    case_prod_beta intro: in_sequence_later split: if_splits\<close>)
text \<open>The request and the operation a thread works for, and those a frame asks for.\<close>

definition call_of :: "json \<Rightarrow> string \<times> string" where
  "call_of doc = (rid_of doc, text_of (opt_or (j_get doc ''body'') JNull) ''operation_id'')"

fun works_for :: "route_pc \<Rightarrow> (string \<times> string) option" where
  "works_for (OpenLegs doc) = None"
| "works_for (OpenReplay rid i) = Some (rid, i)"
| "works_for (OpenQuota rid i body) = Some (rid, i)"
| "works_for (OpenLease rid i body) = Some (rid, i)"
| "works_for t = map_option (\<lambda>l. (lg_rid l, lg_operation l)) (leg_of t)"

definition asked :: "(renv \<times> route) list \<Rightarrow> string \<times> string \<Rightarrow> bool" where
  "asked h c \<longleftrightarrow> (\<exists>env v doc. (env, v) \<in> set h \<and> OpenLegs doc \<in> set (ro_threads v) \<and> call_of doc = c)"

lemma asked_later: "asked h c \<Longrightarrow> asked (h @ h') c"
  by (auto simp: asked_def)

lemma thread_works_for:
  assumes "t \<in> set (snd (thread_step pc env w))" "works_for t = Some c"
  shows "works_for pc = Some c \<or> (\<exists>doc. pc = OpenLegs doc \<and> call_of doc = c)"
  using assms
  by (cases pc) (auto simp: thread_defs call_of_def Let_def case_prod_beta split: option.splits sum.splits admission.splits if_splits)

subsection \<open>Answers\<close>

text \<open>The requests among posted documents that are answered \<open>ok\<close>.\<close>

definition okays :: "json list \<Rightarrow> string set" where
  "okays ds = {rid. \<exists>d \<in> set ds. ok_terminal rid d}"

lemma okays_append [simp]: "okays (ds @ es) = okays ds \<union> okays es" "okays [] = {}"
  by (auto simp: okays_def)

lemma okays_other: "get_str d ''type'' \<noteq> Some ''call.result'' \<Longrightarrow> okays [d] = {}"
  by (simp add: okays_def ok_terminal_def)

lemma header_type [simp]: "get_str (JObj (header ty mid ses @ rest)) ''type'' = Some ty"
  by (simp add: header_def get_str_def j_get_def)

lemma okays_answer [simp]:
  "okays (ro_posted (route_answer env ty rid body w)) =
     okays (ro_posted w) \<union> (if rid \<noteq> [] \<and> ty = ''call.result'' \<and> get_str body ''status'' = Some ''ok'' then {rid} else {})"
  using posts_fields(7) [OF posts_answer, of env ty rid body w]
  by (auto simp: answer_doc_def okays_def ok_terminal_def header_def get_str_def j_get_def member_def)

lemma okays_terminal [simp]:
  "okays (ro_posted (terminal env rid (Inl e) w)) = okays (ro_posted w)"
  "okays (ro_posted (terminal env rid (Inr v) w)) = okays (ro_posted w) \<union> (if rid = [] then {} else {rid})"
  "okays (ro_posted (accepted env rid p w)) = okays (ro_posted w)"
  by (auto simp: terminal_def accepted_def get_str_def j_get_def split: prod.split)

lemma okays_terminal_le: "okays (ro_posted (terminal env rid r w)) \<subseteq> insert rid (okays (ro_posted w))"
  by (cases r) auto

lemma okays_post: "get_str d ''type'' \<noteq> Some ''call.result'' \<Longrightarrow> okays (ro_posted (fst (post env d w))) = okays (ro_posted w)"
  by (simp add: posts_fields(7) [OF posts_post] okays_other)

lemma okays_stream [simp]: "ty \<noteq> ''call.result'' \<Longrightarrow> okays (ro_posted (stream_post env ty mid b w)) = okays (ro_posted w)"
  by (simp add: stream_post_def okays_post)

definition completed_row :: "route \<Rightarrow> string \<Rightarrow> bool" where
  "completed_row w i \<longleftrightarrow> (\<exists>r. hm_get (st_operations (sv_store (ro_service w))) (ro_peer w, i) = Some r \<and> or_state r = OpCompleted)"

lemma operation_completed:
  assumes "operation cd p i st = Inr v" "member v ''state'' = JStr ''completed''"
  shows "\<exists>r. hm_get (st_operations st) (p, i) = Some r \<and> or_state r = OpCompleted"
proof -
  obtain r where r: "hm_get (st_operations st) (p, i) = Some r" using assms(1) by (auto simp: operation_def split: option.splits)
  then have "op_state_text (or_state r) = ''completed''"
    using assms by (auto simp: operation_def bind_result_def member_def j_get_def split: option.splits sum.splits)
  then have "or_state r = OpCompleted" by (cases "or_state r") auto
  with r show ?thesis by blast
qed

lemma admit_completed:
  "admit cd flt p i req st = (st1, Inr (AdmCompleted v)) \<Longrightarrow> \<exists>r. hm_get (st_operations st) (p, i) = Some r \<and> or_state r = OpCompleted"
  by (auto simp: admit_def Let_def unless_fault_Inr bind_result_def split: if_splits option.splits sum.splits)

lemma thread_okays:
  assumes "\<And>l. leg_of pc = Some l \<Longrightarrow> lg_principal l = ro_peer w"
  shows "okays (ro_posted (fst (thread_step pc env w))) \<subseteq> okays (ro_posted w) \<union>
    {rid. (\<exists>l out. pc = LegClose l out False True \<and> lg_rid l = rid) \<or> (\<exists>i. works_for pc = Some (rid, i) \<and> completed_row w i)}"
proof (cases pc)
  case (OpenReplay rid i)
  then show ?thesis
    by (auto simp: open_replay_def settle_def completed_row_def dest: operation_completed split: sum.splits if_splits)
next
  case (OpenAdmit l)
  have p: "lg_principal l = ro_peer w" using assms OpenAdmit by simp
  show ?thesis unfolding OpenAdmit
    by (auto simp: open_admit_def settle_def Let_def completed_row_def p dest!: admit_completed subsetD [OF okays_terminal_le] split: prod.split sum.splits admission.splits)
next
  case (LegClose l out c cur)
  then show ?thesis by (auto simp: leg_close_def close_opening_def Let_def leg_unknown_def split: if_splits)
qed (auto simp: thread_defs Let_def case_prod_beta get_str_def j_get_def split: option.split if_splits)
lemma okays_reply [simp]: "okays (ro_posted (stream_reply env i stream seq chunk out w)) = okays (ro_posted w)"
  by (cases out) (simp_all add: stream_reply_def Let_def)

lemma okays_data [simp]: "okays (ro_posted (on_stream_data env doc w)) = okays (ro_posted w)"
  by (cases rule: stream_data_cases [of env doc w]) simp_all

lemma okays_message [simp]: "okays (ro_posted (on_message env doc w)) = okays (ro_posted w)"
  by (simp add: on_message_def on_call_cancel_def on_op_query_def on_lease_renew_def on_inventory_def on_subscribe_def on_stream_terminal_def
      Let_def case_prod_beta split: option.split)

lemma okays_emit [simp]: "okays (ro_posted (on_local_emit env topic v w)) = okays (ro_posted w)"
  by (simp add: on_local_emit_def Let_def case_prod_beta okays_post)

lemma okays_chunk [simp]: "okays (ro_posted (send_stream_chunk env stream seq p w)) = okays (ro_posted w)"
  by (simp add: send_stream_chunk_def Let_def okays_other)

lemma okays_notify [simp]: "okays (ro_posted (notify_revoked env t f w)) = okays (ro_posted w)"
  by (simp add: notify_revoked_def)

text \<open>The history vouches for a request: it was opened for an operation whose call passed every test in order, or of which the ledger had a completed row of the peer.\<close>

definition vouched :: "(renv \<times> route) list \<Rightarrow> string \<Rightarrow> bool" where
  "vouched h rid \<longleftrightarrow>
     (\<exists>i. asked h (rid, i) \<and>
        ((\<exists>l. lg_rid l = rid \<and> lg_operation l = i \<and>
            in_sequence h [leased l, covered l, provided l, unseen l, current_owner l, uncancelled l, uncancelled l, still_leased l]) \<or>
         (\<exists>env v. (env, v) \<in> set h \<and> completed_row v i)))"

definition vouching :: "(renv \<times> route) list \<Rightarrow> route \<Rightarrow> bool" where
  "vouching h w \<longleftrightarrow>
     once w \<and> (\<forall>t \<in> set (ro_threads w). in_sequence h (stages t) \<and> (\<forall>c. works_for t = Some c \<longrightarrow> asked h c)) \<and>
     (\<forall>rid \<in> okays (ro_posted w). vouched h rid)"

lemma vouched_later: "vouched h rid \<Longrightarrow> vouched (h @ h') rid"
proof -
  assume "vouched h rid"
  then obtain i where i: "asked (h @ h') (rid, i)" and
    "(\<exists>l. lg_rid l = rid \<and> lg_operation l = i \<and>
        in_sequence h [leased l, covered l, provided l, unseen l, current_owner l, uncancelled l, uncancelled l, still_leased l]) \<or>
     (\<exists>env v. (env, v) \<in> set h \<and> completed_row v i)"
    unfolding vouched_def using asked_later by blast
  then show ?thesis unfolding vouched_def using in_sequence_later by (intro exI [of _ i]) fastforce
qed

lemma vouching_later:
  assumes "vouching h v" "once u" "okays (ro_posted u) = okays (ro_posted v)"
    and "\<And>t. t \<in> set (ro_threads u) \<Longrightarrow> t \<in> set (ro_threads v) \<or> stages t = [] \<and> works_for t = None"
  shows "vouching (h @ [x]) u"
proof -
  have "in_sequence (h @ [x]) (stages t) \<and> (\<forall>c. works_for t = Some c \<longrightarrow> asked (h @ [x]) c)" if "t \<in> set (ro_threads u)" for t
    using assms(4) [OF that] assms(1) in_sequence_later asked_later unfolding vouching_def by fastforce
  then show ?thesis using assms(1-3) vouched_later unfolding vouching_def by auto
qed

lemma vouching_thread:
  assumes "vouching h v" "ro_threads v = A @ [pc] @ B" and u: "u = (fst (thread_step pc env v))\<lparr>ro_threads := A @ snd (thread_step pc env v) @ B\<rparr>"
  shows "vouching (h @ [(env, v)]) u"
proof -
  have v: "once v" "\<And>t. t \<in> set (A @ [pc] @ B) \<Longrightarrow> in_sequence h (stages t)" "\<And>rid. rid \<in> okays (ro_posted v) \<Longrightarrow> vouched h rid"
    "\<And>t c. t \<in> set (A @ [pc] @ B) \<Longrightarrow> works_for t = Some c \<Longrightarrow> asked h c"
    using assms(1) unfolding vouching_def assms(2) by blast+
  have legs: "\<And>l. leg_of pc = Some l \<Longrightarrow> lg_principal l = ro_peer v" using v(1) assms(2) by (auto simp: once_def)
  have threads: "in_sequence (h @ [(env, v)]) (stages t)" if "t \<in> set (A @ snd (thread_step pc env v) @ B)" for t
    using that v(2) thread_passed [of h pc t env v] in_sequence_later [of h "stages t" "[(env, v)]"] by auto
  have callers: "asked (h @ [(env, v)]) c" if t: "t \<in> set (A @ snd (thread_step pc env v) @ B)" "works_for t = Some c" for t c
  proof -
    have "asked h c \<or> (\<exists>doc. pc = OpenLegs doc \<and> call_of doc = c)"
      using t v(4) [of t c] v(4) [of pc c] thread_works_for [of t pc env v c] by auto
    then show ?thesis
    proof (elim disjE exE conjE)
      fix doc assume "pc = OpenLegs doc" "call_of doc = c"
      then show ?thesis unfolding asked_def using assms(2) by (intro exI [of _ env] exI [of _ v] exI [of _ doc]) simp
    qed (rule asked_later)
  qed
  have okay: "vouched (h @ [(env, v)]) rid" if "rid \<in> okays (ro_posted u)" for rid
  proof -
    have "rid \<in> okays (ro_posted (fst (thread_step pc env v)))" using that by (simp add: u)
    then consider "rid \<in> okays (ro_posted v)" | l out where "pc = LegClose l out False True" "lg_rid l = rid"
      | i where "works_for pc = Some (rid, i)" "completed_row v i"
      using thread_okays [of pc v env, OF legs] by blast
    then show ?thesis
    proof cases
      case 1
      then show ?thesis by (intro vouched_later v(3))
    next
      case 2
      then have "asked h (rid, lg_operation l)"
        "in_sequence h [leased l, covered l, provided l, unseen l, current_owner l, uncancelled l, uncancelled l, still_leased l]"
        using v(2) [of pc] v(4) [of pc] by simp_all
      then have "vouched h rid" using 2(2) by (auto simp: vouched_def)
      then show ?thesis by (rule vouched_later)
    next
      case 3
      then have "asked (h @ [(env, v)]) (rid, i)" using v(4) [of pc] by (auto intro: asked_later)
      then show ?thesis using 3(2) unfolding vouched_def by auto
    qed
  qed
  have "once u" unfolding u by (rule once_thread [OF v(1) assms(2)])
  then show ?thesis using threads callers okay by (simp add: vouching_def u)
qed

interpretation verdicts: route_invariant vouching
proof unfold_locales
  show "vouching [] (route_new srv ses)" for srv ses by (simp add: vouching_def once_def route_new_def)
next
  fix h v env u assume v: "vouching h v" and s: "route_step env v u"
  then have u: "once u" using executions.at_step [of v env u] by (simp add: vouching_def)
  from s show "vouching (h @ [(env, v)]) u"
  proof cases
    case (Thread i)
    then show ?thesis using run_thread_split [of i v env] vouching_thread [OF v] by metis
  next
    case (Message doc)
    then show ?thesis using u by (intro vouching_later [OF v]) (auto simp: message_threads split: if_splits)
  qed (use u in \<open>auto intro!: vouching_later [OF v]\<close>)
qed


subsection \<open>Time outs and replays\<close>

text \<open>C29. A remote call that times out is recorded as completed. When the kernel does not answer within the budget of a leg,
  the answer is \<open>deadline-exceeded\<close>, which the local path takes for an unknown outcome; the route looks for
  another word, so with a live lease and no cancellation the ledger gets the row completed, not unknown, and the operation counts as settled,
  while the worker may still be about to run it.\<close>

theorem timed_out_leg_completed:
  assumes "\<not> in_budget env l"
    and "hm_get (st_operations (sv_store (ro_service w))) (lg_principal l, lg_operation l) = Some r" "or_state r = OpAdmitted"
    and "se_fault (re_svc env) = None" "length (cd_text (re_codec env) (durable_result False executor_timeout)) \<le> MAX_BODY"
  shows "snd (leg_invoke l env v) = [LegKernel l, LegSettle l (executor_timeout, False)] \<and> is_unknown_code executor_timeout \<and>
    hm_get (st_operations (sv_store (ro_service (fst (leg_finish l (executor_timeout, False) False True env w))))) (lg_principal l, lg_operation l) =
      Some (r\<lparr>or_state := OpCompleted, or_result := Some (cd_text (re_codec env) (durable_result False executor_timeout))\<rparr>) \<and>
    lg_operation l \<in> set (ro_legs (fst (leg_close l (executor_timeout, False) False True env w)))"
proof -
  have code: "text_of executor_timeout ''code'' = ''deadline-exceeded''"
    by (simp add: executor_timeout_def text_of_def get_str_def j_get_def)
  then have "is_unknown_code executor_timeout" by (simp add: is_unknown_code_def text_of_def)
  moreover have "\<not> leg_unknown (executor_timeout, False) True" using code by (simp add: leg_unknown_def)
  ultimately show ?thesis
    using assms by (simp add: leg_invoke_def leg_finish_def leg_result_def record_result_def finish_def unless_fault_def leg_close_def
        close_opening_def terminal_def Let_def)
qed

definition demo_leg :: leg where
  "demo_leg = \<lparr>lg_rid = ''r'', lg_operation = ''op'', lg_principal = ''p'', lg_logical = ''s'', lg_owner = demo_owner, lg_fence = 1,
     lg_cap = ''r@1'', lg_input = JNull, lg_timeout = 1000\<rparr>"

definition demo_admitted :: route where
  "demo_admitted = demo_route\<lparr>ro_service := demo_running
     \<lparr>sv_store := store_empty\<lparr>st_operations := [((''p'', ''op''), \<lparr>or_request = ''q'', or_state = OpAdmitted, or_result = None\<rparr>)]\<rparr>\<rparr>\<rparr>"

theorem timed_out_leg_completed_witness:
  "hm_get (st_operations (sv_store (ro_service (fst (leg_finish demo_leg (executor_timeout, False) False True (demo_renv 2000000000) demo_admitted)))))
     (''p'', ''op'') = Some \<lparr>or_request = ''q'', or_state = OpCompleted, or_result = Some ''other''\<rparr>"
  using timed_out_leg_completed [of "demo_renv 2000000000" demo_leg demo_admitted "\<lparr>or_request = ''q'', or_state = OpAdmitted, or_result = None\<rparr>"]
  by (simp add: demo_renv_def demo_env_def demo_leg_def demo_admitted_def store_empty_def in_budget_def leg_budget_def ms_def
      demo_codec_def durable_result_def MAX_BODY_def)

text \<open>C30. A settled call is replayed as successful even when it failed. When a call is opened again whose operation has settled on this session, the
  peer gets the answer \<open>ok\<close> with whatever the ledger holds as its output, the record of a failure included; the
  same row replayed through the ledger alone, as on a new session, is answered as the error it is.\<close>

theorem failed_leg_replayed_ok:
  assumes "hm_get (st_operations (sv_store (ro_service w))) (ro_peer w, i) = Some r" "or_state r = OpCompleted"
    and "or_result r = Some txt" "cd_parse (re_codec env) txt = Inr (durable_result False v)" "rid \<noteq> []"
  shows "(\<exists>a d. ro_posted (fst (open_replay rid i env w)) = ro_posted w @ [a, d] \<and> ok_terminal rid d \<and>
      member (member d ''body'') ''output'' = durable_result False v) \<and>
    (\<exists>code msg. replay_done (re_codec env) (durable_result False v) = Inl (code, msg))"
proof -
  have row: "operation (re_codec env) (ro_peer w) i (sv_store (ro_service w)) =
      Inr (JObj [(''state'', JStr ''completed''), (''result'', durable_result False v)])"
    using assms by (simp add: operation_def bind_result_def)
  let ?a = "answer_doc ''call.accepted'' rid (JObj [(''status'', JStr ''admitted''), (''persisted'', JBool True)]) w"
  let ?w1 = "accepted env rid True w"
  let ?d = "answer_doc ''call.result'' rid (JObj [(''status'', JStr ''ok''), (''output'', durable_result False v), (''terminal'', JBool True)]) ?w1"
  have "ro_posted ?w1 = ro_posted w @ [?a]"
    using posts_fields(7) [OF posts_answer, of env "''call.accepted''" rid _ w] assms(5) by (simp add: accepted_def)
  moreover have "ro_posted (terminal env rid (Inr (durable_result False v)) ?w1) = ro_posted ?w1 @ [?d]"
    using posts_fields(7) [OF posts_answer, of env "''call.result''" rid _ ?w1] assms(5) by (simp add: terminal_def)
  ultimately have "ro_posted (fst (open_replay rid i env w)) = ro_posted w @ [?a, ?d]"
    by (simp add: open_replay_def row settle_def member_def j_get_def)
  moreover have "ok_terminal rid ?d" "member (member ?d ''body'') ''output'' = durable_result False v"
    by (simp_all add: ok_terminal_def answer_doc_def header_def get_str_def member_def j_get_def)
  moreover have "\<exists>code msg. replay_done (re_codec env) (durable_result False v) = Inl (code, msg)"
    by (simp add: replay_done_def durable_result_def j_get_def Let_def)
  ultimately show ?thesis by blast
qed

theorem failed_leg_replayed_ok_witness:
  "\<exists>a d. ro_posted (fst (open_replay ''r2'' ''op'' (demo_renv 5\<lparr>re_svc := demo_env\<lparr>se_codec := \<lparr>cd_text = (\<lambda>_. ''x''), cd_parse =
       (\<lambda>_. Inr (durable_result False executor_timeout))\<rparr>\<rparr>\<rparr>)
     (demo_admitted\<lparr>ro_service := demo_running\<lparr>sv_store := store_empty\<lparr>st_operations :=
        [((''p'', ''op''), \<lparr>or_request = ''q'', or_state = OpCompleted, or_result = Some ''x''\<rparr>)]\<rparr>\<rparr>\<rparr>))) = [a, d] \<and> ok_terminal ''r2'' d"
proof -
  let ?w = "demo_admitted\<lparr>ro_service := demo_running\<lparr>sv_store := store_empty\<lparr>st_operations :=
        [((''p'', ''op''), \<lparr>or_request = ''q'', or_state = OpCompleted, or_result = Some ''x''\<rparr>)]\<rparr>\<rparr>\<rparr>"
  have "ro_peer ?w = ''p''" "ro_posted ?w = []"
    by (simp_all add: demo_admitted_def demo_route_def route_new_def fresh_session_def spawn_def)
  then show ?thesis
    using failed_leg_replayed_ok [of ?w "''op''" "\<lparr>or_request = ''q'', or_state = OpCompleted, or_result = Some ''x''\<rparr>" "''x''"
      "demo_renv 5\<lparr>re_svc := demo_env\<lparr>se_codec := \<lparr>cd_text = (\<lambda>_. ''x''), cd_parse = (\<lambda>_. Inr (durable_result False executor_timeout))\<rparr>\<rparr>\<rparr>"
      executor_timeout "''r2''"] by auto
qed

end
