(* ===== verification/Mx_Streams.thy ===== *)
theory Mx_Streams
  imports Mx_Legs
begin

text \<open>
  The streams of a route and its quota of calls: chunks reach a provider in order, at most once, and only while the activation
  that owned the operation is current and its lease live. The quota of calls and the window of a stream depart from their comments: settled
  calls are never removed, and the first chunk of a stream is not charged to its window.
\<close>

declare map_of_eq_Some_iff [simp del] Some_eq_map_of_iff [simp del]

subsection \<open>Chunks\<close>

text \<open>The sequence numbers of the chunks of a stream that were handed to the host.\<close>

definition handed :: "string \<Rightarrow> route \<Rightarrow> nat list" where
  "handed s w = map (\<lambda>(owner, stream, seq, p). seq) (filter (\<lambda>(owner, stream, seq, p). stream = s) (ro_injected w))"

text \<open>A state in which an activation may get chunks: it owns an admitted operation, is current, and its lease is live.\<close>

definition may_inject :: "instance_ref \<Rightarrow> renv \<times> route \<Rightarrow> bool" where
  "may_inject owner = (\<lambda>(env, w). \<exists>i m. hm_get (ro_op_provider w) i = Some m \<and> op_owner m = owner \<and>
     instance_ref_of (sv_kernel (ro_service w)) (op_logical m) = Some owner \<and>
     lease_live (re_now env) (ro_peer w) (op_logical m) (op_fence m) owner (ro_service w))"

definition streaming :: "(renv \<times> route) list \<Rightarrow> route \<Rightarrow> bool" where
  "streaming h w \<longleftrightarrow>
     length (ro_streams w) \<le> 128 \<and>
     (\<forall>s st. hm_get (ro_streams w) s = Some st \<longrightarrow> es_granted st \<le> MAX_STREAM_BYTES) \<and>
     (\<forall>s. sorted_wrt (<) (handed s w) \<and>
        (\<forall>n \<in> set (handed s w). \<exists>st. hm_get (ro_streams w) s = Some st \<and> n < es_next_seq st)) \<and>
     (\<forall>(owner, s, n, p) \<in> set (ro_injected w). \<exists>x \<in> set h. may_inject owner x)"

lemma stream_chunk_Accept:
  assumes "stream_chunk seq len st = (st', SAccept t)"
  shows "es_next_seq st' = seq + 1" "es_next_seq st \<le> seq" "es_granted st \<le> MAX_STREAM_BYTES \<Longrightarrow> es_granted st' \<le> MAX_STREAM_BYTES"
    "\<not> es_ended st"
  using assms by (auto simp: stream_chunk_def take_chunk_def Let_def split: if_splits)

lemma stream_chunk_other:
  assumes "stream_chunk seq len st = (st', out)" "\<And>t. out \<noteq> SAccept t"
  shows "es_next_seq st' = es_next_seq st" "es_granted st' = es_granted st"
  using assms by (auto simp: stream_chunk_def take_chunk_def Let_def split: if_splits)

lemma tag_stream_fields [simp]: "es_next_seq (tag_stream i st) = es_next_seq st" "es_granted (tag_stream i st) = es_granted st"
  by (simp_all add: tag_stream_def)

lemma stream_post_provider [simp]: "ro_injected (stream_post env ty mid b w) = ro_injected w"
  by simp

text \<open>What a chunk leaves in the list of injected chunks.\<close>

lemma stream_reply_injected:
  obtains (No) "ro_injected (stream_reply env i s n chunk out w) = ro_injected w"
  | (Yes) t owner where "out = SAccept t" "may_inject owner (env, w)"
      "ro_injected (stream_reply env i s n chunk out w) = ro_injected w @ [(owner, s, n, utf8_lossy chunk)]"
proof (cases out)
  case (SAccept t)
  define w1 where "w1 = w\<lparr>ro_stream_received := ro_stream_received w + length chunk\<rparr>"
  define w2 where "w2 = (if 0 < t then stream_post env ''stream.credit'' (''sc-'' @ s @ ''-'' @ show_nat n)
     [(''stream_id'', JStr s), (''credit'', j_nat t)] w1 else w1)"
  have w2: "ro_service w2 = ro_service w" "ro_op_provider w2 = ro_op_provider w" "ro_peer w2 = ro_peer w" "ro_injected w2 = ro_injected w"
    by (simp_all add: w2_def w1_def)
  have r: "stream_reply env i s n chunk out w = inject_chunk env i s n chunk w2"
    by (simp add: stream_reply_def SAccept w1_def w2_def Let_def)
  show thesis
  proof (cases "hm_get (ro_op_provider w) i")
    case None
    then show thesis using No by (simp add: r inject_chunk_def w2)
  next
    case (Some m)
    show thesis
    proof (cases "i \<noteq> [] \<and> instance_ref_of (sv_kernel (ro_service w)) (op_logical m) = Some (op_owner m) \<and>
        lease_live (re_now env) (ro_peer w) (op_logical m) (op_fence m) (op_owner m) (ro_service w)")
      case True
      then have "may_inject (op_owner m) (env, w)" using Some by (auto simp: may_inject_def)
      then show thesis using Yes [OF SAccept] True Some by (simp add: r inject_chunk_def w2)
    next
      case False
      then have "ro_injected (inject_chunk env i s n chunk w2) = ro_injected w2"
        unfolding inject_chunk_def w2(1-3) Some option.case by (auto simp: w2(4))
      then show thesis using No by (simp add: r w2(4))
    qed
  qed
qed (use No in \<open>simp_all add: stream_reply_def\<close>)

lemma handed_snoc: "ro_injected w' = ro_injected w @ [(owner, s, n, p)] \<Longrightarrow> handed t w' = handed t w @ (if t = s then [n] else [])"
  by (simp add: handed_def)

lemma handed_same: "ro_injected w' = ro_injected w \<Longrightarrow> handed t w' = handed t w"
  by (simp add: handed_def)
lemma streaming_mono: "streaming h w \<Longrightarrow> streaming (h @ h') w"
  unfolding streaming_def set_append by blast

lemma streamingI:
  assumes "length (ro_streams w) \<le> 128" "\<And>s st. hm_get (ro_streams w) s = Some st \<Longrightarrow> es_granted st \<le> MAX_STREAM_BYTES"
    "\<And>s. sorted_wrt (<) (handed s w)" "\<And>n s. n \<in> set (handed s w) \<Longrightarrow> \<exists>st. hm_get (ro_streams w) s = Some st \<and> n < es_next_seq st"
    "\<And>owner s n p. (owner, s, n, p) \<in> set (ro_injected w) \<Longrightarrow> \<exists>x \<in> set h. may_inject owner x"
  shows "streaming h w"
  using assms unfolding streaming_def by blast

text \<open>A step that injects nothing and keeps the position and the window of every stream.\<close>

lemma streaming_kept:
  assumes "streaming h w" "ro_injected w' = ro_injected w" "length (ro_streams w') = length (ro_streams w)"
    and "\<And>s. map_option (\<lambda>st. (es_next_seq st, es_granted st)) (hm_get (ro_streams w') s) =
               map_option (\<lambda>st. (es_next_seq st, es_granted st)) (hm_get (ro_streams w) s)"
  shows "streaming h w'"
proof -
  have kept: "\<exists>st'. hm_get (ro_streams w') s = Some st' \<and> es_next_seq st' = es_next_seq st" if "hm_get (ro_streams w) s = Some st" for s st
    using assms(4) [of s] that by auto
  have "es_granted st \<le> MAX_STREAM_BYTES" if g: "hm_get (ro_streams w') s = Some st" for s st
  proof -
    obtain st0 where "hm_get (ro_streams w) s = Some st0" "es_granted st0 = es_granted st"
      using assms(4) [of s] g by (cases "hm_get (ro_streams w) s") auto
    then show ?thesis using assms(1) unfolding streaming_def by metis
  qed
  moreover have "\<exists>st. hm_get (ro_streams w') s = Some st \<and> n < es_next_seq st" if "n \<in> set (handed s w)" for n s
    using assms(1) that kept unfolding streaming_def by metis
  ultimately show ?thesis using assms(1-3) unfolding streaming_def handed_same [OF assms(2)] by auto
qed

lemma streaming_chunk:
  assumes w: "streaming h w" and c: "stream_chunk n len (tag_stream i (opt_or (hm_get (ro_streams w) s) fresh_stream)) = (st, out)"
    and room: "hm_contains (ro_streams w) s \<or> length (ro_streams w) < 128"
  shows "streaming (h @ [(env, w)]) (stream_reply env i s n chunk out (w\<lparr>ro_streams := hm_insert s st (ro_streams w)\<rparr>))"
    (is "streaming _ ?u")
proof -
  let ?w1 = "w\<lparr>ro_streams := hm_insert s st (ro_streams w)\<rparr>"
  define st0 where "st0 = opt_or (hm_get (ro_streams w) s) fresh_stream"
  have g0: "es_granted st0 \<le> MAX_STREAM_BYTES"
    using w by (auto simp: streaming_def st0_def fresh_stream_def INITIAL_GRANT_def MAX_STREAM_BYTES_def opt_or_def split: option.split)
  have c0: "stream_chunk n len (tag_stream i st0) = (st, out)" using c by (simp add: st0_def)
  have st: "es_granted st \<le> MAX_STREAM_BYTES" "es_next_seq st0 \<le> es_next_seq st"
  proof (atomize (full), cases out)
    case (SAccept t)
    then show "es_granted st \<le> MAX_STREAM_BYTES \<and> es_next_seq st0 \<le> es_next_seq st"
      using stream_chunk_Accept [OF c0 [unfolded SAccept]] g0 by simp
  qed (use stream_chunk_other [OF c0] g0 in simp_all)
  have handed: "\<exists>x. hm_get (ro_streams w) t = Some x \<and> n' < es_next_seq x" if "n' \<in> set (handed t w)" for t n'
    using w that unfolding streaming_def by blast
  have below: "n' < es_next_seq st0" if "n' \<in> set (handed s w)" for n'
    using handed [OF that] by (auto simp: st0_def)
  have old: "\<exists>x. hm_get (hm_insert s st (ro_streams w)) t = Some x \<and> n' < es_next_seq x" if "n' \<in> set (handed t w)" for t n'
    using handed [OF that] below [of n'] that st(2) by (cases "t = s") auto
  have grants: "es_granted x \<le> MAX_STREAM_BYTES" if "hm_get (hm_insert s st (ro_streams w)) t = Some x" for t x
    using w that st(1) by (auto simp: streaming_def split: if_splits)
  have len: "length (hm_insert s st (ro_streams w)) \<le> 128" using w room by (auto simp: streaming_def)
  have seen: "\<exists>x \<in> set (h @ [(env, w)]). may_inject owner x" if "(owner, t, n', p) \<in> set (ro_injected w)" for owner t n' p
    using w that unfolding streaming_def by fastforce
  have sorted: "sorted_wrt (<) (handed t w)" for t using w by (simp add: streaming_def)
  have S: "ro_streams ?u = hm_insert s st (ro_streams w)" by simp
  show ?thesis
  proof (cases rule: stream_reply_injected [of env i s n chunk out ?w1])
    case No
    then have inj: "ro_injected ?u = ro_injected w" by simp
    show ?thesis
      by (rule streamingI; unfold handed_same [OF inj] inj S) (rule len | erule grants | rule sorted | erule old | erule seen)+
  next
    case (Yes t owner)
    then have inj: "ro_injected ?u = ro_injected w @ [(owner, s, n, utf8_lossy chunk)]" by simp
    have n: "es_next_seq st0 \<le> n" "es_next_seq st = n + 1" using stream_chunk_Accept [OF c0 [unfolded Yes(1)]] by simp_all
    have may: "may_inject owner (env, w)" using Yes(2) by (simp add: may_inject_def)
    have sorted1: "sorted_wrt (<) (handed t w @ (if t = s then [n] else []))" for t
      using sorted [of t] below n(1) by (auto simp: sorted_wrt_append intro: less_le_trans)
    have old1: "\<exists>x. hm_get (hm_insert s st (ro_streams w)) t = Some x \<and> n' < es_next_seq x"
      if "n' \<in> set (handed t w @ (if t = s then [n] else []))" for t n'
      using that old [of n' t] n(2) by (auto split: if_splits)
    have seen1: "\<exists>x \<in> set (h @ [(env, w)]). may_inject o' x" if "(o', t, n', p) \<in> set (ro_injected w @ [(owner, s, n, utf8_lossy chunk)])" for o' t n' p
      using that seen may by auto
    show ?thesis
      by (rule streamingI; unfold handed_snoc [OF inj] inj S) (rule len | erule grants | rule sorted1 | erule old1 | erule seen1)+
  qed
qed
lemma remember_injected [simp]: "ro_injected (remember_provider l w) = ro_injected w"
  by (simp add: remember_provider_def Let_def case_prod_beta)

lemma thread_injected [simp]: "ro_injected (fst (thread_step pc env w)) = ro_injected w"
  by (cases pc) (simp_all add: thread_defs Let_def case_prod_beta split: option.split sum.split admission.split)

lemma emit_injected [simp]: "ro_injected (on_local_emit env topic v w) = ro_injected w"
  using posts_fields(11) [OF posts_post] by (simp add: on_local_emit_def Let_def case_prod_beta)

lemma chunk_injected [simp]: "ro_injected (send_stream_chunk env s n p w) = ro_injected w"
  by (simp add: send_stream_chunk_def Let_def)

lemma notify_injected [simp]: "ro_injected (notify_revoked env t f w) = ro_injected w"
  by (simp add: notify_revoked_def)

definition ended_by :: "bool \<Rightarrow> exec_stream \<Rightarrow> exec_stream" where
  "ended_by c st = (if c then st\<lparr>es_ended := True\<rparr> else st)"

lemma ended_by_fields [simp]: "es_next_seq (ended_by c st) = es_next_seq st" "es_granted (ended_by c st) = es_granted st"
  by (simp_all add: ended_by_def)

lemma message_streams:
  assumes "text_of doc ''type'' \<noteq> ''stream.data''"
  obtains (Kept) "ro_streams (on_message env doc w) = ro_streams w"
  | (Swept) c where "ro_streams (on_message env doc w) = hm_map_values (\<lambda>st. ended_by (c st) st) (ro_streams w)"
  | (Closed) s where "ro_streams (on_message env doc w) = hm_modify s (ended_by True) (ro_streams w)"
proof (cases "text_of doc ''type'' = ''inventory.reconcile''")
  case True
  then show thesis using Swept [of "\<lambda>st. es_operation st \<in> set (revoked_ids env doc w)"]
    by (simp add: on_message_def on_inventory_def ended_by_def Let_def)
next
  case False
  show thesis
  proof (cases "text_of doc ''type'' \<in> {''stream.complete'', ''stream.cancel''}")
    case True
    then show thesis using Kept Closed [of "text_of (member doc ''body'') ''stream_id''"]
      by (cases "text_of (member doc ''body'') ''stream_id'' = []")
        (auto simp: on_message_def on_stream_terminal_def ended_by_def [abs_def] Let_def)
  next
    case False
    then show thesis using Kept assms \<open>text_of doc ''type'' \<noteq> ''inventory.reconcile''\<close>
      by (simp add: on_message_def on_call_cancel_def on_op_query_def on_lease_renew_def on_subscribe_def Let_def case_prod_beta split: option.split)
  qed
qed

lemma message_injected: "text_of doc ''type'' \<noteq> ''stream.data'' \<Longrightarrow> ro_injected (on_message env doc w) = ro_injected w"
  by (simp add: on_message_def on_call_cancel_def on_op_query_def on_lease_renew_def on_inventory_def on_subscribe_def
      on_stream_terminal_def Let_def case_prod_beta split: option.split)

lemma streaming_message:
  assumes "streaming h w"
  shows "streaming (h @ [(env, w)]) (on_message env doc w)"
proof (cases "text_of doc ''type'' = ''stream.data''")
  case True
  then have m: "on_message env doc w = on_stream_data env doc w" by (simp add: on_message_def Let_def)
  show ?thesis
  proof (cases rule: stream_data_cases [of env doc w])
    case Dropped
    then show ?thesis using streaming_mono [OF assms] m by simp
  next
    case (Counted s n chunk i st out)
    then show ?thesis using streaming_chunk [OF assms Counted(2,3)] m by simp
  qed
next
  case False
  have "streaming h (on_message env doc w)"
    by (rule streaming_kept [OF assms message_injected [OF False]];
        cases rule: message_streams [OF False, of env w]; simp add: option.map_comp comp_def)
  then show ?thesis by (rule streaming_mono)
qed

interpretation chunks: route_invariant streaming
proof unfold_locales
  show "streaming [] (route_new srv ses)" for srv ses by (simp add: streaming_def route_new_def handed_def)
next
  fix h v env u assume v: "streaming h v" and s: "route_step env v u"
  from s show "streaming (h @ [(env, v)]) u"
  proof cases
    case (Thread i)
    then obtain A pc B where "u = (fst (thread_step pc env v))\<lparr>ro_threads := A @ snd (thread_step pc env v) @ B\<rparr>"
      using run_thread_split by metis
    then show ?thesis by (intro streaming_mono streaming_kept [OF v]) simp_all
  next
    case (Message doc)
    then show ?thesis using streaming_message [OF v] by simp
  qed (intro streaming_mono streaming_kept [OF v]; simp)+
qed


lemma fold_messages_run: "\<exists>h. route_run w h v \<Longrightarrow> \<exists>h. route_run w h (fold (\<lambda>d. on_message env d) ds v)"
  by (induction ds arbitrary: v) (auto intro: route_run.Step [OF _ route_step.Message])

lemma demo_streamed_run: "\<exists>h. route_run demo_route h demo_streamed"
  using fold_messages_run [OF demo_run, where env = "demo_renv 5" and ds = "map demo_chunk [3, 4, 3, 6, 5]"] by (simp add: demo_streamed_def demo_stream_def fold_map comp_def)


subsection \<open>The window of a stream\<close>

text \<open>The first chunk of a stream is not charged to its window. The window of a new stream is 64 KiB and a chunk beyond the window is to end
  the stream. The first chunk is accepted whatever its length, so the stream can hold more bytes than it was granted, even with
  the credit that is granted on top; then the next chunk of the stream, however short, ends it.\<close>

theorem first_chunk_unmetered:
  assumes "INITIAL_GRANT + TOPUP < len" "len \<le> U64_MAX" "n < U64_MAX"
  shows "\<exists>st. stream_chunk n len fresh_stream = (st, SAccept TOPUP) \<and> es_granted st = INITIAL_GRANT + TOPUP \<and> es_received st = len \<and>
    (\<forall>len'. stream_chunk (n + 1) len' st = (st\<lparr>es_ended := True\<rparr>, SOver))"
  using assms
  by (auto simp: stream_chunk_def take_chunk_def fresh_stream_def saturate_def INITIAL_GRANT_def TOPUP_def MAX_STREAM_BYTES_def U64_MAX_def Let_def)

theorem first_chunk_unmetered_witness:
  "\<exists>st. stream_chunk 0 700000 fresh_stream = (st, SAccept TOPUP) \<and> es_granted st < es_received st"
proof -
  obtain st where "stream_chunk 0 700000 fresh_stream = (st, SAccept TOPUP)" "es_granted st = INITIAL_GRANT + TOPUP" "es_received st = 700000"
    using first_chunk_unmetered [of 700000 0] by (auto simp: INITIAL_GRANT_def TOPUP_def U64_MAX_def)
  then show ?thesis by (simp add: INITIAL_GRANT_def TOPUP_def)
qed

subsection \<open>The quota of calls\<close>

lemma thread_legs: "length (ro_legs w) \<le> length (ro_legs (fst (thread_step pc env w)))"
  by (cases pc) (simp_all add: thread_defs Let_def case_prod_beta split: option.split sum.split admission.split)

lemma step_legs: "route_step env v u \<Longrightarrow> length (ro_legs v) \<le> length (ro_legs u)"
proof (induction rule: route_step.induct)
  case (Thread i w env)
  then obtain A pc B where "run_thread i env w = (fst (thread_step pc env w))\<lparr>ro_threads := A @ snd (thread_step pc env w) @ B\<rparr>"
    by (rule run_thread_split)
  then show ?case using thread_legs [of w pc env] by simp
qed simp_all

text \<open>C31. Settled calls use up the quota of the session. A settled call stays in the table of legs for the life of the route, so once 256 operations have
  settled, at every later time and whatever happens, a call for any other operation is refused as too many, although none is
  running.\<close>

theorem settled_legs_exhaust_quota:
  assumes "route_run w h v" "MAX_LEGS \<le> length (ro_legs w)"
  shows "open_quota rid i body env v = (refuse env rid ''resource-exhausted'' ''too many remote legs'' v, [])"
proof -
  have "length (ro_legs w) \<le> length (ro_legs v)"
    using assms(1) by (induction rule: route_run.induct) (auto dest: step_legs)
  then show ?thesis using assms(2) by (simp add: open_quota_def)
qed

definition demo_full :: route where
  "demo_full = demo_route\<lparr>ro_legs := map (\<lambda>n. replicate n CHR ''x'') [1..<257]\<rparr>"

theorem settled_legs_exhaust_quota_witness:
  "ro_threads demo_full = [] \<and> snd (open_quota ''r'' ''op'' JNull (demo_renv 5) demo_full) = []"
  using settled_legs_exhaust_quota [OF route_run.Start, of demo_full "''r''" "''op''" JNull "demo_renv 5"]
  by (simp add: demo_full_def MAX_LEGS_def demo_route_def route_new_def)

end
