(* ===== verification/Spec2Isabelle.thy ===== *)
theory Spec2Isabelle
  imports Mx_Scanner Mx_Verdicts Mx_Streams
begin

text \<open>
  Matrix is a microkernel for agent components, written in Rust. A kernel (\<open>crates/matrix-core\<close>)
  activates components from manifests, resolves their requirements, owns their resources, and admits,
  revokes and settles calls. Components outside the process speak a framed JSON protocol
  (\<open>crates/matrix-proto\<close>) under an execution policy of the operator (\<open>crates/matrix-guard\<close>). A runtime
  service (\<open>crates/matrix-runtime\<close>) leases components to remote principals over a durable
  store, and remote hosts talk over multiplexed sessions. This development models these parts and
  proves what makes them correct.

  \<^bold>\<open>How the code is read.\<close> A struct is a record, an enum a datatype, a \<open>HashMap\<close> an association list
  with distinct keys whose order stands for the unspecified order of iteration, a \<open>String\<close> the list of its
  UTF-8 bytes. A method that locks a table is a function from the table to the new table and the answer;
  \<open>Result\<close> is a sum with the error on the left. Machine integers are words where they wrap (the length
  prefix of a frame, hashes, bits of \<open>poll\<close>) and numbers with their bound written out otherwise. Instants
  are nanoseconds. What the code reads from outside (clocks, random bytes, files, SQLite, TLS, sockets, threads
  of other owners) is an argument of the operation that reads it; \<open>serde_json\<close>, the one package on whose results the code's
  decisions rest, is a pair of a printer and a parser (the record \<open>codec\<close>). Concurrency is explicit: an operation of the
  kernel takes an environment that says what other threads do in each of its windows, a table operation is atomic
  because the code holds the lock, and the engine of a session is a state machine that interleaves with
  its callers at the locks and channels of the code.

  \<^bold>\<open>The theories.\<close>

  \<^item> \<open>Mx_Prelude\<close>, \<open>Mx_Strings\<close>, \<open>Mx_Json\<close>: hash maps and their interface \<open>keyed_table\<close>, fallible sequencing,
    the string functions of the standard library, JSON values.
  \<^item> \<open>Mx_Identity\<close> (\<open>identity.rs\<close>, \<open>fsm.rs\<close>, \<open>leases.rs\<close>), \<open>Mx_Context\<close> (\<open>context.rs\<close>), \<open>Mx_Resources\<close>
    (\<open>resources.rs\<close>), \<open>Mx_Registry\<close> (\<open>registry.rs\<close>, \<open>bus.rs\<close>), \<open>Mx_Calls\<close> (\<open>calls.rs\<close>), \<open>Mx_Journal\<close>
    (\<open>journal.rs\<close>): the tables of the kernel, one record each, one function per method. Each table has a locale that
    states what every one of its operations keeps (\<open>context_op\<close>, \<open>resource_op\<close>, \<open>ticket_op\<close>,
    \<open>owned_store\<close>), interpreted for each operation and for sequences of operations; the lemmas show
    that a disposal is claimed once, a handle is released once, a ticket settles once, and that the books of each table are exact.
  \<^item> \<open>Mx_Deps\<close>, \<open>Mx_Graph\<close> (\<open>deps.rs\<close>): requirements and the dependency graph; the search for a cycle is sound
    and complete, Kahn's order puts providers first, the transitive consumers are those that reach the target. The search
    takes a depth as fuel and the number of nodes is proved to be enough.
  \<^item> \<open>Mx_Manifest\<close> (\<open>external.rs\<close> and the first part of \<open>kernel.rs\<close>): reading a manifest.
  \<^item> \<open>Mx_Kernel\<close>, \<open>Mx_Lifecycle\<close>, \<open>Mx_Reconcile\<close>, \<open>Mx_Admission\<close>, \<open>Mx_Dispatch\<close> (\<open>kernel.rs\<close>): the coordinator
    over the tables, with the windows in which it can be interrupted. Finalising an instance reconciles and reconciling
    disposes, so finalisation nests; it does so to a depth that is an argument, and one level is used only by a call that another thread
    closes in the window \<open>Parked\<close>. The reconciliation loop has the bound the code gives it.
  \<^item> \<open>Mx_Steps\<close>: the locales \<open>kernel_invariant\<close>, \<open>kernel_rely\<close> and \<open>kernel_commands\<close>: what survives the operations of
    the tables survives every operation of the kernel, whatever happens in its windows. \<open>Mx_Runs\<close> interprets them: the tables
    change by their own operations only (a refinement, through which the properties of the tables hold of the
    kernel), the dependency quotas are exact, the calls in flight are bounded. \<open>Mx_Authority\<close> says what single operations
    guarantee when they return in spite of interference, and shows three interleavings the code does not exclude.
  \<^item> \<open>Mx_Frame\<close> (\<open>frame.rs\<close>, \<open>classify.rs\<close>), \<open>Mx_Wire\<close> (\<open>error.rs\<close>, \<open>handshake.rs\<close>, \<open>dependency.rs\<close>), \<open>Mx_Envelope\<close>
    (\<open>envelope.rs\<close>), \<open>Mx_Scanner\<close>, \<open>Mx_Remote\<close> (\<open>remote.rs\<close> of matrix-proto): frames survive any chunking, a write with a
    deadline fails closed, the structural scan decides nesting and repeated keys on the texts of a JSON grammar, accepted
    envelopes and remote calls are well formed. Loops that wait for a socket are partial functions, proved to return when the clock
    reaches the deadline.
  \<^item> \<open>Mx_Guard\<close> (matrix-guard): sandbox checks, the command line of a component, restart budgets.
  \<^item> \<open>Mx_Store\<close> (\<open>store.rs\<close>): the durable tables and every operation on them, with the failures of the
    database as an argument; a locale (\<open>rising\<close>) for what only grows, through any operations and restarts.
  \<^item> \<open>Mx_Service\<close> (\<open>service.rs\<close>), \<open>Mx_Tenure\<close>: grants, leases, invocation, supervision over the kernel and the store;
    a live lease holds the current fence, a revoked principal is powerless, a successful invocation had authority at both ends.
  \<^item> \<open>Mx_Reader\<close>, \<open>Mx_Session\<close>, \<open>Mx_Waits\<close>, \<open>Mx_Handshake\<close> (\<open>session.rs\<close>): the assembler and the read loops, the handle and the engine
    of a remote session, and its opening. The step relation \<open>session_step\<close> interleaves the engine and the callers; the locale
    \<open>session_invariant\<close> carries what each step keeps along every run: bounded queues, one answer per request and to the right
    one, a final and silent detachment, progress of the engine on every input. Two theorems are about what
    the code does not do: frames read ahead in the handshake are lost, and a reused request identity lets a late answer resolve
    a newer wait.

  \<^bold>\<open>Not modelled.\<close> The process host (\<open>matrix-host\<close>), which starts component processes and speaks the component
  protocol on their pipes and sockets; the controller and the executor of remote routes (\<open>route_controller.rs\<close>, \<open>route_executor.rs\<close>),
  the line protocol and the managed remotes (\<open>api.rs\<close>, \<open>remote.rs\<close> of matrix-runtime); the component library and its binaries
  (\<open>matrix-component\<close>, \<open>matrix-rt\<close>, \<open>matrix-sdk\<close>). Of the modelled parts: the seccomp program and the signals of
  \<open>matrix-guard\<close>, the TLS configuration and the socket polling of \<open>session.rs\<close>, the accept loops and watcher threads, which are
  input and output of the operating system and the TLS package.
\<close>

end
